(* ===== verification/Prelude.thy ===== *)
theory Prelude
  imports
    Main
    "HOL-Library.Word"
    "HOL-Library.Char_ord"
    "HOL-Library.List_Lexorder"
    "HOL-Library.Multiset"
begin

unbundle bit_operations_syntax

text \<open>
  What every component of the plugin shares: the byte and word types, and the functions of Go's
  standard library that the plugin calls (\<open>strings\<close>, \<open>strconv\<close>, \<open>encoding/binary\<close>,
  \<open>io.ReadFull\<close>), written as executable functions, with the lemmas the component proofs rest
  on. A Go string is a byte sequence; it is modelled by \<^typ>\<open>string\<close>, one \<^typ>\<open>char\<close> a byte, so
  a character beyond ASCII is its UTF-8 bytes. A Go error return is the left side of a sum.
\<close>

named_theorems str_simps \<open>string functions of the standard library\<close>
named_theorems wire_simps \<open>big-endian words and exact reads\<close>

type_synonym byte = "8 word"
type_synonym u32 = "32 word"
type_synonym u64 = "64 word"
type_synonym bytes = "byte list"

subsection \<open>Prefixes, cuts and searches (package strings)\<close>

fun has_prefix :: "string \<Rightarrow> string \<Rightarrow> bool" where
  "has_prefix s [] = True"
| "has_prefix [] (p # ps) = False"
| "has_prefix (c # s) (p # ps) = (c = p \<and> has_prefix s ps)"

definition cut_prefix :: "string \<Rightarrow> string \<Rightarrow> string option" where
  "cut_prefix s p = (if has_prefix s p then Some (drop (length p) s) else None)"

definition trim_prefix :: "string \<Rightarrow> string \<Rightarrow> string" where
  "trim_prefix s p = (if has_prefix s p then drop (length p) s else s)"

fun cut_byte :: "char \<Rightarrow> string \<Rightarrow> (string \<times> string) option" where
  "cut_byte c [] = None"
| "cut_byte c (x # s) =
     (if x = c then Some ([], s)
      else (case cut_byte c s of None \<Rightarrow> None | Some (a, b) \<Rightarrow> Some (x # a, b)))"

fun contains :: "string \<Rightarrow> string \<Rightarrow> bool" where
  "contains [] p = (p = [])"
| "contains (c # s) p = (has_prefix (c # s) p \<or> contains s p)"

fun join :: "string \<Rightarrow> string list \<Rightarrow> string" where
  "join sep [] = []"
| "join sep [s] = s"
| "join sep (s # t # ss) = s @ sep @ join sep (t # ss)"

lemma has_prefix_append [simp]: "has_prefix (p @ s) p"
  by (induction p) auto

lemma has_prefix_iff: "has_prefix s p \<longleftrightarrow> (\<exists>r. s = p @ r)"
  by (induction s p rule: has_prefix.induct) auto

lemma cut_prefix_append [simp, str_simps]: "cut_prefix (p @ s) p = Some s"
  by (simp add: cut_prefix_def)

lemma cut_prefix_Some_iff: "cut_prefix s p = Some r \<longleftrightarrow> s = p @ r"
  by (auto simp: cut_prefix_def has_prefix_iff)

lemma cut_byte_append [str_simps]: "c \<notin> set a \<Longrightarrow> cut_byte c (a @ c # b) = Some (a, b)"
  by (induction a) auto

lemma cut_byte_Some_iff: "cut_byte c s = Some (a, b) \<longleftrightarrow> s = a @ c # b \<and> c \<notin> set a"
proof (induction s arbitrary: a)
  case Nil
  then show ?case by simp
next
  case (Cons x s)
  show ?case
  proof (cases a)
    case Nil
    then show ?thesis by (auto split: option.splits)
  next
    case (Cons y a')
    have "cut_byte c (x # s) = Some (a, b) \<longleftrightarrow> x \<noteq> c \<and> y = x \<and> cut_byte c s = Some (a', b)"
      using Cons by (auto split: option.splits)
    then show ?thesis using Cons Cons.IH [of a'] by auto
  qed
qed

lemma contains_iff: "contains s p \<longleftrightarrow> (\<exists>a b. s = a @ p @ b)"
proof (induction s)
  case Nil
  then show ?case by simp
next
  case (Cons c s)
  show ?case
  proof
    assume "contains (c # s) p"
    then consider (here) "has_prefix (c # s) p" | (later) "contains s p" by auto
    then show "\<exists>a b. c # s = a @ p @ b"
    proof cases
      case here
      then obtain r where "c # s = [] @ p @ r" by (auto simp: has_prefix_iff)
      then show ?thesis by blast
    next
      case later
      then obtain a b where "c # s = (c # a) @ p @ b" using Cons.IH by auto
      then show ?thesis by blast
    qed
  next
    assume "\<exists>a b. c # s = a @ p @ b"
    then obtain a b where ab: "c # s = a @ p @ b" by blast
    show "contains (c # s) p"
    proof (cases a)
      case Nil
      with ab have "has_prefix (c # s) p" by simp
      then show ?thesis by simp
    next
      case (Cons d a')
      with ab have "s = a' @ p @ b" by simp
      with Cons.IH have "contains s p" by blast
      then show ?thesis by simp
    qed
  qed
qed

lemma contains_append_right: "contains s p \<Longrightarrow> contains (a @ s) p"
  by (induction a) auto

lemma contains_append_left: "contains s p \<Longrightarrow> contains (s @ b) p"
  by (metis append.assoc contains_iff)

lemma contains_self [simp]: "contains p p"
  using contains_iff by (metis append_Nil append_Nil2)

lemma set_join: "set (join sep ss) \<subseteq> set sep \<union> (\<Union>s\<in>set ss. set s)"
  by (induction sep ss rule: join.induct) auto

lemma contains_join: "s \<in> set ss \<Longrightarrow> contains (join sep ss) s"
proof (induction sep ss rule: join.induct)
  case (1 sep)
  then show ?case by simp
next
  case (2 sep x)
  then show ?case by simp
next
  case (3 sep x y zs)
  show ?case
  proof (cases "s = x")
    case True
    then show ?thesis by (simp add: contains_append_left)
  next
    case False
    with 3 have "contains (join sep (y # zs)) s" by simp
    then show ?thesis by (simp add: contains_append_right)
  qed
qed

subsection \<open>White space and letter case\<close>

text \<open>
  \<open>strings.TrimSpace\<close> removes the characters of \<open>unicode.IsSpace\<close> at both ends. The list
  holds their UTF-8 encodings. A lead byte never occurs inside another character, so matching an
  encoding at either end of the byte string is decoding a rune there.
\<close>

definition space_runes :: "string list" where
  "space_runes =
     [[CHR 0x09], [CHR 0x0A], [CHR 0x0B], [CHR 0x0C], [CHR 0x0D], [CHR 0x20],
      [CHR 0xC2, CHR 0x85], [CHR 0xC2, CHR 0xA0], [CHR 0xE1, CHR 0x9A, CHR 0x80],
      [CHR 0xE2, CHR 0x80, CHR 0x80], [CHR 0xE2, CHR 0x80, CHR 0x81],
      [CHR 0xE2, CHR 0x80, CHR 0x82], [CHR 0xE2, CHR 0x80, CHR 0x83],
      [CHR 0xE2, CHR 0x80, CHR 0x84], [CHR 0xE2, CHR 0x80, CHR 0x85],
      [CHR 0xE2, CHR 0x80, CHR 0x86], [CHR 0xE2, CHR 0x80, CHR 0x87],
      [CHR 0xE2, CHR 0x80, CHR 0x88], [CHR 0xE2, CHR 0x80, CHR 0x89],
      [CHR 0xE2, CHR 0x80, CHR 0x8A], [CHR 0xE2, CHR 0x80, CHR 0xA8],
      [CHR 0xE2, CHR 0x80, CHR 0xA9], [CHR 0xE2, CHR 0x80, CHR 0xAF],
      [CHR 0xE2, CHR 0x81, CHR 0x9F], [CHR 0xE3, CHR 0x80, CHR 0x80]]"

text \<open>\<open>strip\<close> removes any of the given non-empty words from the front, as often as possible.\<close>

definition strip_one :: "string list \<Rightarrow> string \<Rightarrow> string option" where
  "strip_one ws s = (case find (has_prefix s) ws of None \<Rightarrow> None | Some w \<Rightarrow> Some (drop (length w) s))"

fun strip_fuel :: "nat \<Rightarrow> string list \<Rightarrow> string \<Rightarrow> string" where
  "strip_fuel 0 ws s = s"
| "strip_fuel (Suc n) ws s = (case strip_one ws s of None \<Rightarrow> s | Some r \<Rightarrow> strip_fuel n ws r)"

definition trim_left :: "string \<Rightarrow> string" where
  "trim_left s = strip_fuel (length s) space_runes s"

definition trim_right :: "string \<Rightarrow> string" where
  "trim_right s = rev (strip_fuel (length s) (map rev space_runes) (rev s))"

definition trim_space :: "string \<Rightarrow> string" where
  "trim_space s = trim_right (trim_left s)"

lemma strip_one_suffix:
  "strip_one ws s = Some r \<Longrightarrow> \<exists>w \<in> set ws. s = w @ r"
  by (force simp: strip_one_def has_prefix_iff find_Some_iff split: option.splits)

lemma strip_fuel_suffix: "\<exists>p. s = p @ strip_fuel n ws s"
proof (induction n arbitrary: s)
  case 0
  then show ?case by simp
next
  case (Suc n)
  show ?case
  proof (cases "strip_one ws s")
    case None
    then show ?thesis by simp
  next
    case (Some r)
    then obtain w where "s = w @ r" using strip_one_suffix by blast
    moreover obtain p where "r = p @ strip_fuel n ws r" using Suc.IH by blast
    ultimately have "s = (w @ p) @ strip_fuel (Suc n) ws s" using Some by simp
    then show ?thesis by blast
  qed
qed

text \<open>The fuel (the length of the string) suffices: the result starts with none of the words.\<close>

lemma strip_fuel_done:
  assumes "[] \<notin> set ws" and "length s \<le> n"
  shows "strip_one ws (strip_fuel n ws s) = None"
  using assms(2)
proof (induction n arbitrary: s)
  case 0
  then have "s = []" by simp
  moreover have "find (has_prefix []) ws = None"
    using assms(1) by (auto simp: find_None_iff has_prefix_iff)
  ultimately show ?case by (simp add: strip_one_def)
next
  case (Suc n)
  show ?case
  proof (cases "strip_one ws s")
    case None
    then show ?thesis by simp
  next
    case (Some r)
    then obtain w where w: "w \<in> set ws" "s = w @ r" using strip_one_suffix by blast
    with assms(1) have "w \<noteq> []" by auto
    then have "0 < length w" by simp
    moreover have "length w + length r \<le> Suc n" using w Suc.prems by simp
    ultimately have "length r \<le> n" by linarith
    with Some show ?thesis by (simp add: Suc.IH)
  qed
qed

lemma trim_space_infix: "\<exists>a b. s = a @ trim_space s @ b"
proof -
  obtain a where a: "s = a @ trim_left s"
    using strip_fuel_suffix by (metis trim_left_def)
  obtain b where "rev (trim_left s) = b @ rev (trim_right (trim_left s))"
    using strip_fuel_suffix by (metis trim_right_def rev_rev_ident)
  then have "trim_left s = trim_space s @ rev b"
    by (metis rev_append rev_rev_ident trim_space_def)
  with a show ?thesis by metis
qed

lemma set_trim_space: "set (trim_space s) \<subseteq> set s"
  using trim_space_infix [of s] by (metis Un_upper1 Un_upper2 order_trans set_append)

lemma trim_space_Nil [simp]: "trim_space [] = []"
  using trim_space_infix [of "[]"] by simp

text \<open>
  \<open>strings.ToLower\<close> and \<open>strings.EqualFold\<close>, as far as a comparison with an ASCII word can
  see them: ASCII capitals are lowered, and so are the characters outside ASCII whose lower case or
  case fold is an ASCII letter (U+0130 and U+212A under \<open>ToLower\<close>, U+017F and U+212A under
  \<open>EqualFold\<close>). Every other byte is kept; the lower case of such a character is outside ASCII
  too, and every use in the plugin compares with an ASCII literal.
\<close>

definition lower_char :: "char \<Rightarrow> char" where
  "lower_char c = (if 65 \<le> (of_char c :: nat) \<and> (of_char c :: nat) \<le> 90
                   then char_of ((of_char c :: nat) + 32) else c)"

definition upper_char :: "char \<Rightarrow> char" where
  "upper_char c = (if 97 \<le> (of_char c :: nat) \<and> (of_char c :: nat) \<le> 122
                   then char_of ((of_char c :: nat) - 32) else c)"

fun to_lower :: "string \<Rightarrow> string" where
  "to_lower [] = []"
| "to_lower (c # s) =
     (if has_prefix (c # s) [CHR 0xC4, CHR 0xB0] then CHR ''i'' # to_lower (drop 1 s)
      else if has_prefix (c # s) [CHR 0xE2, CHR 0x84, CHR 0xAA] then CHR ''k'' # to_lower (drop 2 s)
      else lower_char c # to_lower s)"

fun fold_case :: "string \<Rightarrow> string" where
  "fold_case [] = []"
| "fold_case (c # s) =
     (if has_prefix (c # s) [CHR 0xC5, CHR 0xBF] then CHR ''s'' # fold_case (drop 1 s)
      else if has_prefix (c # s) [CHR 0xE2, CHR 0x84, CHR 0xAA] then CHR ''k'' # fold_case (drop 2 s)
      else lower_char c # fold_case s)"

definition equal_fold :: "string \<Rightarrow> string \<Rightarrow> bool" where
  "equal_fold a b = (fold_case a = fold_case b)"

lemma equal_fold_refl [simp]: "equal_fold a a"
  by (simp add: equal_fold_def)

subsection \<open>Decimal numbers (strconv.Itoa, the verb d of fmt)\<close>

definition digit_char :: "nat \<Rightarrow> char" where
  "digit_char d = char_of (48 + d)"

fun dec_nat :: "nat \<Rightarrow> string" where
  "dec_nat n = (if n < 10 then [digit_char n] else dec_nat (n div 10) @ [digit_char (n mod 10)])"

declare dec_nat.simps [simp del]

definition dec_int :: "int \<Rightarrow> string" where
  "dec_int i = (if i < 0 then CHR ''-'' # dec_nat (nat (- i)) else dec_nat (nat i))"

definition is_digit :: "char \<Rightarrow> bool" where
  "is_digit c = (48 \<le> (of_char c :: nat) \<and> (of_char c :: nat) \<le> 57)"

definition digit_val :: "char \<Rightarrow> nat" where
  "digit_val c = (of_char c :: nat) - 48"

definition digits_val :: "string \<Rightarrow> nat" where
  "digits_val s = foldl (\<lambda>n c. n * 10 + digit_val c) 0 s"

lemma of_char_digit: "d < 10 \<Longrightarrow> (of_char (digit_char d) :: nat) = 48 + d"
  by (simp add: digit_char_def)

lemma is_digit_digit_char: "d < 10 \<Longrightarrow> is_digit (digit_char d)"
  by (simp add: is_digit_def of_char_digit)

lemma digit_val_digit_char: "d < 10 \<Longrightarrow> digit_val (digit_char d) = d"
  by (simp add: digit_val_def of_char_digit)

lemma dec_nat_digits: "list_all is_digit (dec_nat n)"
proof (induction n rule: dec_nat.induct)
  case (1 n)
  then show ?case
    by (cases "n < 10") (auto simp: dec_nat.simps [of n] is_digit_digit_char)
qed

lemma dec_nat_nonempty [simp]: "dec_nat n \<noteq> []"
  by (subst dec_nat.simps) simp

lemma digits_val_dec_nat [simp]: "digits_val (dec_nat n) = n"
proof (induction n rule: dec_nat.induct)
  case (1 n)
  show ?case
  proof (cases "n < 10")
    case True
    then show ?thesis by (simp add: dec_nat.simps [of n] digits_val_def digit_val_digit_char)
  next
    case False
    with 1 have "digits_val (dec_nat (n div 10)) = n div 10" by simp
    with False show ?thesis
      by (simp add: dec_nat.simps [of n] digits_val_def digit_val_digit_char)
  qed
qed

lemma dec_nat_length: "n < 10 ^ k \<Longrightarrow> 0 < k \<Longrightarrow> length (dec_nat n) \<le> k"
proof (induction n arbitrary: k rule: dec_nat.induct)
  case (1 n)
  show ?case
  proof (cases "n < 10")
    case True
    with 1 show ?thesis by (simp add: dec_nat.simps [of n])
  next
    case False
    with 1(2) obtain j where k: "k = Suc j" "0 < j" by (cases k; cases "k - 1") auto
    then have "n div 10 < 10 ^ j" using 1(2) by (simp add: less_mult_imp_div_less mult.commute)
    with 1(1) [OF False] k False show ?thesis by (simp add: dec_nat.simps [of n])
  qed
qed

lemma dec_nat_inject [simp]: "dec_nat m = dec_nat n \<longleftrightarrow> m = n"
  by (metis digits_val_dec_nat)

lemma dec_nat_only_digits: "c \<in> set (dec_nat n) \<Longrightarrow> is_digit c"
  using dec_nat_digits [of n] by (auto simp: list_all_iff)

lemma dec_int_inject: "dec_int i = dec_int j \<longleftrightarrow> i = j"
proof -
  have minus: "dec_nat n \<noteq> CHR ''-'' # s" for n s
    using dec_nat_only_digits [of "CHR ''-''" n] by (auto simp: is_digit_def)
  show ?thesis
    by (auto simp: dec_int_def minus minus [symmetric] eq_nat_nat_iff)
qed

subsection \<open>Big-endian words (encoding/binary)\<close>

definition put_u32 :: "u32 \<Rightarrow> bytes" where
  "put_u32 v = [ucast (drop_bit 24 v), ucast (drop_bit 16 v), ucast (drop_bit 8 v), ucast v]"

definition get_u32 :: "bytes \<Rightarrow> u32" where
  "get_u32 b = ucast (b ! 3) OR push_bit 8 (ucast (b ! 2)) OR push_bit 16 (ucast (b ! 1))
                 OR push_bit 24 (ucast (b ! 0))"

lemma length_put_u32 [simp, wire_simps]: "length (put_u32 v) = 4"
  by (simp add: put_u32_def)

lemma get_put_u32_append [simp, wire_simps]: "get_u32 (put_u32 v @ r) = v"
proof (rule bit_word_eqI)
  fix n
  assume "n < LENGTH(32)"
  then consider "n < 8" | "8 \<le> n" "n < 16" | "16 \<le> n" "n < 24" | "24 \<le> n" "n < 32"
    by fastforce
  then show "bit (get_u32 (put_u32 v @ r)) n = bit v n"
    by cases (auto simp: get_u32_def put_u32_def bit_simps dest: bit_imp_le_length)
qed

lemma get_put_u32 [simp, wire_simps]: "get_u32 (put_u32 v) = v"
  using get_put_u32_append [of v "[]"] by simp

lemma bit_byte_high: "8 \<le> n \<Longrightarrow> \<not> bit (w :: byte) n"
  by (rule impossible_bit) simp

lemma put_get_u32:
  assumes "length b = 4"
  shows "put_u32 (get_u32 b) = b"
proof -
  from assms obtain p q r s where "b = [p, q, r, s]"
    by (auto simp: length_Suc_conv eval_nat_numeral)
  then show ?thesis
    by (auto simp: put_u32_def get_u32_def bit_simps bit_byte_high intro!: bit_word_eqI)
qed

subsection \<open>Exact reads (io.ReadFull)\<close>

text \<open>
  A reader is the bytes still to come and the error its stream ends in. \<open>io.ReadFull\<close> takes
  exactly \<open>n\<close> bytes or fails: with the end error where nothing was read, and with
  \<open>ErrUnexpectedEOF\<close> where the stream ended cleanly in between. Asking for no bytes succeeds.
\<close>

datatype read_err = EOF | UnexpectedEOF | ReadFailed string

record reader =
  rbuf :: bytes
  rend :: read_err

definition read_full :: "nat \<Rightarrow> reader \<Rightarrow> (read_err + bytes) \<times> reader" where
  "read_full n r =
     (if n \<le> length (rbuf r) then (Inr (take n (rbuf r)), r\<lparr>rbuf := drop n (rbuf r)\<rparr>)
      else (Inl (if rbuf r \<noteq> [] \<and> rend r = EOF then UnexpectedEOF else rend r), r\<lparr>rbuf := []\<rparr>))"

lemma read_full_append [simp, wire_simps]:
  "rbuf r = a @ b \<Longrightarrow> length a = n \<Longrightarrow> read_full n r = (Inr a, r\<lparr>rbuf := b\<rparr>)"
  by (simp add: read_full_def)

lemma read_full_Inr:
  "read_full n r = (Inr a, r') \<Longrightarrow> rbuf r = a @ rbuf r' \<and> length a = n \<and> rend r' = rend r"
  by (auto simp: read_full_def split: if_splits)

lemma read_full_rend: "rend (snd (read_full n r)) = rend r"
  by (simp add: read_full_def)

end
