(* ===== verification/Json.thy ===== *)
theory Json
  imports Prelude
begin

text \<open>
  What the plugin uses of Go's \<open>encoding/json\<close>: values with their literals kept raw (as a
  \<open>json.RawMessage\<close> keeps them), the scanner and parser, quoting and unquoting of strings with Go's HTML
  escaping and UTF-8 repair, compact printing, and decoding into zero-initialised structs with Go's rules
  (last member wins, keys match up to case, \<open>null\<close> leaves a value as it is, a type mismatch is an error).
  Strings are byte strings. The nesting limit of 10000 levels is not modelled.
\<close>

datatype json =
    JNull
  | JBool bool
  | JNum string
  | JStr string
  | JArr "json list"
  | JObj "(string \<times> json) list"

subsection \<open>Scanning\<close>

definition is_ws :: "char \<Rightarrow> bool" where
  "is_ws c = (c = CHR '' '' \<or> c = CHR 0x09 \<or> c = CHR 0x0A \<or> c = CHR 0x0D)"

definition skip_ws :: "string \<Rightarrow> string" where
  "skip_ws = dropWhile is_ws"

definition byte_val :: "char \<Rightarrow> nat" where
  "byte_val c = of_char c"

definition hex_val :: "char \<Rightarrow> nat option" where
  "hex_val c =
     (let n = byte_val c in
      if 48 \<le> n \<and> n \<le> 57 then Some (n - 48)
      else if 97 \<le> n \<and> n \<le> 102 then Some (n - 87)
      else if 65 \<le> n \<and> n \<le> 70 then Some (n - 55) else None)"

definition is_hex :: "char \<Rightarrow> bool" where
  "is_hex c = (hex_val c \<noteq> None)"

definition quote_char :: char where "quote_char = CHR 0x22"
definition backslash :: char where "backslash = CHR 0x5C"

text \<open>The literal of a string up to its closing quote, and what follows the quote.\<close>

function scan_string :: "string \<Rightarrow> (string \<times> string) option" where
  "scan_string [] = None"
| "scan_string (c # s) =
     (if c = quote_char then Some ([], s)
      else if c = backslash then
        (case s of
           [] \<Rightarrow> None
         | e # t \<Rightarrow>
             if e = CHR ''u'' then
               (if length t \<ge> 4 \<and> list_all is_hex (take 4 t) then
                  map_option (\<lambda>(r, u). (c # e # take 4 t @ r, u)) (scan_string (drop 4 t))
                else None)
             else if e \<in> {quote_char, backslash, CHR ''/'', CHR ''b'', CHR ''f'', CHR ''n'', CHR ''r'', CHR ''t''} then
               map_option (\<lambda>(r, u). (c # e # r, u)) (scan_string t)
             else None)
      else if byte_val c < 32 then None
      else map_option (\<lambda>(r, u). (c # r, u)) (scan_string s))"
  by pat_completeness auto
termination
  by (relation "measure length") auto

definition num_char :: "char \<Rightarrow> bool" where
  "num_char c = (is_digit c \<or> c \<in> set ''+-.eE'')"

definition digits1 :: "string \<Rightarrow> bool" where
  "digits1 s = (s \<noteq> [] \<and> list_all is_digit s)"

definition exp_ok :: "string \<Rightarrow> bool" where
  "exp_ok s =
     (case s of [] \<Rightarrow> True
      | e # t \<Rightarrow> (e = CHR ''e'' \<or> e = CHR ''E'') \<and>
          (case t of [] \<Rightarrow> False
           | c # u \<Rightarrow> if c = CHR ''+'' \<or> c = CHR ''-'' then digits1 u else digits1 t))"

definition frac_ok :: "string \<Rightarrow> bool" where
  "frac_ok s =
     (case s of [] \<Rightarrow> True
      | c # t \<Rightarrow> if c = CHR ''.'' then
            digits1 (takeWhile is_digit t) \<and> exp_ok (dropWhile is_digit t)
          else exp_ok s)"

definition num_valid :: "string \<Rightarrow> bool" where
  "num_valid s =
     (let t = (case s of [] \<Rightarrow> [] | c # u \<Rightarrow> if c = CHR ''-'' then u else s);
          ds = takeWhile is_digit t
      in ds \<noteq> [] \<and> (hd ds = CHR ''0'' \<longrightarrow> length ds = 1) \<and> frac_ok (dropWhile is_digit t))"

definition scan_number :: "string \<Rightarrow> (string \<times> string) option" where
  "scan_number s =
     (let n = takeWhile num_char s in
      if num_valid n then Some (n, dropWhile num_char s) else None)"

subsection \<open>Parsing\<close>

fun parse_value :: "nat \<Rightarrow> string \<Rightarrow> (json \<times> string) option"
and parse_elems :: "nat \<Rightarrow> string \<Rightarrow> (json list \<times> string) option"
and parse_members :: "nat \<Rightarrow> string \<Rightarrow> ((string \<times> json) list \<times> string) option" where
  "parse_value 0 s = None"
| "parse_value (Suc n) s =
     (let w = skip_ws s in
      case w of [] \<Rightarrow> None
      | c # t \<Rightarrow>
          if c = quote_char then map_option (\<lambda>(r, u). (JStr r, u)) (scan_string t)
          else if c = CHR ''['' then
            (if has_prefix (skip_ws t) '']'' then Some (JArr [], drop 1 (skip_ws t))
             else map_option (\<lambda>(vs, u). (JArr vs, u)) (parse_elems n t))
          else if c = CHR ''{'' then
            (if has_prefix (skip_ws t) ''}'' then Some (JObj [], drop 1 (skip_ws t))
             else map_option (\<lambda>(ms, u). (JObj ms, u)) (parse_members n t))
          else if has_prefix w ''null'' then Some (JNull, drop 4 w)
          else if has_prefix w ''true'' then Some (JBool True, drop 4 w)
          else if has_prefix w ''false'' then Some (JBool False, drop 5 w)
          else map_option (\<lambda>(r, u). (JNum r, u)) (scan_number w))"
| "parse_elems 0 s = None"
| "parse_elems (Suc n) s =
     (case parse_value n s of None \<Rightarrow> None
      | Some (v, t) \<Rightarrow>
          if has_prefix (skip_ws t) '']'' then Some ([v], drop 1 (skip_ws t))
          else if has_prefix (skip_ws t) '','' then
            map_option (\<lambda>(vs, u). (v # vs, u)) (parse_elems n (drop 1 (skip_ws t)))
          else None)"
| "parse_members 0 s = None"
| "parse_members (Suc n) s =
     (if has_prefix (skip_ws s) [quote_char] then
        (case scan_string (drop 1 (skip_ws s)) of None \<Rightarrow> None
         | Some (k, t) \<Rightarrow>
             if has_prefix (skip_ws t) '':'' then
               (case parse_value n (drop 1 (skip_ws t)) of None \<Rightarrow> None
                | Some (v, u) \<Rightarrow>
                    if has_prefix (skip_ws u) ''}'' then Some ([(k, v)], drop 1 (skip_ws u))
                    else if has_prefix (skip_ws u) '','' then
                      map_option (\<lambda>(ms, x). ((k, v) # ms, x)) (parse_members n (drop 1 (skip_ws u)))
                    else None)
             else None)
      else None)"

text \<open>\<open>Decoder.Decode\<close> takes one value off the front; \<open>Unmarshal\<close> allows only space after it.\<close>

definition parse_one :: "string \<Rightarrow> (json \<times> string) option" where
  "parse_one s = parse_value (2 * length s + 1) s"

definition parse_all :: "string \<Rightarrow> json option" where
  "parse_all s = (case parse_one s of Some (v, t) \<Rightarrow> if skip_ws t = [] then Some v else None | None \<Rightarrow> None)"

subsection \<open>Strings\<close>

definition between :: "nat \<Rightarrow> char \<Rightarrow> nat \<Rightarrow> bool" where
  "between a c b = (a \<le> byte_val c \<and> byte_val c \<le> b)"

text \<open>The length of the UTF-8 encoded rune at the front, 0 where there is none (\<open>utf8.DecodeRune\<close>).\<close>

definition utf8_lead :: "char \<Rightarrow> nat \<times> nat \<times> nat" where
  "utf8_lead a =
     (if byte_val a < 128 then (1, 0, 0)
      else if between 194 a 223 then (2, 128, 191)
      else if byte_val a = 224 then (3, 160, 191)
      else if byte_val a = 237 then (3, 128, 159)
      else if between 225 a 239 then (3, 128, 191)
      else if byte_val a = 240 then (4, 144, 191)
      else if byte_val a = 244 then (4, 128, 143)
      else if between 241 a 243 then (4, 128, 191)
      else (0, 0, 0))"

definition utf8_len :: "string \<Rightarrow> nat" where
  "utf8_len s =
     (case s of [] \<Rightarrow> 0
      | a # t \<Rightarrow>
          (case utf8_lead a of (n, lo, hi) \<Rightarrow>
             if n \<le> 1 then n
             else if n - 1 \<le> length t \<and> between lo (hd t) hi
                     \<and> list_all (\<lambda>c. between 128 c 191) (take (n - 2) (tl t)) then n
             else 0))"

definition utf8_enc :: "nat \<Rightarrow> string" where
  "utf8_enc r =
     (if r < 128 then [char_of r]
      else if r < 2048 then [char_of (192 + r div 64), char_of (128 + r mod 64)]
      else if r < 65536 then
        [char_of (224 + r div 4096), char_of (128 + r div 64 mod 64), char_of (128 + r mod 64)]
      else [char_of (240 + r div 262144), char_of (128 + r div 4096 mod 64),
            char_of (128 + r div 64 mod 64), char_of (128 + r mod 64)])"

definition replacement :: string where
  "replacement = [CHR 0xEF, CHR 0xBF, CHR 0xBD]"

definition hex4 :: "string \<Rightarrow> nat" where
  "hex4 s = foldl (\<lambda>n c. 16 * n + (case hex_val c of Some d \<Rightarrow> d | None \<Rightarrow> 0)) 0 (take 4 s)"

definition unescape_char :: "char \<Rightarrow> char" where
  "unescape_char e =
     (if e = CHR ''b'' then CHR 0x08 else if e = CHR ''f'' then CHR 0x0C else if e = CHR ''n'' then CHR 0x0A
      else if e = CHR ''r'' then CHR 0x0D else if e = CHR ''t'' then CHR 0x09 else e)"

text \<open>The rune of a \<open>\u\<close> escape, after its \<open>u\<close>, and how many bytes it takes: a surrogate pair is one rune.\<close>

definition unicode_escape :: "string \<Rightarrow> string \<times> nat" where
  "unicode_escape t =
     (let r = hex4 t; rest = drop 4 t in
      if r < 55296 \<or> 57343 < r then (utf8_enc r, 4)
      else if r < 56320 \<and> has_prefix rest [backslash, CHR ''u'']
              \<and> 56320 \<le> hex4 (drop 2 rest) \<and> hex4 (drop 2 rest) \<le> 57343 then
        (utf8_enc (65536 + (r - 55296) * 1024 + (hex4 (drop 2 rest) - 56320)), 10)
      else (replacement, 4))"

text \<open>One step of unquoting: what the front of the literal stands for, and how many more bytes it takes.\<close>

definition unquote_step :: "char \<Rightarrow> string \<Rightarrow> string \<times> nat" where
  "unquote_step c s =
     (if c = backslash then
        (case s of [] \<Rightarrow> ([], 0)
         | e # t \<Rightarrow>
             if e = CHR ''u'' then (fst (unicode_escape t), 1 + snd (unicode_escape t))
             else ([unescape_char e], 1))
      else
        (let n = utf8_len (c # s) in
         if n = 0 then (replacement, 0) else (c # take (n - 1) s, n - 1)))"

function unquote :: "string \<Rightarrow> string" where
  "unquote [] = []"
| "unquote (c # s) = fst (unquote_step c s) @ unquote (drop (snd (unquote_step c s)) s)"
  by pat_completeness auto
termination
  by (relation "measure length") simp_all

definition hex_char :: "nat \<Rightarrow> char" where
  "hex_char d = (if d < 10 then char_of (48 + d) else char_of (87 + d))"

definition escape_byte :: "char \<Rightarrow> string" where
  "escape_byte c =
     (if c = quote_char \<or> c = backslash then [backslash, c]
      else if c = CHR 0x08 then [backslash, CHR ''b'']
      else if c = CHR 0x0C then [backslash, CHR ''f'']
      else if c = CHR 0x0A then [backslash, CHR ''n'']
      else if c = CHR 0x0D then [backslash, CHR ''r'']
      else if c = CHR 0x09 then [backslash, CHR ''t'']
      else if byte_val c < 32 \<or> c \<in> set ''<>&'' then
        [backslash, CHR ''u'', CHR ''0'', CHR ''0'', hex_char (byte_val c div 16), hex_char (byte_val c mod 16)]
      else [c])"

definition ls_rune :: string where "ls_rune = [CHR 0xE2, CHR 0x80, CHR 0xA8]"
definition ps_rune :: string where "ps_rune = [CHR 0xE2, CHR 0x80, CHR 0xA9]"

definition quote_step :: "char \<Rightarrow> string \<Rightarrow> string \<times> nat" where
  "quote_step c s =
     (if byte_val c < 128 then (escape_byte c, 0)
      else let n = utf8_len (c # s) in
        if n = 0 then (backslash # ''ufffd'', 0)
        else if take n (c # s) = ls_rune then (backslash # ''u2028'', n - 1)
        else if take n (c # s) = ps_rune then (backslash # ''u2029'', n - 1)
        else (c # take (n - 1) s, n - 1))"

function quote :: "string \<Rightarrow> string" where
  "quote [] = []"
| "quote (c # s) = fst (quote_step c s) @ quote (drop (snd (quote_step c s)) s)"
  by pat_completeness auto
termination
  by (relation "measure length") simp_all

declare scan_string.simps [simp del] unquote.simps(2) [simp del] quote.simps(2) [simp del]

text \<open>Well-formed UTF-8.\<close>

function utf8_valid :: "string \<Rightarrow> bool" where
  "utf8_valid [] = True"
| "utf8_valid (c # s) =
     (utf8_len (c # s) \<noteq> 0 \<and> utf8_valid (drop (utf8_len (c # s) - 1) s))"
  by pat_completeness auto
termination
  by (relation "measure length") simp_all

declare utf8_valid.simps [simp del]

subsection \<open>Printing\<close>

fun print_json :: "json \<Rightarrow> string"
and print_elems :: "json list \<Rightarrow> string"
and print_members :: "(string \<times> json) list \<Rightarrow> string" where
  "print_json JNull = ''null''"
| "print_json (JBool b) = (if b then ''true'' else ''false'')"
| "print_json (JNum n) = n"
| "print_json (JStr r) = quote_char # r @ [quote_char]"
| "print_json (JArr vs) = ''['' @ print_elems vs @ '']''"
| "print_json (JObj ms) = ''{'' @ print_members ms @ ''}''"
| "print_elems [] = []"
| "print_elems (v # vs) = print_json v @ (if vs = [] then [] else '','' @ print_elems vs)"
| "print_members [] = []"
| "print_members ((k, v) # ms) =
     quote_char # k @ quote_char # '':'' @ print_json v @ (if ms = [] then [] else '','' @ print_members ms)"

text \<open>What the code builds: a string is quoted, a number is a decimal.\<close>

definition json_str :: "string \<Rightarrow> json" where "json_str s = JStr (quote s)"
definition json_nat :: "nat \<Rightarrow> json" where "json_nat n = JNum (dec_nat n)"
definition json_int :: "int \<Rightarrow> json" where "json_int n = JNum (dec_int n)"

subsection \<open>Decoding into a value that is already there\<close>

type_synonym 'a dec = "json \<Rightarrow> 'a \<Rightarrow> 'a option"

fun dec_str :: "string dec" where
  "dec_str JNull x = Some x"
| "dec_str (JStr r) x = Some (unquote r)"
| "dec_str _ x = None"

fun dec_bool :: "bool dec" where
  "dec_bool JNull x = Some x"
| "dec_bool (JBool b) x = Some b"
| "dec_bool _ x = None"

definition int_literal :: "string \<Rightarrow> int option" where
  "int_literal s =
     (case s of [] \<Rightarrow> None
      | c # t \<Rightarrow> if c = CHR ''-'' then (if digits1 t then Some (- int (digits_val t)) else None)
                 else if digits1 s then Some (int (digits_val s)) else None)"

fun dec_ranged :: "int \<Rightarrow> int \<Rightarrow> int dec" where
  "dec_ranged lo hi JNull x = Some x"
| "dec_ranged lo hi (JNum s) x =
     (case int_literal s of Some n \<Rightarrow> if lo \<le> n \<and> n \<le> hi then Some n else None | None \<Rightarrow> None)"
| "dec_ranged lo hi _ x = None"

definition dec_i64 :: "int dec" where "dec_i64 = dec_ranged (- (2 ^ 63)) (2 ^ 63 - 1)"
definition dec_u16 :: "int dec" where "dec_u16 = dec_ranged 0 (2 ^ 16 - 1)"
definition dec_u32 :: "int dec" where "dec_u32 = dec_ranged 0 (2 ^ 32 - 1)"

definition dec_raw :: "json option dec" where
  "dec_raw j x = Some (Some j)"

text \<open>A slice is decoded afresh, element by element from the zero value; a map keeps what it had.\<close>

fun dec_all :: "'a dec \<Rightarrow> 'a \<Rightarrow> json list \<Rightarrow> 'a list option" where
  "dec_all d z [] = Some []"
| "dec_all d z (v # vs) =
     (case (d v z, dec_all d z vs) of (Some x, Some xs) \<Rightarrow> Some (x # xs) | _ \<Rightarrow> None)"

fun dec_list :: "'a dec \<Rightarrow> 'a \<Rightarrow> 'a list dec" where
  "dec_list d z JNull x = Some []"
| "dec_list d z (JArr vs) x = dec_all d z vs"
| "dec_list d z _ x = None"

fun dec_members :: "(string \<Rightarrow> 'a dec) \<Rightarrow> (string \<times> json) list \<Rightarrow> 'a \<Rightarrow> 'a option" where
  "dec_members f [] x = Some x"
| "dec_members f ((k, v) # ms) x =
     (case f (unquote k) v x of Some y \<Rightarrow> dec_members f ms y | None \<Rightarrow> None)"

fun dec_obj :: "(string \<Rightarrow> 'a dec) \<Rightarrow> 'a dec" where
  "dec_obj f JNull x = Some x"
| "dec_obj f (JObj ms) x = dec_members f ms x"
| "dec_obj f _ x = None"

text \<open>The member of a struct a key selects: the field of that very name, else one equal up to case.\<close>

definition select :: "(string \<times> 'a dec) list \<Rightarrow> string \<Rightarrow> 'a dec" where
  "select fds k =
     (case find (\<lambda>(n, d). n = k) fds of
        Some (n, d) \<Rightarrow> d
      | None \<Rightarrow> (case find (\<lambda>(n, d). equal_fold n k) fds of Some (n, d) \<Rightarrow> d | None \<Rightarrow> (\<lambda>v x. Some x)))"

definition dec_struct :: "(string \<times> 'a dec) list \<Rightarrow> 'a dec" where
  "dec_struct fds = dec_obj (select fds)"

definition lens :: "('r \<Rightarrow> 'f) \<Rightarrow> (('f \<Rightarrow> 'f) \<Rightarrow> 'r \<Rightarrow> 'r) \<Rightarrow> 'f dec \<Rightarrow> 'r dec" where
  "lens get upd d v r = map_option (\<lambda>x. upd (\<lambda>_. x) r) (d v (get r))"

definition decode_one :: "'a dec \<Rightarrow> 'a \<Rightarrow> string \<Rightarrow> 'a option" where
  "decode_one d z s = (case parse_one s of None \<Rightarrow> None | Some (v, _) \<Rightarrow> d v z)"

definition decode_all :: "'a dec \<Rightarrow> 'a \<Rightarrow> string \<Rightarrow> 'a option" where
  "decode_all d z s = (case parse_all s of None \<Rightarrow> None | Some v \<Rightarrow> d v z)"

subsection \<open>Scanning a string gives its literal back\<close>

definition raw_ok :: "string \<Rightarrow> bool" where
  "raw_ok r = (scan_string (r @ [quote_char]) = Some (r, []))"

lemma byte_val_less: "byte_val c < 256"
  by (simp add: byte_val_def)

lemma byte_val_char_of: "byte_val (char_of n) = n mod 256"
  by (simp add: byte_val_def)

lemma byte_val_eq_iff: "byte_val c = byte_val d \<longleftrightarrow> c = d"
  by (simp add: byte_val_def)

lemma quote_backslash: "quote_char \<noteq> backslash" "byte_val quote_char = 34" "byte_val backslash = 92"
  by (simp_all add: quote_char_def backslash_def byte_val_def)

lemma scan_string_escape:
  "scan_string (backslash # e # t) =
     (if e = CHR ''u'' then
        (if length t \<ge> 4 \<and> list_all is_hex (take 4 t) then
           map_option (\<lambda>(r, u). (backslash # e # take 4 t @ r, u)) (scan_string (drop 4 t))
         else None)
      else if e \<in> {quote_char, backslash, CHR ''/'', CHR ''b'', CHR ''f'', CHR ''n'', CHR ''r'', CHR ''t''} then
        map_option (\<lambda>(r, u). (backslash # e # r, u)) (scan_string t)
      else None)"
  by (simp only: scan_string.simps quote_backslash(1) [symmetric] if_False refl if_True list.case)

lemma scan_string_plain:
  "c \<noteq> backslash \<Longrightarrow> scan_string (c # s) =
     (if c = quote_char then Some ([], s)
      else if byte_val c < 32 then None
      else map_option (\<lambda>(r, u). (c # r, u)) (scan_string s))"
  by (simp only: scan_string.simps if_False)

lemma scan_string_append:
  "scan_string s = Some (r, t) \<Longrightarrow> scan_string (s @ x) = Some (r, t @ x)"
proof (induction "length s" arbitrary: s r t rule: less_induct)
  case less
  obtain c s' where s: "s = c # s'" using less.prems by (cases s) (auto simp: scan_string.simps)
  show ?case
  proof (cases "c = backslash")
    case False
    show ?thesis
      using less.prems less.hyps [of s'] unfolding s by (auto simp: scan_string_plain [OF False] split: if_splits)
  next
    case True
    obtain e t' where s': "s' = e # t'" using less.prems True s by (cases s') (auto simp: scan_string.simps quote_backslash(1) [symmetric])
    show ?thesis
    proof (cases "e = CHR ''u''")
      case u: True
      with less.prems obtain r' where d: "4 \<le> length t'" "list_all is_hex (take 4 t')"
        "scan_string (drop 4 t') = Some (r', t)" "r = backslash # e # take 4 t' @ r'"
        unfolding s s' True scan_string_escape by (auto split: if_splits)
      then have "scan_string (drop 4 t' @ x) = Some (r', t @ x)"
        using less.hyps [of "drop 4 t'"] s s' by simp
      with d u show ?thesis unfolding s s' True by (simp add: scan_string_escape)
    next
      case nu: False
      with less.prems obtain r' where d: "scan_string t' = Some (r', t)" "r = backslash # e # r'"
        "e \<in> {quote_char, backslash, CHR ''/'', CHR ''b'', CHR ''f'', CHR ''n'', CHR ''r'', CHR ''t''}"
        unfolding s s' True scan_string_escape by (auto simp only: if_False split: if_splits)
      then have "scan_string (t' @ x) = Some (r', t @ x)"
        using less.hyps [of "t'"] s s' by simp
      with d nu show ?thesis
        unfolding s s' True append_Cons scan_string_escape by (simp only: if_False if_True) simp
    qed
  qed
qed

lemma scan_string_raw: "raw_ok r \<Longrightarrow> scan_string (r @ quote_char # x) = Some (r, x)"
  using scan_string_append [of "r @ [quote_char]" r "[]" x] by (simp add: raw_ok_def)

lemma raw_ok_Nil [simp]: "raw_ok []"
  by (simp add: raw_ok_def scan_string.simps)

lemma raw_ok_plain:
  "c \<noteq> quote_char \<Longrightarrow> c \<noteq> backslash \<Longrightarrow> 32 \<le> byte_val c \<Longrightarrow> raw_ok (c # r) \<longleftrightarrow> raw_ok r"
  by (auto simp: raw_ok_def scan_string.simps)

lemma raw_ok_escape:
  "e \<in> {quote_char, backslash, CHR ''/'', CHR ''b'', CHR ''f'', CHR ''n'', CHR ''r'', CHR ''t''} \<Longrightarrow>
   raw_ok r \<Longrightarrow> raw_ok (backslash # e # r)"
proof -
  assume e: "e \<in> {quote_char, backslash, CHR ''/'', CHR ''b'', CHR ''f'', CHR ''n'', CHR ''r'', CHR ''t''}" and "raw_ok r"
  then have "e \<noteq> CHR ''u''" by (auto simp: quote_char_def backslash_def)
  with e \<open>raw_ok r\<close> show ?thesis
    unfolding raw_ok_def append_Cons scan_string_escape by (simp only: if_False if_True) simp
qed

lemma raw_ok_unicode:
  "length h = 4 \<Longrightarrow> list_all is_hex h \<Longrightarrow> raw_ok r \<Longrightarrow> raw_ok (backslash # CHR ''u'' # h @ r)"
  by (simp add: raw_ok_def scan_string_escape)

lemma raw_ok_high: "list_all (\<lambda>c. 128 \<le> byte_val c) p \<Longrightarrow> raw_ok r \<Longrightarrow> raw_ok (p @ r)"
proof (induction p)
  case (Cons c p)
  then have "c \<noteq> quote_char" "c \<noteq> backslash" "32 \<le> byte_val c"
    using quote_backslash(2,3) by auto
  with Cons show ?case by (simp add: raw_ok_plain)
qed simp

text \<open>What a rune of more than one byte is made of.\<close>

lemma utf8_len_le: "utf8_len s \<le> length s"
  by (auto simp: utf8_len_def utf8_lead_def split: list.splits)

lemma utf8_lead_bounds:
  "utf8_lead a = (n, lo, hi) \<Longrightarrow> n \<le> 4 \<and> (1 < n \<longrightarrow> 128 \<le> lo \<and> 128 \<le> byte_val a)"
  by (auto simp: utf8_lead_def between_def split: if_splits)

lemma utf8_len_high:
  "list_all (\<lambda>c. 128 \<le> byte_val c) (take (utf8_len (a # s) - 1) s)"
proof -
  obtain n lo hi where lead: "utf8_lead a = (n, lo, hi)" by (cases "utf8_lead a") auto
  show ?thesis
  proof (cases "1 < n \<and> n - 1 \<le> length s \<and> between lo (hd s) hi
      \<and> list_all (\<lambda>c. between 128 c 191) (take (n - 2) (tl s))")
    case True
    then obtain k where n: "n = Suc (Suc k)" using less_iff_Suc_add by auto
    with True obtain b t where s: "s = b # t" by (cases s) auto
    have "128 \<le> byte_val b" using True utf8_lead_bounds [OF lead] s by (auto simp: between_def)
    moreover have "list_all (\<lambda>c. 128 \<le> byte_val c) (take k t)"
      using True s n by (auto simp: list_all_iff between_def)
    moreover have "utf8_len (a # s) = n" using True lead by (simp add: utf8_len_def)
    ultimately show ?thesis using n s by simp
  next
    case False
    then have "utf8_len (a # s) \<le> 1" using lead by (auto simp: utf8_len_def)
    then show ?thesis by simp
  qed
qed

lemma hex_char_hex: "d < 16 \<Longrightarrow> hex_val (hex_char d) = Some d"
  by (auto simp: hex_char_def hex_val_def Let_def byte_val_def)

lemma hex_char_is_hex: "d < 16 \<Longrightarrow> is_hex (hex_char d)"
  by (simp add: is_hex_def hex_char_hex)

lemma escape_byte_cases:
  obtains (pair) e where "escape_byte c = [backslash, e]" "unescape_char e = c" "e \<noteq> CHR ''u''"
      "e \<in> {quote_char, backslash, CHR ''/'', CHR ''b'', CHR ''f'', CHR ''n'', CHR ''r'', CHR ''t''}"
  | (hex) "escape_byte c = backslash # CHR ''u'' # [CHR ''0'', CHR ''0'', hex_char (byte_val c div 16), hex_char (byte_val c mod 16)]"
  | (plain) "escape_byte c = [c]" "c \<noteq> quote_char" "c \<noteq> backslash" "32 \<le> byte_val c"
proof -
  have u: "unescape_char quote_char = quote_char" "unescape_char backslash = backslash"
    "quote_char \<noteq> CHR ''u''" "backslash \<noteq> CHR ''u''"
    by (simp_all add: unescape_char_def quote_char_def backslash_def)
  consider "c = quote_char" | "c = backslash" | "c = CHR 0x08" | "c = CHR 0x0C" | "c = CHR 0x0A"
    | "c = CHR 0x0D" | "c = CHR 0x09"
    | "c \<notin> {quote_char, backslash, CHR 0x08, CHR 0x0C, CHR 0x0A, CHR 0x0D, CHR 0x09}" by blast
  then show thesis
  proof cases
    case 1
    then show thesis using pair [of quote_char] u by (simp add: escape_byte_def)
  next
    case 2
    then show thesis using pair [of backslash] u by (simp add: escape_byte_def)
  next
    case 3
    then show thesis
      using pair [of "CHR ''b''"] by (simp add: escape_byte_def unescape_char_def quote_char_def backslash_def)
  next
    case 4
    then show thesis
      using pair [of "CHR ''f''"] by (simp add: escape_byte_def unescape_char_def quote_char_def backslash_def)
  next
    case 5
    then show thesis
      using pair [of "CHR ''n''"] by (simp add: escape_byte_def unescape_char_def quote_char_def backslash_def)
  next
    case 6
    then show thesis
      using pair [of "CHR ''r''"] by (simp add: escape_byte_def unescape_char_def quote_char_def backslash_def)
  next
    case 7
    then show thesis
      using pair [of "CHR ''t''"] by (simp add: escape_byte_def unescape_char_def quote_char_def backslash_def)
  next
    case 8
    then show thesis
      using hex plain unfolding escape_byte_def by (cases "byte_val c < 32 \<or> c \<in> set ''<>&''") auto
  qed
qed

lemma list_all_hex_pair:
  "byte_val c < 128 \<Longrightarrow>
   list_all is_hex [CHR ''0'', CHR ''0'', hex_char (byte_val c div 16), hex_char (byte_val c mod 16)]"
  by (simp add: hex_char_is_hex) (simp add: is_hex_def hex_val_def byte_val_def)

lemma raw_ok_escape_byte:
  assumes "byte_val c < 128" and "raw_ok r"
  shows "raw_ok (escape_byte c @ r)"
proof (cases c rule: escape_byte_cases)
  case (pair e)
  then show ?thesis using raw_ok_escape [OF pair(4) assms(2)] by simp
next
  case hex
  show ?thesis
    using raw_ok_unicode [OF _ list_all_hex_pair [OF assms(1)] assms(2)] unfolding hex by simp
next
  case plain
  then show ?thesis using assms(2) by (simp add: raw_ok_plain)
qed

lemma raw_ok_quote: "raw_ok (quote s)"
proof (induction s rule: quote.induct)
  case (2 c s)
  let ?r = "quote (drop (snd (quote_step c s)) s)"
  have uni: "raw_ok (backslash # ''ufffd'' @ r)" "raw_ok (backslash # ''u2028'' @ r)"
    "raw_ok (backslash # ''u2029'' @ r)" if "raw_ok r" for r
    using raw_ok_unicode [of "''fffd''" r] raw_ok_unicode [of "''2028''" r] raw_ok_unicode [of "''2029''" r] that
    by (simp_all add: is_hex_def hex_val_def byte_val_def)
  have "raw_ok (fst (quote_step c s) @ ?r)"
  proof (cases "byte_val c < 128")
    case True
    then show ?thesis using 2 by (simp add: quote_step_def raw_ok_escape_byte)
  next
    case False
    then have "raw_ok ((c # take (utf8_len (c # s) - 1) s) @ ?r)"
      using 2 utf8_len_high [of c s] by (intro raw_ok_high) simp_all
    then show ?thesis using 2 uni [OF 2] False by (auto simp: quote_step_def Let_def)
  qed
  then show ?case by (simp add: quote.simps(2))
qed simp

text \<open>Unquoting undoes quoting.\<close>

lemma utf8_len_take:
  assumes "utf8_len (c # s) \<noteq> 0"
  shows "utf8_len (c # take (utf8_len (c # s) - 1) s @ x) = utf8_len (c # s)"
proof -
  obtain n lo hi where lead: "utf8_lead c = (n, lo, hi)" by (cases "utf8_lead c") auto
  show ?thesis
  proof (cases "n \<le> 1")
    case True
    with lead show ?thesis by (simp add: utf8_len_def)
  next
    case False
    then obtain k where n: "n = Suc (Suc k)" using less_iff_Suc_add [of 1 n] by auto
    have ok: "n - 1 \<le> length s" "between lo (hd s) hi" "list_all (\<lambda>c. between 128 c 191) (take (n - 2) (tl s))"
      and len: "utf8_len (c # s) = n"
      using assms lead False by (auto simp: utf8_len_def split: if_splits)
    obtain b t where s: "s = b # t" using ok(1) n by (cases s) auto
    show ?thesis
      unfolding len using ok lead n s by (simp add: utf8_len_def)
  qed
qed

lemma unquote_pair: "e \<noteq> CHR ''u'' \<Longrightarrow> unquote (backslash # e # r) = unescape_char e # unquote r"
  by (simp add: unquote.simps(2) unquote_step_def)

lemma unquote_plain: "c \<noteq> backslash \<Longrightarrow> byte_val c < 128 \<Longrightarrow> unquote (c # r) = c # unquote r"
  by (simp add: unquote.simps(2) unquote_step_def utf8_len_def utf8_lead_def)

lemma unquote_unicode:
  assumes "length h = 4" and "hex4 h < 55296"
  shows "unquote (backslash # CHR ''u'' # h @ r) = utf8_enc (hex4 h) @ unquote r"
proof -
  have "hex4 (h @ r) = hex4 h" using assms(1) by (simp add: hex4_def)
  then show ?thesis
    using assms by (simp add: unquote.simps(2) unquote_step_def unicode_escape_def Let_def)
qed

lemma unquote_rune:
  assumes "\<not> byte_val c < 128" and "utf8_len (c # s) \<noteq> 0"
  shows "unquote (c # take (utf8_len (c # s) - 1) s @ r) = c # take (utf8_len (c # s) - 1) s @ unquote r"
proof -
  let ?n = "utf8_len (c # s)"
  have "c \<noteq> backslash" using assms(1) quote_backslash(3) by auto
  moreover have "length (take (?n - 1) s) = ?n - 1" using utf8_len_le [of "c # s"] by simp
  ultimately show ?thesis
    using utf8_len_take [OF assms(2), of r] assms(2)
    by (simp add: unquote.simps(2) [of c] unquote_step_def Let_def)
qed

lemma unquote_escape_byte:
  assumes "byte_val c < 128"
  shows "unquote (escape_byte c @ r) = c # unquote r"
proof (cases c rule: escape_byte_cases)
  case (pair e)
  then show ?thesis by (simp add: unquote_pair)
next
  case hex
  have "hex_val (CHR ''0'') = Some 0" by (simp add: hex_val_def byte_val_def)
  then have "hex4 [CHR ''0'', CHR ''0'', hex_char (byte_val c div 16), hex_char (byte_val c mod 16)] = byte_val c"
    using assms by (simp add: hex4_def hex_char_hex)
  then show ?thesis
    using unquote_unicode [of "[CHR ''0'', CHR ''0'', hex_char (byte_val c div 16), hex_char (byte_val c mod 16)]" r] assms
    unfolding hex by (simp add: utf8_enc_def byte_val_def)
next
  case plain
  then show ?thesis using assms by (simp add: unquote_plain)
qed

lemma unquote_quote: "utf8_valid s \<Longrightarrow> unquote (quote s) = s"
proof (induction s rule: quote.induct)
  case 1
  then show ?case by simp
next
  case (2 c s)
  let ?n = "utf8_len (c # s)" and ?k = "snd (quote_step c s)"
  have n: "?n \<noteq> 0" and rest: "utf8_valid (drop (?n - 1) s)"
    using 2(2) by (simp_all add: utf8_valid.simps)
  have lr: "unquote (backslash # ''u2028'' @ r) = ls_rune @ unquote r"
    "unquote (backslash # ''u2029'' @ r) = ps_rune @ unquote r" for r
  proof -
    have "hex4 ''2028'' = 8232" "hex4 ''2029'' = 8233"
      by (simp_all add: hex4_def hex_val_def byte_val_def)
    moreover have "utf8_enc 8232 = ls_rune" "utf8_enc 8233 = ps_rune"
      by (simp_all add: utf8_enc_def ls_rune_def ps_rune_def char_of_def bit_Suc_0_iff)
    ultimately show "unquote (backslash # ''u2028'' @ r) = ls_rune @ unquote r"
      "unquote (backslash # ''u2029'' @ r) = ps_rune @ unquote r"
      using unquote_unicode [of "''2028''" r] unquote_unicode [of "''2029''" r] by simp_all
  qed
  show ?case
  proof (cases "byte_val c < 128")
    case True
    then have "?n = 1" by (simp add: utf8_len_def utf8_lead_def)
    with True 2(1) rest show ?thesis
      by (simp add: quote.simps(2) quote_step_def unquote_escape_byte)
  next
    case False
    then have k: "?k = ?n - 1" using n by (auto simp: quote_step_def Let_def)
    have IH: "unquote (quote (drop (?n - 1) s)) = drop (?n - 1) s"
      using 2(1) rest unfolding k by simp
    have whole: "c # s = take ?n (c # s) @ drop (?n - 1) s"
      using n by (cases ?n) simp_all
    show ?thesis
    proof (cases "take ?n (c # s) \<in> {ls_rune, ps_rune}")
      case True
      then have "unquote (quote (c # s)) = take ?n (c # s) @ unquote (quote (drop (?n - 1) s))"
        using n False lr k by (auto simp: quote.simps(2) [of c] quote_step_def Let_def)
      then show ?thesis using IH whole by simp
    next
      case other: False
      then have "quote_step c s = (c # take (?n - 1) s, ?n - 1)"
        using n False by (auto simp: quote_step_def Let_def)
      then show ?thesis using IH unquote_rune [OF False n] whole by (simp add: quote.simps(2) [of c])
    qed
  qed
qed

subsection \<open>Printing and parsing\<close>

fun json_ok :: "json \<Rightarrow> bool"
and elems_ok :: "json list \<Rightarrow> bool"
and members_ok :: "(string \<times> json) list \<Rightarrow> bool" where
  "json_ok (JNum n) = (num_valid n \<and> list_all num_char n)"
| "json_ok (JStr r) = raw_ok r"
| "json_ok (JArr vs) = elems_ok vs"
| "json_ok (JObj ms) = members_ok ms"
| "json_ok _ = True"
| "elems_ok [] = True"
| "elems_ok (v # vs) = (json_ok v \<and> elems_ok vs)"
| "members_ok [] = True"
| "members_ok ((k, v) # ms) = (raw_ok k \<and> json_ok v \<and> members_ok ms)"

text \<open>What may follow a value: nothing a number could swallow.\<close>

definition ends :: "string \<Rightarrow> bool" where
  "ends x = (x = [] \<or> \<not> num_char (hd x))"

lemma skip_ws_stop: "\<not> is_ws c \<Longrightarrow> skip_ws (c # s) = c # s"
  by (simp add: skip_ws_def)

lemma not_ws [simp]: "\<not> is_ws quote_char" "\<not> is_ws CHR ''[''" "\<not> is_ws CHR '']''" "\<not> is_ws CHR ''{''"
  "\<not> is_ws CHR ''}''" "\<not> is_ws CHR '',''" "\<not> is_ws CHR '':''" "\<not> is_ws CHR ''n''" "\<not> is_ws CHR ''t''" "\<not> is_ws CHR ''f''"
  by (simp_all add: is_ws_def quote_char_def)

lemma ends_simps [simp]: "ends []" "ends (CHR '']'' # x)" "ends (CHR '','' # x)" "ends (CHR ''}'' # x)"
  by (simp_all add: ends_def num_char_def is_digit_def)

lemma scan_number_print:
  assumes "num_valid n" and "list_all num_char n" and "ends x"
  shows "scan_number (n @ x) = Some (n, x)"
proof -
  have "takeWhile num_char (n @ x) = n \<and> dropWhile num_char (n @ x) = x"
    using assms(2,3) by (cases x) (auto simp: ends_def list_all_iff takeWhile_append dropWhile_append)
  with assms(1) show ?thesis by (simp add: scan_number_def)
qed

lemma num_head:
  assumes "num_valid n" and "list_all num_char n"
  obtains c n' where "n = c # n'" "c = CHR ''-'' \<or> is_digit c"
proof -
  obtain c n' where n: "n = c # n'"
    using assms(1) by (cases n) (auto simp: num_valid_def Let_def)
  moreover have "c = CHR ''-'' \<or> is_digit c"
    using assms(1) unfolding n by (auto simp: num_valid_def Let_def split: if_splits)
  ultimately show thesis by (rule that)
qed

lemma digit_not_special:
  assumes "c = CHR ''-'' \<or> is_digit c"
  shows "\<not> is_ws c" "c \<noteq> quote_char" "c \<noteq> CHR ''[''" "c \<noteq> CHR '']''" "c \<noteq> CHR ''{''" "c \<noteq> CHR ''}''"
    "c \<noteq> CHR ''n''" "c \<noteq> CHR ''t''" "c \<noteq> CHR ''f''"
  using assms by (auto simp: is_ws_def quote_char_def is_digit_def)

lemma parse_number:
  assumes "num_valid n" and "list_all num_char n" and "ends x"
  shows "parse_value (Suc k) (n @ x) = Some (JNum n, x)"
proof -
  obtain c n' where n: "n = c # n'" and c: "c = CHR ''-'' \<or> is_digit c"
    using num_head [OF assms(1,2)] .
  show ?thesis
    using scan_number_print [OF assms] digit_not_special [OF c]
    by (simp add: n skip_ws_stop Let_def)
qed

lemma print_json_head:
  assumes "json_ok v"
  shows "\<exists>c t. print_json v = c # t \<and> \<not> is_ws c \<and> c \<noteq> CHR '']''"
proof (cases v)
  case (JNum n)
  then obtain c n' where "n = c # n'" "c = CHR ''-'' \<or> is_digit c"
    using assms num_head [of n] by auto
  then show ?thesis using JNum digit_not_special by auto
qed (auto simp: quote_char_def is_ws_def)

lemma parse_print:
  "json_ok v \<Longrightarrow> ends x \<Longrightarrow> 2 * length (print_json v) \<le> n \<Longrightarrow>
     parse_value n (print_json v @ x) = Some (v, x)"
  "elems_ok vs \<Longrightarrow> vs \<noteq> [] \<Longrightarrow> 2 * length (print_elems vs) + 1 \<le> n \<Longrightarrow>
     parse_elems n (print_elems vs @ CHR '']'' # x) = Some (vs, x)"
  "members_ok ms \<Longrightarrow> ms \<noteq> [] \<Longrightarrow> 2 * length (print_members ms) + 1 \<le> n \<Longrightarrow>
     parse_members n (print_members ms @ CHR ''}'' # x) = Some (ms, x)"
proof (induction v and vs and ms arbitrary: n x and n x and n x
    rule: print_json_print_elems_print_members.induct)
  case 1
  then show ?case by (cases n) (simp_all add: skip_ws_stop quote_char_def)
next
  case (2 b)
  then show ?case by (cases n; cases b) (simp_all add: skip_ws_stop quote_char_def)
next
  case (3 r)
  then obtain k where "n = Suc k" using num_head [of r] by (cases n) auto
  with 3 show ?case by (simp only: json_ok.simps print_json.simps parse_number)
next
  case (4 r)
  then show ?case by (cases n) (simp_all add: skip_ws_stop scan_string_raw)
next
  case (5 vs)
  then obtain k where n: "n = Suc k" and k: "2 * length (print_elems vs) + 3 \<le> k" by (cases n) simp_all
  show ?case
  proof (cases "vs = []")
    case True
    then show ?thesis by (simp add: n skip_ws_stop quote_char_def)
  next
    case False
    then obtain v vs' where vs: "vs = v # vs'" by (cases vs) auto
    obtain c t where c: "print_json v = c # t" "\<not> is_ws c" "c \<noteq> CHR '']''"
      using print_json_head [of v] 5(2) vs by auto
    have "parse_elems k (print_elems vs @ CHR '']'' # x) = Some (vs, x)"
      using 5(1) [of k x] 5(2) False k by simp
    with c show ?thesis by (simp add: n vs skip_ws_stop quote_char_def)
  qed
next
  case (6 ms)
  then obtain k where n: "n = Suc k" and k: "2 * length (print_members ms) + 3 \<le> k" by (cases n) simp_all
  show ?case
  proof (cases "ms = []")
    case True
    then show ?thesis by (simp add: n skip_ws_stop quote_char_def)
  next
    case False
    then obtain key v ms' where ms: "ms = (key, v) # ms'" by (cases ms) auto
    have "parse_members k (print_members ms @ CHR ''}'' # x) = Some (ms, x)"
      using 6(1) [of k x] 6(2) False k by simp
    then show ?thesis
      using skip_ws_stop [OF not_ws(1)] by (simp add: n ms skip_ws_stop) (auto simp: quote_char_def)
  qed
next
  case (8 v vs)
  then obtain k where n: "n = Suc k" and k: "2 * length (print_json v) \<le> k" by (cases n) auto
  show ?case
  proof (cases "vs = []")
    case True
    then show ?thesis using 8(1) [of "CHR '']'' # x" k] 8(3) k by (simp add: n skip_ws_stop)
  next
    case False
    have "parse_elems k (print_elems vs @ CHR '']'' # x) = Some (vs, x)"
      using 8(2) [of k x] 8(3,5) False n by simp
    then show ?thesis
      using 8(1) [of "CHR '','' # print_elems vs @ CHR '']'' # x" k] 8(3) k False by (simp add: n skip_ws_stop)
  qed
next
  case (10 key v ms)
  then obtain k where n: "n = Suc k" and k: "2 * length (print_json v) \<le> k" by (cases n) auto
  show ?case
  proof (cases "ms = []")
    case True
    then show ?thesis using 10(1) [of "CHR ''}'' # x" k] 10(3) k by (simp add: n skip_ws_stop scan_string_raw)
  next
    case False
    have "parse_members k (print_members ms @ CHR ''}'' # x) = Some (ms, x)"
      using 10(2) [of k x] 10(3,5) False n by simp
    then show ?thesis
      using 10(1) [of "CHR '','' # print_members ms @ CHR ''}'' # x" k] 10(3) k False
      by (simp add: n skip_ws_stop scan_string_raw)
  qed
qed simp_all

lemma parse_one_print: "json_ok v \<Longrightarrow> ends x \<Longrightarrow> parse_one (print_json v @ x) = Some (v, x)"
  unfolding parse_one_def by (rule parse_print(1)) simp_all

lemma parse_all_print: "json_ok v \<Longrightarrow> parse_all (print_json v) = Some v"
  using parse_one_print [of v "[]"] by (simp add: parse_all_def skip_ws_def)

lemma json_ok_str [simp]: "json_ok (json_str s)"
  by (simp add: json_str_def raw_ok_quote)

lemma dec_nat_head: "hd (dec_nat n) = CHR ''0'' \<Longrightarrow> n = 0"
proof (induction n rule: dec_nat.induct)
  case (1 n)
  show ?case
  proof (cases "n < 10")
    case True
    then have "dec_nat n = [digit_char n]" by (subst dec_nat.simps) simp
    with 1(2) have "digit_char n = CHR ''0''" by simp
    then have "(of_char (digit_char n) :: nat) = of_char (CHR ''0'')" by simp
    then show ?thesis using of_char_digit [OF True] by simp
  next
    case False
    then have "dec_nat n = dec_nat (n div 10) @ [digit_char (n mod 10)]" by (subst dec_nat.simps) simp
    with 1(2) have "hd (dec_nat (n div 10)) = CHR ''0''" by simp
    from 1(1) [OF False this] False show ?thesis by simp
  qed
qed

lemma dec_nat_list_all: "list_all is_digit (dec_nat n)"
  by (rule dec_nat_digits)

lemma num_valid_digits:
  assumes "list_all is_digit s" and "s \<noteq> []" and "hd s = CHR ''0'' \<longrightarrow> length s = 1"
  shows "num_valid s" and "num_valid (CHR ''-'' # s)" and "list_all num_char s"
proof -
  have take: "takeWhile is_digit s = s" "dropWhile is_digit s = []"
    using assms(1) by (simp_all add: list_all_iff takeWhile_eq_all_conv dropWhile_eq_Nil_conv)
  obtain c t where s: "s = c # t" using assms(2) by (cases s) auto
  then have "c \<noteq> CHR ''-''" using assms(1) by (auto simp: is_digit_def)
  then have "(case s of [] \<Rightarrow> [] | c # u \<Rightarrow> if c = CHR ''-'' then u else s) = s" by (simp add: s)
  then show "num_valid s" "num_valid (CHR ''-'' # s)"
    unfolding num_valid_def using assms(2,3) by (simp_all only: Let_def list.case if_True refl)
      (simp_all only: \<open>(case s of [] \<Rightarrow> [] | c # u \<Rightarrow> if c = CHR ''-'' then u else s) = s\<close> take,
       simp_all add: frac_ok_def)
  show "list_all num_char s" using assms(1) by (auto simp: list_all_iff num_char_def)
qed

lemma dec_nat_length_one: "hd (dec_nat n) = CHR ''0'' \<longrightarrow> length (dec_nat n) = 1"
proof
  assume "hd (dec_nat n) = CHR ''0''"
  then have "n = 0" by (rule dec_nat_head)
  then show "length (dec_nat n) = 1" by (simp add: dec_nat.simps)
qed

lemmas num_valid_dec_nat = num_valid_digits [OF dec_nat_list_all dec_nat_nonempty dec_nat_length_one]

lemma json_ok_nat [simp]: "json_ok (json_nat n)"
  by (simp add: json_nat_def num_valid_dec_nat)

lemma json_ok_int [simp]: "json_ok (json_int n)"
  using num_valid_dec_nat by (simp add: json_int_def dec_int_def) (simp add: num_char_def)

lemma int_literal_dec_nat: "int_literal (dec_nat n) = Some (int n)"
proof -
  obtain c t where c: "dec_nat n = c # t" by (cases "dec_nat n") auto
  then have "c \<noteq> CHR ''-''" using dec_nat_list_all [of n] by (auto simp: is_digit_def)
  with c dec_nat_list_all [of n] digits_val_dec_nat [of n] show ?thesis
    by (simp add: int_literal_def digits1_def)
qed

lemma dec_ranged_nat [simp]: "lo \<le> int n \<Longrightarrow> int n \<le> hi \<Longrightarrow> dec_ranged lo hi (json_nat n) x = Some (int n)"
  by (simp add: json_nat_def int_literal_dec_nat)

lemma dec_str_json_str [simp]: "utf8_valid s \<Longrightarrow> dec_str (json_str s) x = Some s"
  by (simp add: json_str_def unquote_quote)

text \<open>The fuel of the parser is enough: more of it never changes the answer.\<close>

lemma skip_ws_length: "length (skip_ws s) \<le> length s"
  by (simp add: skip_ws_def length_dropWhile_le)

lemma scan_string_length: "scan_string s = Some (r, t) \<Longrightarrow> length t < length s"
proof (induction s arbitrary: r t rule: scan_string.induct)
  case 1
  then show ?case by (simp add: scan_string.simps)
next
  case (2 c s)
  show ?case
  proof (cases "c = backslash")
    case False
    with 2 show ?thesis by (fastforce simp: scan_string_plain split: if_splits)
  next
    case True
    obtain e t' where s: "s = e # t'"
      using 2(4) True by (cases s) (auto simp: scan_string.simps quote_backslash(1) [symmetric])
    show ?thesis
    proof (cases "e = CHR ''u''")
      case u: True
      with 2(4) s True obtain r' where "4 \<le> length t'" "list_all is_hex (take 4 t')"
        "scan_string (drop 4 t') = Some (r', t)"
        by (auto simp: scan_string_escape split: if_splits)
      with 2(1) [of e t' r' t] s True u show ?thesis by (simp add: quote_backslash(1) [symmetric])
    next
      case nu: False
      with 2(4) s True obtain r' where
        "e \<in> {quote_char, backslash, CHR ''/'', CHR ''b'', CHR ''f'', CHR ''n'', CHR ''r'', CHR ''t''}"
        "scan_string t' = Some (r', t)"
        by (auto simp: scan_string_escape simp del: insert_iff split: if_splits)
      with 2(2) [of e t' r' t] s True nu show ?thesis by (simp add: quote_backslash(1) [symmetric])
    qed
  qed
qed

lemma scan_number_length: "scan_number s = Some (n, t) \<Longrightarrow> length t < length s"
proof -
  assume "scan_number s = Some (n, t)"
  then have n: "num_valid (takeWhile num_char s)" "t = dropWhile num_char s"
    by (auto simp: scan_number_def Let_def split: if_splits)
  then have "takeWhile num_char s \<noteq> []" by (auto simp: num_valid_def)
  moreover have "length s = length (takeWhile num_char s) + length t"
    using n(2) by (metis length_append takeWhile_dropWhile_id)
  ultimately show ?thesis by simp
qed

lemma drop_ws_length: "length (drop 1 (skip_ws s)) \<le> length s"
  using skip_ws_length [of s] by simp

lemma parse_length:
  "parse_value n s = Some (v, t) \<Longrightarrow> length t < length s"
  "parse_elems n s = Some (vs, t) \<Longrightarrow> length t < length s"
  "parse_members n s = Some (ms, t) \<Longrightarrow> length t < length s"
proof (induction n s and n s and n s arbitrary: v t and vs t and ms t
    rule: parse_value_parse_elems_parse_members.induct)
  case (2 n s)
  from 2(3) obtain c w where w: "skip_ws s = c # w" by (cases "skip_ws s") (auto simp: Let_def)
  then have len: "length w < length s" using skip_ws_length [of s] by simp
  consider (str) "c = quote_char" | (arr) "c = CHR ''[''" "c \<noteq> quote_char"
    | (obj) "c = CHR ''{''" "c \<noteq> quote_char" "c \<noteq> CHR ''[''"
    | (lit) "c \<noteq> CHR ''{''" "c \<noteq> quote_char" "c \<noteq> CHR ''[''" by blast
  then show ?case
  proof cases
    case str
    with 2(3) w len show ?thesis by (auto dest!: scan_string_length)
  next
    case arr
    then show ?thesis
      using 2(3) w len skip_ws_length [of w] 2(1) [OF refl w arr(2,1)]
      by (fastforce simp: Let_def split: if_splits)
  next
    case obj
    then show ?thesis
      using 2(3) w len skip_ws_length [of w] 2(2) [OF refl w obj(2,3,1)]
      by (fastforce simp: Let_def split: if_splits)
  next
    case lit
    then show ?thesis
      using 2(3) w len by (auto simp: Let_def split: if_splits dest!: scan_number_length)
  qed
next
  case (4 n s)
  from 4(3) obtain v t' where v: "parse_value n s = Some (v, t')" by (auto split: option.splits)
  then have len: "length (drop 1 (skip_ws t')) < length s"
    using 4(1) drop_ws_length le_less_trans by metis
  show ?case
  proof (cases "has_prefix (skip_ws t') '']''")
    case True
    with 4(3) v len show ?thesis by auto
  next
    case False
    with 4(3) v obtain vs' where "has_prefix (skip_ws t') '',''" "parse_elems n (drop 1 (skip_ws t')) = Some (vs', t)"
      by (auto split: if_splits)
    with 4(2) [OF v refl] False len show ?thesis by (meson less_trans)
  qed
next
  case (6 n s)
  from 6(3) obtain k t1 where k: "has_prefix (skip_ws s) [quote_char]"
    "scan_string (drop 1 (skip_ws s)) = Some (k, t1)" by (auto split: option.splits if_splits)
  from 6(3) k obtain v t2 where v: "has_prefix (skip_ws t1) '':''"
    "parse_value n (drop 1 (skip_ws t1)) = Some (v, t2)" by (auto split: option.splits if_splits)
  have "length t1 < length s" using scan_string_length [OF k(2)] drop_ws_length [of s] by linarith
  moreover have "length t2 < length (drop 1 (skip_ws t1))" using 6(1) [OF k(1,2) refl v] .
  ultimately have len: "length (drop 1 (skip_ws t2)) < length s"
    using drop_ws_length [of t1] drop_ws_length [of t2] by linarith
  show ?case
  proof (cases "has_prefix (skip_ws t2) ''}''")
    case True
    with 6(3) k v len show ?thesis by auto
  next
    case False
    with 6(3) k v obtain ms' where "has_prefix (skip_ws t2) '',''" "parse_members n (drop 1 (skip_ws t2)) = Some (ms', t)"
      by (auto split: if_splits)
    with 6(2) [OF k refl v refl] False len show ?thesis by (meson less_trans)
  qed
qed simp_all

lemma parse_fuel:
  "2 * length s + 1 \<le> n \<Longrightarrow> parse_value (Suc n) s = parse_value n s"
  "2 * length s + 2 \<le> n \<Longrightarrow> parse_elems (Suc n) s = parse_elems n s"
  "2 * length s + 2 \<le> n \<Longrightarrow> parse_members (Suc n) s = parse_members n s"
proof (induction n s and n s and n s rule: parse_value_parse_elems_parse_members.induct)
  case (2 n s)
  show ?case
  proof (cases "skip_ws s")
    case Nil
    then show ?thesis by simp
  next
    case (Cons c w)
    then have "length w < length s" using skip_ws_length [of s] by simp
    then have fuel: "2 * length w + 2 \<le> n" using 2(3) by simp
    have "parse_elems (Suc n) w = parse_elems n w"
      if "c \<noteq> quote_char" "c = CHR ''[''" "\<not> has_prefix (skip_ws w) '']''"
      using 2(1) [OF refl Cons that fuel] .
    moreover have "parse_members (Suc n) w = parse_members n w"
      if "c \<noteq> quote_char" "c \<noteq> CHR ''[''" "c = CHR ''{''" "\<not> has_prefix (skip_ws w) ''}''"
      using 2(2) [OF refl Cons that fuel] .
    ultimately show ?thesis
      unfolding parse_value.simps(2) Let_def Cons list.case by (simp del: parse_elems.simps parse_members.simps)
  qed
next
  case (4 n s)
  have same: "parse_value (Suc n) s = parse_value n s" using 4 by simp
  show ?case
  proof (cases "parse_value n s")
    case None
    then show ?thesis unfolding parse_elems.simps(2) same by simp
  next
    case (Some vt)
    then obtain v t where v: "parse_value n s = Some (v, t)" by (cases vt) auto
    show ?thesis
    proof (cases "\<not> has_prefix (skip_ws t) '']'' \<and> has_prefix (skip_ws t) '',''")
      case True
      then have "skip_ws t \<noteq> []" by auto
      then have "length (drop 1 (skip_ws t)) < length t"
        using skip_ws_length [of t] by (cases "skip_ws t") auto
      then have "2 * length (drop 1 (skip_ws t)) + 2 \<le> n" using parse_length(1) [OF v] 4(3) by linarith
      with 4(2) [OF v refl _ _ this] True
      have "parse_elems (Suc n) (drop 1 (skip_ws t)) = parse_elems n (drop 1 (skip_ws t))" by blast
      then show ?thesis unfolding parse_elems.simps(2) same v by simp
    next
      case False
      then show ?thesis unfolding parse_elems.simps(2) same v by auto
    qed
  qed
next
  case (6 n s)
  show ?case
  proof (cases "has_prefix (skip_ws s) [quote_char]")
    case True
    then have "skip_ws s \<noteq> []" by auto
    then have less: "length (drop 1 (skip_ws s)) < length s"
      using skip_ws_length [of s] by (cases "skip_ws s") auto
    show ?thesis
    proof (cases "scan_string (drop 1 (skip_ws s))")
      case None
      then show ?thesis unfolding parse_members.simps(2) by simp
    next
      case (Some kt)
      then obtain k t where k: "scan_string (drop 1 (skip_ws s)) = Some (k, t)" by (cases kt) auto
      show ?thesis
      proof (cases "has_prefix (skip_ws t) '':''")
        case False
        then show ?thesis unfolding parse_members.simps(2) k by simp
      next
        case colon: True
        have short: "2 * length (drop 1 (skip_ws t)) + 1 \<le> n"
          using drop_ws_length [of t] scan_string_length [OF k] less 6(3) by linarith
        have same: "parse_value (Suc n) (drop 1 (skip_ws t)) = parse_value n (drop 1 (skip_ws t))"
          using 6(1) [OF True k refl colon short] .
        show ?thesis
        proof (cases "parse_value n (drop 1 (skip_ws t))")
          case None
          then show ?thesis unfolding parse_members.simps(2) k same option.case prod.case by simp
        next
          case (Some vu)
          then obtain v u where v: "parse_value n (drop 1 (skip_ws t)) = Some (v, u)" by (cases vu) auto
          have "length (drop 1 (skip_ws u)) < length (drop 1 (skip_ws t))"
            using parse_length(1) [OF v] drop_ws_length [of u] by linarith
          then have "2 * length (drop 1 (skip_ws u)) + 2 \<le> n" using short by linarith
          then have "parse_members (Suc n) (drop 1 (skip_ws u)) = parse_members n (drop 1 (skip_ws u))"
            if "\<not> has_prefix (skip_ws u) ''}''" "has_prefix (skip_ws u) '',''"
            using 6(2) [OF True k refl colon v refl that] by simp
          then show ?thesis unfolding parse_members.simps(2) k option.case prod.case same v by auto
        qed
      qed
    qed
  qed simp
qed simp_all

text \<open>
  Whatever a string holds, JSON carries it: quoting well-formed UTF-8 and unquoting it again gives
  the string back, the control characters, quotes, backslashes, HTML characters and line separators that
  Go escapes included; and the literal never contains what would end it.
\<close>

theorem quote_roundtrip:
  "utf8_valid s \<Longrightarrow> unquote (quote s) = s \<and> scan_string (quote s @ quote_char # rest) = Some (quote s, rest)"
  using unquote_quote scan_string_raw [OF raw_ok_quote] by blast

definition sample_text :: string where
  "sample_text = [CHR ''<'', CHR 0x22, CHR 0x5C, CHR 0x0A, CHR 0x01, CHR 0xC3, CHR 0xA9, CHR 0xE2, CHR 0x80, CHR 0xA8]"

lemma quote_roundtrip_witness:
  "unquote (quote sample_text) = sample_text
   \<and> quote sample_text = backslash # ''u003c'' @ [backslash, CHR 0x22, backslash, backslash, backslash, CHR ''n'']
        @ backslash # ''u0001'' @ [CHR 0xC3, CHR 0xA9] @ backslash # ''u2028''"
proof -
  have "utf8_valid sample_text" by code_simp
  then have "unquote (quote sample_text) = sample_text" using quote_roundtrip by blast
  moreover have "quote sample_text = backslash # ''u003c'' @ [backslash, CHR 0x22, backslash, backslash, backslash, CHR ''n'']
        @ backslash # ''u0001'' @ [CHR 0xC3, CHR 0xA9] @ backslash # ''u2028''" by code_simp
  ultimately show ?thesis by blast
qed

lemma parse_fuel_more: "parse_value (2 * length s + 1 + k) s = parse_one s"
proof (induction k)
  case (Suc k)
  then show ?case using parse_fuel(1) [of s "2 * length s + 1 + k"] by simp
qed (simp add: parse_one_def)


definition sample_json :: json where
  "sample_json = JObj [(''id'', json_str ''d1''), (''xs'', JArr [json_int (-3), JNull, JBool True, JObj []])]"


lemma dec_members_append:
  "dec_members f (xs @ ys) x = (case dec_members f xs x of None \<Rightarrow> None | Some y \<Rightarrow> dec_members f ys y)"
  by (induction xs arbitrary: x) (auto split: option.splits)

lemma members_ok_append [simp]: "members_ok (xs @ ys) \<longleftrightarrow> members_ok xs \<and> members_ok ys"
  by (induction xs) auto

lemma dec_ranged_int [simp]: "lo \<le> n \<Longrightarrow> n \<le> hi \<Longrightarrow> dec_ranged lo hi (json_int n) x = Some n"
proof -
  assume n: "lo \<le> n" "n \<le> hi"
  have "int_literal (dec_int n) = Some n"
  proof (cases "n < 0")
    case True
    then show ?thesis
      using dec_nat_list_all [of "nat (- n)"]
      by (simp add: dec_int_def int_literal_def digits1_def)
  next
    case False
    then show ?thesis by (simp add: dec_int_def int_literal_dec_nat)
  qed
  with n show ?thesis by (simp add: json_int_def)
qed

subsection \<open>Strings as bytes\<close>

definition bytes_of :: "string \<Rightarrow> bytes" where "bytes_of s = map (\<lambda>c. of_nat (byte_val c)) s"
definition text_of :: "bytes \<Rightarrow> string" where "text_of b = map (\<lambda>w. char_of (unat w)) b"

lemma text_bytes [simp]: "text_of (bytes_of s) = s"
proof -
  have "char_of (unat (of_nat (byte_val c) :: byte)) = c" for c
    using byte_val_less [of c] by (simp add: unat_of_nat) (simp add: byte_val_def)
  then show ?thesis by (simp add: text_of_def bytes_of_def comp_def)
qed

lemma length_bytes_of [simp]: "length (bytes_of s) = length s"
  by (simp add: bytes_of_def)

end
