(* ===== verification/GoError.thy ===== *)
theory GoError
  imports Prelude
begin

text \<open>
  Go errors as values, and every place the plugin decides something from one: the codes of
  \<open>internal/infra/ipc/rpc.go\<close>, the sentinels of \<open>usecase/ports.go\<close> and \<open>usecase/connection.go\<close>, the
  API error of \<open>dockerapi/client.go\<close>, the translation at the composition root (\<open>cmd/xqs-docker/main.go\<close>)
  and the messages of \<open>usecase/service.go\<close> and \<open>usecase/surfaces.go\<close>. An error is a tree:
  \<open>fmt.Errorf\<close> with one or two \<open>%w\<close> verbs is a node, and \<open>errors.Is\<close> and \<open>errors.As\<close> search it in
  pre-order, as the standard library does.
\<close>

datatype go_error =
    EText string
  | ErrNoDocker
  | ErrSessionGone
  | ErrHostDenied
  | ErrUnknownNode
  | ErrConnClosed
  | ERpc int string
  | EApi int string
  | EWrap string go_error
  | EWrap2 go_error go_error

fun err_nodes :: "go_error \<Rightarrow> go_error list" where
  "err_nodes (EWrap s e) = EWrap s e # err_nodes e"
| "err_nodes (EWrap2 a b) = EWrap2 a b # err_nodes a @ err_nodes b"
| "err_nodes e = [e]"

definition api_error_text :: "int \<Rightarrow> string \<Rightarrow> string" where
  "api_error_text status msg = (if msg = [] then ''docker returned status '' @ dec_int status else msg)"

fun err_text :: "go_error \<Rightarrow> string" where
  "err_text (EText s) = s"
| "err_text ErrNoDocker = ''docker is not reachable on this host''"
| "err_text ErrSessionGone = ''the session this subtree rides has closed''"
| "err_text ErrHostDenied = ''the host refused this connection''"
| "err_text ErrUnknownNode = ''docker: unknown node''"
| "err_text ErrConnClosed = ''ipc: connection closed''"
| "err_text (ERpc code msg) = ''rpc error '' @ dec_int code @ '': '' @ msg"
| "err_text (EApi status msg) = api_error_text status msg"
| "err_text (EWrap s e) = s @ err_text e"
| "err_text (EWrap2 a b) = err_text a @ '': '' @ err_text b"

definition errors_is :: "go_error \<Rightarrow> go_error \<Rightarrow> bool" where
  "errors_is target e = (target \<in> set (err_nodes e))"

fun is_rpc :: "go_error \<Rightarrow> bool" where
  "is_rpc (ERpc _ _) = True"
| "is_rpc _ = False"

fun is_api :: "go_error \<Rightarrow> bool" where
  "is_api (EApi _ _) = True"
| "is_api _ = False"

text \<open>\<open>errors.As\<close>: the first node of the type looked for.\<close>

definition as_rpc :: "go_error \<Rightarrow> go_error option" where
  "as_rpc e = find is_rpc (err_nodes e)"

definition as_api :: "go_error \<Rightarrow> go_error option" where
  "as_api e = find is_api (err_nodes e)"

subsection \<open>What the plugin asks of an error\<close>

definition CodeCapabilityDenied :: int where "CodeCapabilityDenied = -32001"
definition CodeRateLimited :: int where "CodeRateLimited = -32003"

definition has_code :: "go_error \<Rightarrow> int \<Rightarrow> bool" where
  "has_code e code = (case as_rpc e of Some (ERpc c _) \<Rightarrow> c = code | _ \<Rightarrow> False)"

definition is_capability_denied :: "go_error \<Rightarrow> bool" where
  "is_capability_denied e = has_code e CodeCapabilityDenied"

definition is_rate_limited :: "go_error \<Rightarrow> bool" where
  "is_rate_limited e = has_code e CodeRateLimited"

definition is_not_found :: "go_error \<Rightarrow> bool" where
  "is_not_found e = (case as_api e of Some (EApi status _) \<Rightarrow> status = 404 | _ \<Rightarrow> False)"

definition is_session_gone :: "go_error \<Rightarrow> bool" where
  "is_session_gone e = errors_is ErrHostDenied e"

definition ipc_is_denied :: "go_error \<Rightarrow> bool" where
  "ipc_is_denied e = contains (to_lower (err_text e)) ''denied''"

definition msg_unreachable :: string where
  "msg_unreachable = ''Docker is not reachable on this host. Check that the docker CLI is installed and that your user can reach the daemon socket.''"

definition msg_not_permitted :: string where
  "msg_not_permitted = ''The plugin is not permitted to run commands over this connection. Re-install it and grant the exec permission.''"

definition msg_no_contact :: string where
  "msg_no_contact = ''Could not reach Docker on this host.''"

text \<open>\<open>userMessage\<close>, whose argument may be nil.\<close>

fun user_message :: "go_error option \<Rightarrow> string" where
  "user_message None = ''''"
| "user_message (Some e) =
     (case as_api e of
        Some a \<Rightarrow> err_text a
      | None \<Rightarrow>
          if errors_is ErrNoDocker e then msg_unreachable
          else if contains (err_text e) ''capability denied'' then msg_not_permitted
          else msg_no_contact)"

definition msg_no_tabs :: string where
  "msg_no_tabs = ''This xQuakShell build does not offer plugin tabs (the ui capability). The plugin needs a host with ADR-015 support.''"

fun surface_failure :: "go_error option \<Rightarrow> string" where
  "surface_failure None = ''''"
| "surface_failure (Some e) =
     (if ipc_is_denied e then msg_no_tabs else ''The tab could not be opened: '' @ err_text e)"

text \<open>
  The way of a refused \<open>channel.open\<close>: the channel manager wraps the host's answer, and the stream
  adapter puts the use case's sentinel in front of a denial.
\<close>

definition wrap_open_exec :: "go_error \<Rightarrow> go_error" where
  "wrap_open_exec e = EWrap ''chanbus: open exec channel: '' e"

definition adapt_open_exec :: "go_error \<Rightarrow> go_error" where
  "adapt_open_exec e = (if is_capability_denied e then EWrap2 ErrHostDenied e else e)"

subsection \<open>Lemmas\<close>

lemma find_append: "find P (xs @ ys) = (case find P xs of Some x \<Rightarrow> Some x | None \<Rightarrow> find P ys)"
  by (induction xs) auto

lemma errors_is_wrap [simp]:
  "errors_is t (EWrap s e) \<longleftrightarrow> t = EWrap s e \<or> errors_is t e"
  "errors_is t (EWrap2 a b) \<longleftrightarrow> t = EWrap2 a b \<or> errors_is t a \<or> errors_is t b"
  by (auto simp: errors_is_def)

lemma errors_is_self [simp]: "errors_is e e"
  by (cases e) (simp_all add: errors_is_def)

lemma as_rpc_wrap [simp]: "as_rpc (EWrap s e) = as_rpc e"
  by (simp add: as_rpc_def)

lemma as_api_wrap [simp]: "as_api (EWrap s e) = as_api e"
  by (simp add: as_api_def)

lemma has_code_wrap [simp]: "has_code (EWrap s e) c = has_code e c"
  by (simp add: has_code_def)

lemma as_api_is_api: "as_api e = Some a \<Longrightarrow> a \<in> set (err_nodes e) \<and> (\<exists>s m. a = EApi s m)"
  by (auto simp: as_api_def find_Some_iff) (metis is_api.elims(2) nth_mem)

subsection \<open>Properties\<close>

text \<open>
  A host denial is recognised through any wrapping: whatever chain of prefixes the layers below put
  around the host's answer, the code is found; it is the error's code and nothing else that decides.
\<close>

theorem denial_survives_wrapping:
  "is_capability_denied (fold EWrap prefixes (ERpc code msg)) \<longleftrightarrow> code = -32001"
proof -
  have "has_code (fold EWrap prefixes e) c = has_code e c" for e c
    by (induction prefixes arbitrary: e) simp_all
  then show ?thesis
    by (simp add: is_capability_denied_def CodeCapabilityDenied_def has_code_def as_rpc_def)
qed

text \<open>
  A refused \<open>channel.open\<close> ends the connection exactly when the host denied it: on the error that
  comes out of the channel manager and the stream adapter, \<open>isSessionGone\<close> holds if and only if the
  host's answer carries code -32001 (or already was the sentinel), never for any other failure.
\<close>

theorem open_exec_gone_iff_denied:
  "is_session_gone (adapt_open_exec (wrap_open_exec e))
     \<longleftrightarrow> is_capability_denied e \<or> errors_is ErrHostDenied e"
  by (auto simp: is_session_gone_def adapt_open_exec_def wrap_open_exec_def is_capability_denied_def)

text \<open>
  What the user is shown gives nothing away: the message is empty, one of three fixed sentences, or
  the daemon's own text (or its status number) taken from an API error inside the error.
\<close>

theorem user_message_closed:
  "user_message r \<in> {'''', msg_unreachable, msg_not_permitted, msg_no_contact}
   \<or> (\<exists>e status msg. r = Some e \<and> EApi status msg \<in> set (err_nodes e)
        \<and> user_message r = api_error_text status msg)"
proof (cases r)
  case (Some e)
  show ?thesis
  proof (cases "as_api e")
    case None
    with Some show ?thesis by simp
  next
    case (Some a)
    then obtain s m where "a = EApi s m" "EApi s m \<in> set (err_nodes e)"
      using as_api_is_api by blast
    with Some \<open>r = Some e\<close> show ?thesis by auto
  qed
qed simp

lemma not_found_wrap [simp]: "is_not_found (EWrap s e) = is_not_found e"
  by (simp add: is_not_found_def)

lemma not_found_api [simp]: "is_not_found (EApi status msg) \<longleftrightarrow> status = 404"
  by (simp add: is_not_found_def as_api_def)

lemma user_message_api [simp]: "user_message (Some (EApi s m)) = api_error_text s m"
  by (simp add: as_api_def)

lemma user_message_session_gone: "user_message (Some ErrSessionGone) = msg_no_contact"
  by code_simp

lemma user_message_no_docker: "user_message (Some ErrNoDocker) = msg_unreachable"
  by (simp add: as_api_def)

end
