(* ===== verification/Version.thy ===== *)
theory Version
  imports Prelude
begin

text \<open>
  The API version of a connection (\<open>internal/infra/dockerapi/client.go\<close>): dotted numbers are compared
  part by part on Go's 64-bit \<open>int\<close> (which wraps), a missing part counting as zero, and the smaller of
  the daemon's and the plugin's version is settled on.
\<close>

type_synonym i64 = "64 word"

definition MaxAPIVersion :: string where "MaxAPIVersion = ''1.45''"

fun atoi_from :: "i64 \<Rightarrow> string \<Rightarrow> i64" where
  "atoi_from n [] = n"
| "atoi_from n (r # s) =
     (if \<not> is_digit r then n else atoi_from (n * 10 + of_nat (digit_val r)) s)"

definition atoi :: "string \<Rightarrow> i64" where
  "atoi s = atoi_from 0 s"

text \<open>\<open>strings.Split\<close> at a single byte.\<close>

fun split_byte :: "char \<Rightarrow> string \<Rightarrow> string list" where
  "split_byte c [] = [[]]"
| "split_byte c (x # s) =
     (if x = c then [] # split_byte c s
      else (case split_byte c s of [] \<Rightarrow> [[x]] | p # ps \<Rightarrow> (x # p) # ps))"

fun compare_parts :: "i64 list \<Rightarrow> i64 list \<Rightarrow> int" where
  "compare_parts [] [] = 0"
| "compare_parts (a # as) [] =
     (if a \<noteq> 0 then (if sint a < 0 then -1 else 1) else compare_parts as [])"
| "compare_parts [] (b # bs) =
     (if 0 \<noteq> b then (if 0 < sint b then -1 else 1) else compare_parts [] bs)"
| "compare_parts (a # as) (b # bs) =
     (if a \<noteq> b then (if sint a < sint b then -1 else 1) else compare_parts as bs)"

definition compare_versions :: "string \<Rightarrow> string \<Rightarrow> int" where
  "compare_versions a b =
     compare_parts (map atoi (split_byte (CHR ''.'') a)) (map atoi (split_byte (CHR ''.'') b))"

definition negotiated_version :: "string \<Rightarrow> string" where
  "negotiated_version api =
     (if api \<noteq> [] \<and> compare_versions api MaxAPIVersion < 0 then api else MaxAPIVersion)"

subsection \<open>The order\<close>

lemma compare_parts_range: "compare_parts as bs \<in> {-1, 0, 1}"
  by (induction as bs rule: compare_parts.induct) auto

text \<open>The \<open>i\<close>th part, zero where there is none.\<close>

fun part :: "i64 list \<Rightarrow> nat \<Rightarrow> int" where
  "part [] i = 0"
| "part (a # as) 0 = sint a"
| "part (a # as) (Suc i) = part as i"

lemma sint_inject: "sint (a :: i64) = sint b \<longleftrightarrow> a = b"
  by (auto intro: signed_word_eqI)

lemma sint_zero_iff: "sint (a :: i64) = 0 \<longleftrightarrow> a = 0"
  using sint_inject [of a 0] by simp

definition lex_less :: "(nat \<Rightarrow> int) \<Rightarrow> (nat \<Rightarrow> int) \<Rightarrow> bool" where
  "lex_less f g = (\<exists>i. f i < g i \<and> (\<forall>j<i. f j = g j))"

lemma lex_less_split:
  "lex_less f g \<longleftrightarrow> f 0 < g 0 \<or> f 0 = g 0 \<and> lex_less (\<lambda>i. f (Suc i)) (\<lambda>i. g (Suc i))"
proof
  assume "lex_less f g"
  then obtain i where i: "f i < g i" "\<forall>j<i. f j = g j" by (auto simp: lex_less_def)
  show "f 0 < g 0 \<or> f 0 = g 0 \<and> lex_less (\<lambda>i. f (Suc i)) (\<lambda>i. g (Suc i))"
  proof (cases i)
    case (Suc k)
    with i show ?thesis by (auto simp: lex_less_def)
  qed (use i in simp)
next
  assume "f 0 < g 0 \<or> f 0 = g 0 \<and> lex_less (\<lambda>i. f (Suc i)) (\<lambda>i. g (Suc i))"
  then show "lex_less f g"
  proof
    assume "f 0 = g 0 \<and> lex_less (\<lambda>i. f (Suc i)) (\<lambda>i. g (Suc i))"
    then obtain i where "f 0 = g 0" "f (Suc i) < g (Suc i)" "\<forall>j<i. f (Suc j) = g (Suc j)"
      by (auto simp: lex_less_def)
    then have "f (Suc i) < g (Suc i) \<and> (\<forall>j<Suc i. f j = g j)"
      by (auto simp: less_Suc_eq_0_disj)
    then show ?thesis unfolding lex_less_def by blast
  qed (auto simp: lex_less_def)
qed

lemma lex_less_refl [simp]: "\<not> lex_less f f"
  by (simp add: lex_less_def)

lemma part_shift: "(\<lambda>i. part as (Suc i)) = part (tl as)"
  by (cases as) auto

definition head_part :: "i64 list \<Rightarrow> i64" where
  "head_part as = (case as of [] \<Rightarrow> 0 | a # _ \<Rightarrow> a)"

lemma part_zero: "part as 0 = sint (head_part as)"
  by (cases as) (simp_all add: head_part_def)

lemma part_eq_split: "part as = part bs \<longleftrightarrow> head_part as = head_part bs \<and> part (tl as) = part (tl bs)"
proof
  assume eq: "part as = part bs"
  then have "(\<lambda>i. part as (Suc i)) = (\<lambda>i. part bs (Suc i))" by simp
  moreover have "part as 0 = part bs 0" using eq by simp
  ultimately show "head_part as = head_part bs \<and> part (tl as) = part (tl bs)"
    unfolding part_shift part_zero sint_inject by simp
next
  assume eq: "head_part as = head_part bs \<and> part (tl as) = part (tl bs)"
  show "part as = part bs"
  proof
    fix i
    show "part as i = part bs i"
    proof (cases i)
      case 0
      then show ?thesis using eq by (simp add: part_zero)
    next
      case (Suc k)
      then show ?thesis using eq fun_cong [OF part_shift [of as], of k] fun_cong [OF part_shift [of bs], of k]
        by simp
    qed
  qed
qed

lemma part_less_split:
  "lex_less (part as) (part bs)
   \<longleftrightarrow> (if head_part as = head_part bs then lex_less (part (tl as)) (part (tl bs))
        else sint (head_part as) < sint (head_part bs))"
  unfolding lex_less_split [of "part as"] part_zero part_shift using sint_inject by auto

lemma compare_parts_split:
  "as \<noteq> [] \<or> bs \<noteq> [] \<Longrightarrow>
   compare_parts as bs
     = (if head_part as = head_part bs then compare_parts (tl as) (tl bs)
        else if sint (head_part as) < sint (head_part bs) then -1 else 1)"
  by (cases "(as, bs)" rule: compare_parts.cases) (simp_all add: head_part_def)

lemma compare_parts_spec:
  "(compare_parts as bs < 0 \<longleftrightarrow> lex_less (part as) (part bs))
   \<and> (compare_parts as bs = 0 \<longleftrightarrow> part as = part bs)
   \<and> (0 < compare_parts as bs \<longleftrightarrow> lex_less (part bs) (part as))"
proof (induction "length as + length bs" arbitrary: as bs rule: less_induct)
  case less
  show ?case
  proof (cases "as = [] \<and> bs = []")
    case False
    then have small: "length (tl as) + length (tl bs) < length as + length bs"
      by (cases as; cases bs) auto
    show ?thesis
    proof (cases "head_part as = head_part bs")
      case True
      then show ?thesis using less [OF small] False
        by (simp add: compare_parts_split part_eq_split [of as] part_less_split [of as] part_less_split [of bs])
    next
      case neq: False
      then have "sint (head_part as) \<noteq> sint (head_part bs)" by (simp add: sint_inject)
      with neq False show ?thesis
        by (auto simp: compare_parts_split part_eq_split [of as] part_less_split [of as] part_less_split [of bs])
    qed
  qed simp
qed

definition version_parts :: "string \<Rightarrow> nat \<Rightarrow> int" where
  "version_parts v = part (map atoi (split_byte (CHR ''.'') v))"

lemma compare_versions_spec:
  "(compare_versions a b < 0 \<longleftrightarrow> lex_less (version_parts a) (version_parts b))
   \<and> (compare_versions a b = 0 \<longleftrightarrow> version_parts a = version_parts b)
   \<and> (0 < compare_versions a b \<longleftrightarrow> lex_less (version_parts b) (version_parts a))"
  unfolding compare_versions_def version_parts_def by (rule compare_parts_spec)

lemma compare_versions_range: "compare_versions a b \<in> {-1, 0, 1}"
  unfolding compare_versions_def by (rule compare_parts_range)

lemma compare_versions_flip: "compare_versions b a = - compare_versions a b"
proof -
  have gen: "x = - y"
    if "x \<in> {-1, 0, 1}" "y \<in> {-1, 0, 1}" "x < 0 \<longleftrightarrow> 0 < y" "x = 0 \<longleftrightarrow> y = 0" for x y :: int
    using that by auto
  show ?thesis
    by (rule gen [OF compare_versions_range compare_versions_range])
      (use compare_versions_spec [of a b] compare_versions_spec [of b a] in \<open>metis\<close>)+
qed

lemma lex_less_trans:
  assumes "lex_less f g" "lex_less g h"
  shows "lex_less f h"
proof -
  from assms obtain i k where i: "f i < g i" "\<forall>j<i. f j = g j" and k: "g k < h k" "\<forall>j<k. g j = h j"
    by (auto simp: lex_less_def)
  have "f (min i k) < h (min i k) \<and> (\<forall>j<min i k. f j = h j)"
  proof (cases i k rule: linorder_cases)
    case less
    with i k show ?thesis by (auto simp: min_def)
  next
    case equal
    with i k show ?thesis by auto
  next
    case greater
    with i k show ?thesis by (auto simp: min_def)
  qed
  then show "lex_less f h" unfolding lex_less_def by blast
qed

text \<open>Printed versions: the parts of dotted decimals are the numbers, as long as they fit an \<open>int\<close>.\<close>

lemma atoi_from_digits:
  "list_all is_digit s \<Longrightarrow> atoi_from n s = foldl (\<lambda>k c. k * 10 + of_nat (digit_val c)) n s"
  by (induction s arbitrary: n) auto

lemma atoi_dec_nat: "atoi (dec_nat n) = of_nat n"
proof -
  have fold: "foldl (\<lambda>k c. k * 10 + of_nat (digit_val c)) (of_nat m) s
      = (of_nat (foldl (\<lambda>k c. k * 10 + digit_val c) m s) :: i64)" for m s
  proof (induction s arbitrary: m)
    case (Cons c s)
    then show ?case using Cons.IH [of "m * 10 + digit_val c"] by simp
  qed simp
  show ?thesis
    using fold [of 0 "dec_nat n"] digits_val_dec_nat [of n]
    by (simp add: atoi_def atoi_from_digits [OF dec_nat_digits] digits_val_def)
qed

lemma split_byte_nonempty [simp]: "split_byte c s \<noteq> []"
  by (cases s) (auto split: list.splits)

lemma split_byte_none: "c \<notin> set s \<Longrightarrow> split_byte c s = [s]"
  by (induction s) auto

lemma split_byte_cons: "c \<notin> set s \<Longrightarrow> split_byte c (s @ c # t) = s # split_byte c t"
  by (induction s) auto

lemma split_byte_join:
  "ss \<noteq> [] \<Longrightarrow> \<forall>s \<in> set ss. c \<notin> set s \<Longrightarrow> split_byte c (join [c] ss) = ss"
proof (induction ss rule: induct_list012)
  case (3 x y zs)
  then show ?case by (simp add: split_byte_cons)
qed (simp_all add: split_byte_none)

definition dotted :: "nat list \<Rightarrow> string" where
  "dotted ns = join ''.'' (map dec_nat ns)"

lemma dotted_parts:
  assumes "ns \<noteq> []"
  shows "map atoi (split_byte (CHR ''.'') (dotted ns)) = map of_nat ns"
proof -
  have "CHR ''.'' \<notin> set (dec_nat n)" for n
    using dec_nat_only_digits [of "CHR ''.''" n] by (auto simp: is_digit_def)
  with assms show ?thesis by (simp add: dotted_def split_byte_join atoi_dec_nat comp_def)
qed

text \<open>The \<open>i\<close>th number of a version, zero where it has none.\<close>

definition number :: "nat list \<Rightarrow> nat \<Rightarrow> nat" where
  "number ns i = (if i < length ns then ns ! i else 0)"

lemma sint_of_nat_small: "n < 2 ^ 63 \<Longrightarrow> sint (of_nat n :: i64) = int n"
  by (simp add: signed_of_nat signed_take_bit_eq_take_bit_shift take_bit_eq_mod)

lemma part_of_numbers: "\<forall>n \<in> set ns. n < 2 ^ 63 \<Longrightarrow> part (map of_nat ns) i = int (number ns i)"
proof (induction ns arbitrary: i)
  case (Cons n ns)
  then show ?case by (cases i) (simp_all add: number_def sint_of_nat_small)
qed (simp add: number_def)

subsection \<open>Properties\<close>

text \<open>
  C33. Versions are compared as numbers, not as text: for two dotted versions whose numbers fit Go's
  \<open>int\<close>, the comparison is negative exactly when the first number in which they differ is smaller, a
  missing number counting as zero (so 1.9 is older than 1.45), and zero exactly when none differs.
\<close>

theorem compare_versions_numeric:
  assumes "xs \<noteq> []" and "ys \<noteq> []" and "\<forall>n \<in> set xs \<union> set ys. n < 2 ^ 63"
  shows "(compare_versions (dotted xs) (dotted ys) < 0
      \<longleftrightarrow> (\<exists>i. number xs i < number ys i \<and> (\<forall>j<i. number xs j = number ys j)))
    \<and> (compare_versions (dotted xs) (dotted ys) = 0 \<longleftrightarrow> (\<forall>i. number xs i = number ys i))"
proof -
  have "version_parts (dotted xs) = (\<lambda>i. int (number xs i))"
    "version_parts (dotted ys) = (\<lambda>i. int (number ys i))"
    unfolding version_parts_def dotted_parts [OF assms(1)] dotted_parts [OF assms(2)]
    using assms(3) by (auto simp: part_of_numbers)
  then show ?thesis
    using compare_versions_spec [of "dotted xs" "dotted ys"] by (simp add: lex_less_def fun_eq_iff)
qed

lemma compare_versions_numeric_witness: "compare_versions (dotted [1, 9]) (dotted [1, 45]) < 0"
proof -
  have "number [1, 9] 1 < number [1, 45] 1 \<and> (\<forall>j<1. number [1, 9] j = number [1, 45] j)"
    by (simp add: number_def)
  then show ?thesis using compare_versions_numeric [of "[1, 9]" "[1, 45]"] by auto
qed

text \<open>
  The comparison is an order: swapping the arguments flips the sign, and it is transitive, for all
  strings a daemon may send, numbers that wrap and parts that are no numbers included.
\<close>

theorem compare_versions_order:
  "compare_versions b a = - compare_versions a b
   \<and> (compare_versions a b < 0 \<longrightarrow> compare_versions b c \<le> 0 \<longrightarrow> compare_versions a c < 0)
   \<and> (compare_versions a b = 0 \<longrightarrow> compare_versions b c = 0 \<longrightarrow> compare_versions a c = 0)"
  using compare_versions_flip [of b a] compare_versions_spec [of a b] compare_versions_spec [of b c]
    compare_versions_spec [of a c] lex_less_trans [of "version_parts a" "version_parts b" "version_parts c"]
  by (metis le_less)

lemma compare_versions_order_witness:
  "compare_versions ''1.41'' ''1.45'' < 0 \<and> compare_versions ''1.41'' ''1.45.0'' < 0"
proof -
  have a: "compare_versions ''1.41'' ''1.45'' < 0" by code_simp
  have b: "compare_versions ''1.45'' ''1.45.0'' \<le> 0" by code_simp
  from compare_versions_order [of "''1.45''" "''1.41''" "''1.45.0''"] a b show ?thesis by blast
qed

text \<open>
  The version settled on is never newer than the plugin's own, and it is the daemon's whenever the
  daemon names one that is older: the minimum of the two.
\<close>

theorem negotiated_version_min:
  "compare_versions (negotiated_version api) MaxAPIVersion \<le> 0
   \<and> (api \<noteq> [] \<longrightarrow> compare_versions (negotiated_version api) api \<le> 0)
   \<and> negotiated_version api \<in> {api, MaxAPIVersion}"
proof -
  have refl: "compare_versions v v = 0" for v
    using compare_versions_spec by blast
  have flip: "compare_versions MaxAPIVersion api = - compare_versions api MaxAPIVersion"
    using compare_versions_flip by blast
  show ?thesis
    by (auto simp: negotiated_version_def refl flip)
qed

lemma negotiated_version_min_witness:
  "compare_versions (negotiated_version ''1.41'') ''1.41'' \<le> 0 \<and> negotiated_version ''1.41'' = ''1.41''"
proof
  show "compare_versions (negotiated_version ''1.41'') ''1.41'' \<le> 0"
    using negotiated_version_min [of "''1.41''"] by blast
  show "negotiated_version ''1.41'' = ''1.41''" by code_simp
qed

end
