(* ===== verification/World.thy ===== *)
theory World
  imports Json GoError Version
begin

text \<open>
  Everything outside the plugin as one value that operations pass on: the daemon, the host's RPC, the
  opening of streams and the order in which Go walks a map, each an arbitrary function of everything that
  has happened so far (the trace, newest event last) and of the request. The functions never change; an operation only adds to the trace. So a
  statement for every \<open>world\<close> is a statement for every behaviour of daemon and host. Also here: a Docker
  client (\<open>dockerapi.Client\<close>), which is a stream number and the version its requests carry, and the single
  exchange of \<open>client.go\<close>.
\<close>

record docker =
  dkStream :: nat
  dkVersion :: string

datatype http_reply = SendFailed string | ReadFailed string | Answer nat string

datatype event =
    EvOpen string
  | EvHttp nat string string "string option"
  | EvCloseStream nat
  | EvCall string json
  | EvWait
  | EvSend nat string

record world =
  wOpen :: "event list \<Rightarrow> string \<Rightarrow> go_error option"
  wHttp :: "event list \<Rightarrow> nat \<Rightarrow> string \<Rightarrow> string \<Rightarrow> string option \<Rightarrow> http_reply"
  wCall :: "event list \<Rightarrow> string \<Rightarrow> json \<Rightarrow> go_error + json option"
  wWalk :: "event list \<Rightarrow> string set \<Rightarrow> string list"
  wTrace :: "event list"

text \<open>A walk over a map meets every key once.\<close>

definition walks :: "world \<Rightarrow> bool" where
  "walks w = (\<forall>es S. finite S \<longrightarrow> distinct (wWalk w es S) \<and> set (wWalk w es S) = S)"

definition happen :: "event \<Rightarrow> world \<Rightarrow> world" where
  "happen e w = w\<lparr>wTrace := wTrace w @ [e]\<rparr>"

text \<open>The next stream number: one stream for every \<open>EvOpen\<close> so far.\<close>

definition opened :: "event list \<Rightarrow> nat" where
  "opened es = length (filter (\<lambda>e. case e of EvOpen _ \<Rightarrow> True | _ \<Rightarrow> False) es)"

text \<open>\<open>Streams.OpenExec\<close>.\<close>

definition open_exec :: "string \<Rightarrow> world \<Rightarrow> (go_error + nat) \<times> world" where
  "open_exec session w =
     (let w1 = happen (EvOpen session) w in
      case wOpen w (wTrace w) session of
        Some e \<Rightarrow> (Inl e, w1)
      | None \<Rightarrow> (Inr (opened (wTrace w)), w1))"

text \<open>\<open>Host.Call\<close>.\<close>

definition host_call :: "string \<Rightarrow> json \<Rightarrow> world \<Rightarrow> (go_error + json option) \<times> world" where
  "host_call method params w =
     (wCall w (wTrace w) method params, happen (EvCall method params) w)"

definition close_client :: "docker \<Rightarrow> world \<Rightarrow> world" where
  "close_client d w = happen (EvCloseStream (dkStream d)) w"

definition new_client :: "nat \<Rightarrow> docker" where
  "new_client n = \<lparr>dkStream = n, dkVersion = MaxAPIVersion\<rparr>"

subsection \<open>URLs (package net/url)\<close>

definition upper_hex :: "nat \<Rightarrow> char" where
  "upper_hex d = (if d < 10 then char_of (48 + d) else char_of (55 + d))"

definition is_alnum :: "char \<Rightarrow> bool" where
  "is_alnum c = (is_digit c \<or> (65 \<le> byte_val c \<and> byte_val c \<le> 90) \<or> (97 \<le> byte_val c \<and> byte_val c \<le> 122))"

definition percent :: "char \<Rightarrow> string" where
  "percent c = [CHR 0x25, upper_hex (byte_val c div 16), upper_hex (byte_val c mod 16)]"

definition segment_char :: "char \<Rightarrow> bool" where
  "segment_char c = (is_alnum c \<or> c \<in> set ''-_.~$&+:=@'')"

text \<open>\<open>url.PathEscape\<close>.\<close>

definition path_escape :: "string \<Rightarrow> string" where
  "path_escape s = concat (map (\<lambda>c. if segment_char c then [c] else percent c) s)"

definition query_char :: "char \<Rightarrow> bool" where
  "query_char c = (is_alnum c \<or> c \<in> set ''-_.~'')"

definition query_escape :: "string \<Rightarrow> string" where
  "query_escape s =
     concat (map (\<lambda>c. if query_char c then [c] else if c = CHR '' '' then ''+'' else percent c) s)"

text \<open>\<open>url.Values.Encode\<close>, for values with one entry a key: sorted by key.\<close>

definition query_encode :: "(string \<times> string) list \<Rightarrow> string" where
  "query_encode q =
     join ''&'' (map (\<lambda>(k, v). query_escape k @ ''='' @ query_escape v) (sort_key fst q))"

text \<open>\<open>url.Values.Set\<close>.\<close>

fun query_set :: "string \<Rightarrow> string \<Rightarrow> (string \<times> string) list \<Rightarrow> (string \<times> string) list" where
  "query_set k v [] = [(k, v)]"
| "query_set k v ((k', v') # q) = (if k = k' then (k, v) # q else (k', v') # query_set k v q)"

text \<open>Undoing an escape, \<open>None\<close> where a percent sign is not followed by two hexadecimal digits.\<close>

fun path_unescape :: "string \<Rightarrow> string option" where
  "path_unescape [] = Some []"
| "path_unescape (c # s) =
     (if c = CHR 0x25 then
        (case s of
           a # b # t \<Rightarrow>
             (case (hex_val a, hex_val b) of
                (Some x, Some y) \<Rightarrow> map_option (\<lambda>r. char_of (16 * x + y) # r) (path_unescape t)
              | _ \<Rightarrow> None)
         | _ \<Rightarrow> None)
      else map_option (\<lambda>r. c # r) (path_unescape s))"

text \<open>
  What \<open>http.NewRequest\<close> refuses of the URLs built here: a control character anywhere, a bad escape in the
  path or in a fragment.
\<close>

definition url_ok :: "string \<Rightarrow> bool" where
  "url_ok s =
     (list_all (\<lambda>c. 32 \<le> byte_val c \<and> byte_val c \<noteq> 127) s
      \<and> path_unescape (takeWhile (\<lambda>c. c \<noteq> CHR ''?'' \<and> c \<noteq> CHR ''#'') s) \<noteq> None
      \<and> path_unescape (drop 1 (dropWhile (\<lambda>c. c \<noteq> CHR ''#'') s)) \<noteq> None)"

subsection \<open>One exchange\<close>

text \<open>The URL a request is built from (\<open>buildRequest\<close>), after the placeholder host.\<close>

definition request_target :: "string \<Rightarrow> (string \<times> string) list \<Rightarrow> string" where
  "request_target path query = path @ (if query = [] then [] else ''?'' @ query_encode query)"

definition dec_api_message :: "string dec" where
  "dec_api_message = dec_struct [(''message'', dec_str)]"

definition decode_api_error :: "nat \<Rightarrow> string \<Rightarrow> go_error" where
  "decode_api_error status body =
     (case decode_all dec_api_message [] (take 65536 body) of
        Some msg \<Rightarrow> if msg \<noteq> [] then EApi (int status) (trim_space msg) else EApi (int status) []
      | None \<Rightarrow> EApi (int status) [])"

definition do_exchange ::
  "docker \<Rightarrow> string \<Rightarrow> string \<Rightarrow> (string \<times> string) list \<Rightarrow> json option \<Rightarrow> world \<Rightarrow> (go_error + string) \<times> world" where
  "do_exchange d method path query body w =
     (let target = request_target path query; payload = map_option print_json body in
      if \<not> url_ok target then (Inl (EWrap ''dockerapi: build request: '' (EText ''invalid URL'')), w)
      else
        (let w1 = happen (EvHttp (dkStream d) method target payload) w in
         case wHttp w (wTrace w) (dkStream d) method target payload of
           SendFailed t \<Rightarrow> (Inl (EWrap ''dockerapi: send request: '' (EText t)), w1)
         | ReadFailed t \<Rightarrow> (Inl (EWrap ''dockerapi: read response: '' (EText t)), w1)
         | Answer status reply \<Rightarrow>
             (if status \<ge> 400 then Inl (decode_api_error status reply) else Inr reply, w1)))"

definition api_request ::
  "docker \<Rightarrow> string \<Rightarrow> string \<Rightarrow> (string \<times> string) list \<Rightarrow> json option \<Rightarrow> world \<Rightarrow> (go_error + string) \<times> world" where
  "api_request d method path query body w = do_exchange d method (''/v'' @ dkVersion d @ path) query body w"

definition decode_reply :: "'a dec \<Rightarrow> 'a \<Rightarrow> (go_error + string) \<times> world \<Rightarrow> (go_error + 'a) \<times> world" where
  "decode_reply dc z r =
     (case r of
        (Inl e, w) \<Rightarrow> (Inl e, w)
      | (Inr body, w) \<Rightarrow>
          (case decode_one dc z body of None \<Rightarrow> (Inl (EText ''json''), w) | Some x \<Rightarrow> (Inr x, w)))"

definition get_json :: "docker \<Rightarrow> string \<Rightarrow> (string \<times> string) list \<Rightarrow> 'a dec \<Rightarrow> 'a \<Rightarrow> world \<Rightarrow> (go_error + 'a) \<times> world" where
  "get_json d path query dc z w = decode_reply dc z (api_request d ''GET'' path query None w)"

definition maxInspectBytes :: nat where "maxInspectBytes = 4 * 2 ^ 20"

definition get_raw :: "docker \<Rightarrow> string \<Rightarrow> (string \<times> string) list \<Rightarrow> world \<Rightarrow> (go_error + string) \<times> world" where
  "get_raw d path query w =
     (case api_request d ''GET'' path query None w of
        (Inl e, w1) \<Rightarrow> (Inl e, w1)
      | (Inr body, w1) \<Rightarrow> (Inr (take maxInspectBytes body), w1))"

text \<open>A request whose response is thrown away gives the error, if any.\<close>

definition discard :: "(go_error + string) \<times> world \<Rightarrow> go_error option \<times> world" where
  "discard r = (case r of (Inl e, w) \<Rightarrow> (Some e, w) | (Inr _, w) \<Rightarrow> (None, w))"

definition post_json :: "docker \<Rightarrow> string \<Rightarrow> (string \<times> string) list \<Rightarrow> json option \<Rightarrow> world \<Rightarrow> go_error option \<times> world" where
  "post_json d path query body w = discard (api_request d ''POST'' path query body w)"

definition post_json_out ::
  "docker \<Rightarrow> string \<Rightarrow> json option \<Rightarrow> 'a dec \<Rightarrow> 'a \<Rightarrow> world \<Rightarrow> (go_error + 'a) \<times> world" where
  "post_json_out d path body dc z w = decode_reply dc z (api_request d ''POST'' path [] body w)"

definition api_delete :: "docker \<Rightarrow> string \<Rightarrow> (string \<times> string) list \<Rightarrow> world \<Rightarrow> go_error option \<times> world" where
  "api_delete d path query w = discard (api_request d ''DELETE'' path query None w)"

record version_response =
  vrApiVersion :: string
  vrMinAPIVersion :: string
  vrVersion :: string

definition dec_version :: "version_response dec" where
  "dec_version = dec_struct
     [(''ApiVersion'', lens vrApiVersion vrApiVersion_update dec_str),
      (''MinAPIVersion'', lens vrMinAPIVersion vrMinAPIVersion_update dec_str),
      (''Version'', lens vrVersion vrVersion_update dec_str)]"

text \<open>\<open>Negotiate\<close>: the daemon's release, and the client with the version settled on.\<close>

definition negotiate :: "docker \<Rightarrow> world \<Rightarrow> (go_error + string) \<times> docker \<times> world" where
  "negotiate d w =
     (case do_exchange d ''GET'' ''/version'' [] None w of
        (Inl e, w1) \<Rightarrow> (Inl e, d, w1)
      | (Inr body, w1) \<Rightarrow>
          (case decode_one dec_version \<lparr>vrApiVersion = [], vrMinAPIVersion = [], vrVersion = []\<rparr> body of
             None \<Rightarrow> (Inl (EWrap ''dockerapi: decode version: '' (EText ''json'')), d, w1)
           | Some v \<Rightarrow> (Inr (vrVersion v), d\<lparr>dkVersion := negotiated_version (vrApiVersion v)\<rparr>, w1)))"

subsection \<open>What operations do to the world\<close>

text \<open>Only the trace grows.\<close>

definition later :: "world \<Rightarrow> world \<Rightarrow> bool" where
  "later w w' = (\<exists>es. w' = w\<lparr>wTrace := wTrace w @ es\<rparr>)"

lemma later_refl [simp, intro]: "later w w"
  unfolding later_def by (rule exI [of _ "[]"]) simp

lemma later_happen [simp, intro]: "later w (happen e w)"
  unfolding later_def happen_def by blast

lemma later_trans [trans]: "later a b \<Longrightarrow> later b c \<Longrightarrow> later a c"
  unfolding later_def by auto

lemma later_do_exchange: "do_exchange d m p q b w = (r, w') \<Longrightarrow> later w w'"
  by (auto simp: do_exchange_def Let_def split: if_splits http_reply.splits)

text \<open>One exchange on the trace.\<close>

lemma do_exchange_trace:
  "do_exchange d m p q b w = (r, w') \<Longrightarrow>
     w' = w \<or> w' = happen (EvHttp (dkStream d) m (request_target p q) (map_option print_json b)) w"
  by (auto simp: do_exchange_def Let_def split: if_splits http_reply.splits)

subsection \<open>Escaped segments\<close>

lemma upper_hex_val: "d < 16 \<Longrightarrow> hex_val (upper_hex d) = Some d"
  by (auto simp: upper_hex_def hex_val_def Let_def byte_val_def)

lemma path_escape_simps [simp]:
  "path_escape [] = []" "path_escape (c # s) = (if segment_char c then [c] else percent c) @ path_escape s"
  "path_escape (s @ t) = path_escape s @ path_escape t"
  by (simp_all add: path_escape_def)

lemma percent_not_segment: "segment_char c \<Longrightarrow> c \<noteq> CHR 0x25"
  by (auto simp: segment_char_def is_alnum_def is_digit_def byte_val_def)

lemma path_unescape_percent:
  "path_unescape (percent c @ s) = map_option (\<lambda>r. c # r) (path_unescape s)"
proof -
  have "byte_val c div 16 < 16" "byte_val c mod 16 < 16" using byte_val_less [of c] by auto
  moreover have "char_of (16 * (byte_val c div 16) + byte_val c mod 16) = c" by (simp add: byte_val_def)
  ultimately show ?thesis by (simp add: percent_def upper_hex_val)
qed

lemma path_unescape_escape: "path_unescape (path_escape s @ t) = map_option (\<lambda>r. s @ r) (path_unescape t)"
proof (induction s)
  case Nil
  then show ?case by (simp add: option.map_ident)
next
  case (Cons c s)
  show ?case
  proof (cases "segment_char c")
    case True
    then have "path_unescape (path_escape (c # s) @ t) = map_option (\<lambda>r. c # r) (path_unescape (path_escape s @ t))"
      using percent_not_segment by simp
    then show ?thesis unfolding Cons.IH by (cases "path_unescape t") simp_all
  next
    case False
    then have "path_unescape (path_escape (c # s) @ t) = map_option (\<lambda>r. c # r) (path_unescape (path_escape s @ t))"
      by (simp add: path_unescape_percent)
    then show ?thesis unfolding Cons.IH by (cases "path_unescape t") simp_all
  qed
qed

lemma upper_hex_alnum: "d < 16 \<Longrightarrow> is_alnum (upper_hex d)"
  by (auto simp: upper_hex_def is_alnum_def is_digit_def byte_val_def)

lemma path_escape_chars: "c \<in> set (path_escape s) \<Longrightarrow> segment_char c \<or> c = CHR 0x25"
proof (induction s)
  case (Cons x s)
  have "byte_val x div 16 < 16" "byte_val x mod 16 < 16" using byte_val_less [of x] by simp_all
  then have hex: "segment_char (upper_hex (byte_val x div 16))" "segment_char (upper_hex (byte_val x mod 16))"
    using upper_hex_alnum unfolding segment_char_def by blast+
  show ?case
  proof (cases "c \<in> set (path_escape s)")
    case True
    then show ?thesis by (rule Cons.IH)
  next
    case False
    with Cons.prems show ?thesis using hex by (cases "segment_char x") (auto simp: percent_def)
  qed
qed simp

lemma segment_char_safe: "segment_char c \<Longrightarrow> c \<notin> set ''/?#;,%'' \<and> 33 \<le> byte_val c \<and> byte_val c < 127"
  by (auto simp: segment_char_def is_alnum_def is_digit_def byte_val_def)

text \<open>
  An id is one path segment and nothing else: whatever bytes it holds, its escape has no slash, question
  mark or number sign and no control character, so it cannot end the segment, start a query or be refused
  as a URL, and unescaping the segment gives exactly the id.
\<close>

theorem path_segment_safe:
  "path_unescape (path_escape s) = Some s
   \<and> (\<forall>c \<in> set (path_escape s). c \<notin> set ''/?#'' \<and> 33 \<le> byte_val c \<and> byte_val c < 127)"
proof
  show "path_unescape (path_escape s) = Some s" using path_unescape_escape [of s "[]"] by simp
  show "\<forall>c \<in> set (path_escape s). c \<notin> set ''/?#'' \<and> 33 \<le> byte_val c \<and> byte_val c < 127"
  proof
    fix c assume "c \<in> set (path_escape s)"
    then have "segment_char c \<or> c = CHR 0x25" by (rule path_escape_chars)
    then show "c \<notin> set ''/?#'' \<and> 33 \<le> byte_val c \<and> byte_val c < 127"
      using segment_char_safe [of c] by (auto simp: byte_val_def)
  qed
qed

lemma path_segment_safe_witness:
  "path_escape ''a/b'' = ''a%2Fb'' \<and> path_unescape ''a%2Fb'' = Some ''a/b''
     \<and> (\<forall>c \<in> set ''a%2Fb''. c \<notin> set ''/?#'' \<and> 33 \<le> byte_val c \<and> byte_val c < 127)"
proof -
  have e: "path_escape ''a/b'' = ''a%2Fb''" by code_simp
  show ?thesis by (rule conjI [OF e path_segment_safe [of "''a/b''", unfolded e]])
qed

text \<open>The limit of that: a segment of dots is left as it is, for the server to interpret.\<close>

lemma path_escape_dots: "path_escape ''..'' = ''..''"
  by code_simp

subsection \<open>Which streams are open\<close>

text \<open>
  The streams that were opened and not closed since, read off the trace (newest event first).
\<close>

fun live_rev :: "(event list \<Rightarrow> string \<Rightarrow> go_error option) \<Rightarrow> event list \<Rightarrow> nat set" where
  "live_rev f [] = {}"
| "live_rev f (EvOpen s # es) = (if f (rev es) s = None then insert (opened (rev es)) (live_rev f es) else live_rev f es)"
| "live_rev f (EvCloseStream n # es) = live_rev f es - {n}"
| "live_rev f (_ # es) = live_rev f es"

definition live_streams :: "world \<Rightarrow> nat set" where
  "live_streams w = live_rev (wOpen w) (rev (wTrace w))"

lemma live_happen [simp]:
  "live_streams (happen (EvOpen s) w)
     = (if wOpen w (wTrace w) s = None then insert (opened (wTrace w)) (live_streams w) else live_streams w)"
  "live_streams (happen (EvCloseStream n) w) = live_streams w - {n}"
  "live_streams (happen (EvHttp n m t b) w) = live_streams w"
  "live_streams (happen (EvCall m p) w) = live_streams w"
  "live_streams (happen EvWait w) = live_streams w" "live_streams (happen (EvSend n s) w) = live_streams w"
  by (simp_all add: live_streams_def happen_def)

lemma opened_append [simp]: "opened (es @ fs) = opened es + opened fs"
  by (simp add: opened_def)

lemma opened_single [simp]:
  "opened [] = 0" "opened [EvOpen s] = 1" "opened [EvCloseStream n] = 0" "opened [EvHttp n m t b] = 0"
  "opened [EvCall m p] = 0" "opened [EvWait] = 0" "opened [EvSend n s] = 0"
  by (simp_all add: opened_def)

lemma live_rev_below: "n \<in> live_rev f es \<Longrightarrow> n < opened (rev es)"
  by (induction f es rule: live_rev.induct) (auto split: if_splits)

lemma live_below: "n \<in> live_streams w \<Longrightarrow> n < opened (wTrace w)"
  using live_rev_below [of n "wOpen w" "rev (wTrace w)"] by (simp add: live_streams_def)

lemma live_fresh [simp]: "opened (wTrace w) \<notin> live_streams w"
  using live_below [of "opened (wTrace w)" w] by blast

lemma live_close_client [simp]: "live_streams (close_client d w) = live_streams w - {dkStream d}"
  by (simp add: close_client_def)

lemma live_do_exchange: "do_exchange d m p q b w = (r, w') \<Longrightarrow> live_streams w' = live_streams w"
  by (auto simp: do_exchange_def Let_def split: if_splits http_reply.splits)

lemma live_host_call [simp]: "live_streams (snd (host_call m p w)) = live_streams w"
  by (simp add: host_call_def)

lemma live_negotiate:
  "negotiate d w = (r, d', w') \<Longrightarrow> live_streams w' = live_streams w \<and> dkStream d' = dkStream d"
  by (auto simp: negotiate_def Let_def dest: live_do_exchange split: prod.splits sum.splits option.splits)

lemma open_exec_live:
  "open_exec s w = (r, w') \<Longrightarrow>
     (case r of Inl e \<Rightarrow> live_streams w' = live_streams w
      | Inr n \<Rightarrow> n \<notin> live_streams w \<and> live_streams w' = insert n (live_streams w))"
  by (auto simp: open_exec_def Let_def split: option.splits)

subsection \<open>Traffic that is no call to the host\<close>

fun is_call :: "event \<Rightarrow> bool" where
  "is_call (EvCall _ _) = True"
| "is_call _ = False"

definition uncalled :: "world \<Rightarrow> world \<Rightarrow> bool" where
  "uncalled w w' = (\<exists>es. w' = w\<lparr>wTrace := wTrace w @ es\<rparr> \<and> \<not> list_ex is_call es)"

lemma uncalled_refl [simp, intro]: "uncalled w w"
  unfolding uncalled_def by (rule exI [of _ "[]"]) simp

lemma uncalled_trans [trans]: "uncalled a b \<Longrightarrow> uncalled b c \<Longrightarrow> uncalled a c"
  unfolding uncalled_def by auto

lemma uncalled_happen: "\<not> is_call e \<Longrightarrow> uncalled w (happen e w)"
  unfolding uncalled_def happen_def by (rule exI [of _ "[e]"]) simp

text \<open>Traffic that is requests to the daemon on streams that are there, and nothing else.\<close>

fun is_http :: "event \<Rightarrow> bool" where
  "is_http (EvHttp _ _ _ _) = True"
| "is_http _ = False"

definition asked :: "world \<Rightarrow> world \<Rightarrow> bool" where
  "asked w w' = (\<exists>es. w' = w\<lparr>wTrace := wTrace w @ es\<rparr> \<and> list_all is_http es)"

lemma asked_refl [simp, intro]: "asked w w"
  unfolding asked_def by (rule exI [of _ "[]"]) simp

lemma asked_trans [trans]: "asked a b \<Longrightarrow> asked b c \<Longrightarrow> asked a c"
  unfolding asked_def by auto

lemma asked_http: "is_http e \<Longrightarrow> asked w (happen e w)"
  unfolding asked_def happen_def by (rule exI [of _ "[e]"]) simp

lemma opened_http: "list_all is_http es \<Longrightarrow> opened es = 0"
proof (induction es)
  case (Cons e es)
  then show ?case by (cases e) (simp_all add: opened_def)
qed simp

lemma asked_uncalled: "asked w w' \<Longrightarrow> uncalled w w'"
proof -
  have "\<not> list_ex is_call es" if "list_all is_http es" for es
    using that
  proof (induction es)
    case (Cons e es)
    then show ?case by (cases e) auto
  qed simp
  then show "asked w w' \<Longrightarrow> uncalled w w'" unfolding asked_def uncalled_def by blast
qed

lemma asked_opened: "asked w w' \<Longrightarrow> opened (wTrace w') = opened (wTrace w)"
  by (auto simp: asked_def opened_http)

lemma live_rev_http: "list_all is_http es \<Longrightarrow> live_rev f (rev es @ fs) = live_rev f fs"
proof (induction es arbitrary: fs)
  case (Cons e es)
  then show ?case by (cases e) auto
qed simp

lemma asked_live: "asked w w' \<Longrightarrow> live_streams w' = live_streams w"
  by (auto simp: asked_def live_streams_def live_rev_http)

lemma asked_do_exchange: "asked w (snd (do_exchange d m p q b w))"
  by (auto simp: do_exchange_def Let_def asked_http split: http_reply.splits)

lemma asked_api_request: "asked w (snd (api_request d m p q b w))"
  by (simp add: api_request_def asked_do_exchange)

lemma asked_get_json: "asked w (snd (get_json d p q dc z w))"
  using asked_api_request [of w d "''GET''" p q None]
  by (auto simp: get_json_def decode_reply_def split: prod.splits sum.splits option.splits)

lemma asked_get_raw: "asked w (snd (get_raw d p q w))"
  using asked_api_request [of w d "''GET''" p q None]
  by (auto simp: get_raw_def split: prod.splits sum.splits)

lemma asked_post_json: "asked w (snd (post_json d p q b w))"
  using asked_api_request [of w d "''POST''" p q b]
  by (auto simp: post_json_def discard_def split: prod.splits sum.splits)

lemma asked_post_json_out: "asked w (snd (post_json_out d p b dc z w))"
  using asked_api_request [of w d "''POST''" p "[]" b]
  by (auto simp: post_json_out_def decode_reply_def split: prod.splits sum.splits option.splits)

lemma asked_api_delete: "asked w (snd (api_delete d p q w))"
  using asked_api_request [of w d "''DELETE''" p q None]
  by (auto simp: api_delete_def discard_def split: prod.splits sum.splits)

lemma asked_negotiate: "asked w (snd (snd (negotiate d w)))"
  using asked_do_exchange [of w d "''GET''" "''/version''" "[]" None]
  by (auto simp: negotiate_def split: prod.splits sum.splits option.splits)

lemmas uncalled_negotiate = asked_negotiate [THEN asked_uncalled]

lemma uncalled_close [simp, intro]: "uncalled w (close_client d w)"
  by (simp add: close_client_def uncalled_happen)

lemma uncalled_open_exec: "uncalled w (snd (open_exec s w))"
  by (auto simp: open_exec_def Let_def uncalled_happen split: option.splits)

end
