(* ===== verification/Node.thy ===== *)
theory Node
  imports Prelude
begin

text \<open>
  Node ids (\<open>internal/domain/node.go\<close>): the fixed ids of the tree, the ids of its instances,
  the parser that takes an instance id apart again after it crossed the host boundary, and the
  classification of any id. \<open>Kind\<close> is a string type in the source, so a kind is a string here and
  an unknown one is possible. The error \<open>ErrInvalidNodeID\<close> is the left side of a sum.
\<close>

definition NodeRoot :: string where "NodeRoot = ''docker''"
definition NodeContainers :: string where "NodeContainers = ''docker/containers''"
definition NodeImages :: string where "NodeImages = ''docker/images''"
definition NodeVolumes :: string where "NodeVolumes = ''docker/volumes''"
definition NodeNetworks :: string where "NodeNetworks = ''docker/networks''"

definition IconDocker :: string where "IconDocker = ''docker''"
definition IconContainers :: string where "IconContainers = ''containers''"
definition IconImages :: string where "IconImages = ''images''"
definition IconVolumes :: string where "IconVolumes = ''volumes''"
definition IconNetworks :: string where "IconNetworks = ''networks''"

type_synonym kind = string

definition KindContainer :: kind where "KindContainer = ''container''"
definition KindImage :: kind where "KindImage = ''image''"
definition KindVolume :: kind where "KindVolume = ''volume''"
definition KindNetwork :: kind where "KindNetwork = ''network''"

lemmas node_ids = NodeRoot_def NodeContainers_def NodeImages_def NodeVolumes_def NodeNetworks_def
lemmas kind_defs = KindContainer_def KindImage_def KindVolume_def KindNetwork_def

datatype node_err = ErrInvalidNodeID

text \<open>The pattern of an id: a letter or digit, then at most 190 characters of a wider set.\<close>

definition id_head :: "char \<Rightarrow> bool" where
  "id_head c = ((97 \<le> (of_char c :: nat) \<and> (of_char c :: nat) \<le> 122)
     \<or> (65 \<le> (of_char c :: nat) \<and> (of_char c :: nat) \<le> 90)
     \<or> (48 \<le> (of_char c :: nat) \<and> (of_char c :: nat) \<le> 57))"

definition id_tail :: "char \<Rightarrow> bool" where
  "id_tail c = (id_head c \<or> c \<in> set ''_.:-'')"

fun valid_docker_id :: "string \<Rightarrow> bool" where
  "valid_docker_id [] = False"
| "valid_docker_id (c # cs) = (id_head c \<and> length cs \<le> 190 \<and> list_all id_tail cs)"

definition instance_id :: "kind \<Rightarrow> string \<Rightarrow> string" where
  "instance_id k d = ''docker/'' @ k @ ''/'' @ d"

definition known_kind :: "kind \<Rightarrow> bool" where
  "known_kind k = (k = KindContainer \<or> k = KindImage \<or> k = KindVolume \<or> k = KindNetwork)"

definition parse_instance_id :: "string \<Rightarrow> node_err + (kind \<times> string)" where
  "parse_instance_id n =
     (case cut_prefix n ''docker/'' of
        None \<Rightarrow> Inl ErrInvalidNodeID
      | Some rest \<Rightarrow>
          (case cut_byte (CHR ''/'') rest of
             None \<Rightarrow> Inl ErrInvalidNodeID
           | Some (kind_part, docker_id) \<Rightarrow>
               if docker_id = [] then Inl ErrInvalidNodeID
               else if \<not> known_kind kind_part then Inl ErrInvalidNodeID
               else if \<not> valid_docker_id docker_id then Inl ErrInvalidNodeID
               else Inr (kind_part, docker_id)))"

datatype node_class =
  ClassUnknown | ClassConnectionRoot | ClassDockerRoot | ClassGroup | ClassInstance

definition class_of :: "string \<Rightarrow> node_class" where
  "class_of n =
     (if n = [] then ClassConnectionRoot
      else if n = NodeRoot then ClassDockerRoot
      else if n = NodeContainers \<or> n = NodeImages \<or> n = NodeVolumes \<or> n = NodeNetworks then ClassGroup
      else (case parse_instance_id n of Inr _ \<Rightarrow> ClassInstance | Inl _ \<Rightarrow> ClassUnknown))"

definition group_label :: "string \<Rightarrow> string" where
  "group_label n =
     (if n = NodeContainers then ''Containers''
      else if n = NodeImages then ''Images''
      else if n = NodeVolumes then ''Volumes''
      else if n = NodeNetworks then ''Networks''
      else if n = NodeRoot then ''Docker''
      else '''')"

definition group_for_kind :: "kind \<Rightarrow> string" where
  "group_for_kind k =
     (if k = KindContainer then NodeContainers
      else if k = KindImage then NodeImages
      else if k = KindVolume then NodeVolumes
      else if k = KindNetwork then NodeNetworks
      else NodeRoot)"

subsection \<open>What a valid id can hold\<close>

text \<open>The characters that end a path segment, start a query or a fragment, or escape a byte.\<close>

definition path_breaker :: "char \<Rightarrow> bool" where
  "path_breaker c = (c \<in> set ''/?#%;, '' \<or> (of_char c :: nat) < 33 \<or> 127 \<le> (of_char c :: nat))"

lemma id_tail_not_breaker: "id_tail c \<Longrightarrow> \<not> path_breaker c"
  by (auto simp: id_tail_def id_head_def path_breaker_def)

lemma id_head_tail: "id_head c \<Longrightarrow> id_tail c"
  by (simp add: id_tail_def)

lemma valid_docker_id_chars: "valid_docker_id d \<Longrightarrow> c \<in> set d \<Longrightarrow> id_tail c"
  by (cases d) (auto simp: list_all_iff id_head_tail)

lemma valid_docker_id_length: "valid_docker_id d \<Longrightarrow> 1 \<le> length d \<and> length d \<le> 191"
  by (cases d) auto

lemma valid_docker_id_not_dot: "valid_docker_id d \<Longrightarrow> hd d \<noteq> CHR ''.''"
  by (cases d) (auto simp: id_head_def)

lemma known_kind_chars: "known_kind k \<Longrightarrow> c \<in> set k \<Longrightarrow> c \<noteq> CHR ''/''"
  by (auto simp: known_kind_def kind_defs)

lemma kind_distinct [simp]:
  "KindContainer \<noteq> KindImage" "KindContainer \<noteq> KindVolume" "KindContainer \<noteq> KindNetwork"
  "KindImage \<noteq> KindVolume" "KindImage \<noteq> KindNetwork" "KindVolume \<noteq> KindNetwork"
  by (simp_all add: kind_defs)

lemma known_kinds [simp]:
  "known_kind KindContainer" "known_kind KindImage" "known_kind KindVolume" "known_kind KindNetwork"
  by (simp_all add: known_kind_def)

lemma parse_instance_id_InrD:
  "parse_instance_id n = Inr (k, d) \<Longrightarrow> known_kind k \<and> valid_docker_id d \<and> n = instance_id k d"
  by (auto simp: parse_instance_id_def instance_id_def cut_prefix_Some_iff cut_byte_Some_iff
           split: option.splits if_splits)

lemma parse_instance_id_of_instance:
  assumes "known_kind k" and "valid_docker_id d"
  shows "parse_instance_id (instance_id k d) = Inr (k, d)"
proof -
  have "CHR ''/'' \<notin> set k" using assms(1) known_kind_chars by blast
  then have "cut_byte (CHR ''/'') (k @ ''/'' @ d) = Some (k, d)"
    by (simp add: cut_byte_append)
  moreover have "cut_prefix (instance_id k d) ''docker/'' = Some (k @ ''/'' @ d)"
    by (simp add: instance_id_def cut_prefix_Some_iff)
  moreover have "d \<noteq> []" using assms(2) by auto
  ultimately show ?thesis using assms by (simp add: parse_instance_id_def)
qed

lemma instance_id_not_group:
  assumes "known_kind k"
  shows "instance_id k d \<notin> {[], NodeRoot, NodeContainers, NodeImages, NodeVolumes, NodeNetworks}"
  using assms by (auto simp: known_kind_def kind_defs node_ids instance_id_def)

subsection \<open>Properties\<close>

text \<open>
  C36. \<open>ParseInstanceID\<close> accepts exactly the ids \<open>InstanceID\<close> mints for the four kinds and a valid
  Docker id, and gives back the kind and the id they were minted from: a round trip in both
  directions, with every other string refused.
\<close>

theorem parse_instance_id_iff:
  "parse_instance_id n = Inr (k, d) \<longleftrightarrow> known_kind k \<and> valid_docker_id d \<and> n = instance_id k d"
  using parse_instance_id_InrD parse_instance_id_of_instance by blast

text \<open>
  An id that \<open>ParseInstanceID\<close> lets through is between 1 and 191 bytes, does not start with a
  dot (so it is neither of the two directory names), and holds no byte that could end a URL path
  segment, start a query or a fragment, or escape another byte.
\<close>

theorem parsed_id_is_path_safe:
  assumes "parse_instance_id n = Inr (k, d)"
  shows "1 \<le> length d \<and> length d \<le> 191 \<and> hd d \<noteq> CHR ''.'' \<and> list_all (\<lambda>c. \<not> path_breaker c) d"
proof -
  from assms have v: "valid_docker_id d" by (simp add: parse_instance_id_InrD)
  show ?thesis
    using valid_docker_id_length [OF v] valid_docker_id_not_dot [OF v]
      valid_docker_id_chars [OF v] id_tail_not_breaker
    by (auto simp: list_all_iff)
qed

lemma parsed_id_is_path_safe_witness:
  "1 \<le> length ''sha256:802c'' \<and> length ''sha256:802c'' \<le> 191 \<and> hd ''sha256:802c'' \<noteq> CHR ''.''
     \<and> list_all (\<lambda>c. \<not> path_breaker c) ''sha256:802c''"
proof (rule parsed_id_is_path_safe)
  show "parse_instance_id ''docker/image/sha256:802c'' = Inr (KindImage, ''sha256:802c'')"
    by code_simp
qed

text \<open>
  \<open>ClassOf\<close> calls an id an instance exactly when it was minted for a known kind and a valid
  Docker id; in particular no instance is mistaken for the root, the Docker node or a group.
\<close>

theorem class_of_instance_iff:
  "class_of n = ClassInstance
     \<longleftrightarrow> (\<exists>k d. known_kind k \<and> valid_docker_id d \<and> n = instance_id k d)"
proof
  assume "class_of n = ClassInstance"
  then obtain k d where "parse_instance_id n = Inr (k, d)"
    by (auto simp: class_of_def split: if_splits sum.splits)
  then show "\<exists>k d. known_kind k \<and> valid_docker_id d \<and> n = instance_id k d"
    using parse_instance_id_InrD by blast
next
  assume "\<exists>k d. known_kind k \<and> valid_docker_id d \<and> n = instance_id k d"
  then obtain k d where n: "known_kind k" "valid_docker_id d" "n = instance_id k d" by blast
  then show "class_of n = ClassInstance"
    using instance_id_not_group [of k d] parse_instance_id_of_instance [of k d]
    by (simp add: class_of_def)
qed

text \<open>Every known kind has a group of its own, and a group is a group.\<close>

lemma group_for_kind_class: "known_kind k \<Longrightarrow> class_of (group_for_kind k) = ClassGroup"
  by (auto simp: known_kind_def group_for_kind_def class_of_def node_ids)

lemma group_for_kind_inject:
  "known_kind j \<Longrightarrow> known_kind k \<Longrightarrow> group_for_kind j = group_for_kind k \<Longrightarrow> j = k"
  by (auto simp: known_kind_def group_for_kind_def kind_defs node_ids)

lemma instance_id_inject:
  "known_kind j \<Longrightarrow> known_kind k \<Longrightarrow> instance_id j c = instance_id k d \<Longrightarrow> j = k \<and> c = d"
  by (auto simp: known_kind_def kind_defs instance_id_def)

end
