(* ===== verification/Api.thy ===== *)
theory Api
  imports World Node
begin

text \<open>
  The Engine API operations of \<open>internal/infra/dockerapi/resources.go\<close> and the exec operations of
  \<open>stream.go\<close>: the payloads the plugin reads and sends, field by field, and one function per operation,
  over the single exchange of \<^theory_text>\<open>World\<close>.
\<close>

definition path_segment :: "string \<Rightarrow> string" where
  "path_segment i = path_escape i"

subsection \<open>Payloads\<close>

record port =
  ptIP :: string
  ptPrivatePort :: int
  ptPublicPort :: int
  ptType :: string

record mount =
  mtType :: string
  mtName :: string

record container =
  ctId :: string
  ctNames :: "string list"
  ctImage :: string
  ctImageID :: string
  ctState :: string
  ctStatus :: string
  ctPorts :: "port list"
  ctLabels :: "(string \<times> string) list"
  ctMounts :: "mount list"
  ctNetworks :: "string list"

record health =
  hlStatus :: string
  hlLog :: "string list"

record container_detail =
  cdId :: string
  cdName :: string
  cdStatus :: string
  cdRunning :: bool
  cdPaused :: bool
  cdRestarting :: bool
  cdDead :: bool
  cdExitCode :: int
  cdStartedAt :: string
  cdFinishedAt :: string
  cdHealth :: "health option"
  cdImage :: string

record image =
  imId :: string
  imRepoTags :: "string list"
  imSize :: int
  imCreated :: int

record volume =
  voName :: string
  voDriver :: string
  voMountpoint :: string
  voCreatedAt :: string
  voLabels :: "(string \<times> string) list"
  voOptions :: "(string \<times> string) list"

record network =
  nwId :: string
  nwName :: string
  nwDriver :: string
  nwScope :: string
  nwInternal :: bool
  nwLabels :: "(string \<times> string) list"

definition zero_port :: port where
  "zero_port = \<lparr>ptIP = [], ptPrivatePort = 0, ptPublicPort = 0, ptType = []\<rparr>"
definition zero_mount :: mount where "zero_mount = \<lparr>mtType = [], mtName = []\<rparr>"
definition zero_container :: container where
  "zero_container = \<lparr>ctId = [], ctNames = [], ctImage = [], ctImageID = [], ctState = [], ctStatus = [],
     ctPorts = [], ctLabels = [], ctMounts = [], ctNetworks = []\<rparr>"
definition zero_health :: health where "zero_health = \<lparr>hlStatus = [], hlLog = []\<rparr>"
definition zero_detail :: container_detail where
  "zero_detail = \<lparr>cdId = [], cdName = [], cdStatus = [], cdRunning = False, cdPaused = False,
     cdRestarting = False, cdDead = False, cdExitCode = 0, cdStartedAt = [], cdFinishedAt = [],
     cdHealth = None, cdImage = []\<rparr>"
definition zero_image :: image where
  "zero_image = \<lparr>imId = [], imRepoTags = [], imSize = 0, imCreated = 0\<rparr>"
definition zero_volume :: volume where
  "zero_volume = \<lparr>voName = [], voDriver = [], voMountpoint = [], voCreatedAt = [], voLabels = [], voOptions = []\<rparr>"
definition zero_network :: network where
  "zero_network = \<lparr>nwId = [], nwName = [], nwDriver = [], nwScope = [], nwInternal = False, nwLabels = []\<rparr>"

text \<open>Maps with string keys, as association lists without duplicates.\<close>

fun assoc_set :: "string \<Rightarrow> 'v \<Rightarrow> (string \<times> 'v) list \<Rightarrow> (string \<times> 'v) list" where
  "assoc_set k v [] = [(k, v)]"
| "assoc_set k v ((k', v') # m) = (if k = k' then (k, v) # m else (k', v') # assoc_set k v m)"

definition dec_map :: "'v dec \<Rightarrow> 'v \<Rightarrow> (string \<times> 'v) list dec" where
  "dec_map d z = dec_obj (\<lambda>k v m. map_option (\<lambda>x. assoc_set k x m) (d v z))"

fun dec_unit :: "unit dec" where
  "dec_unit JNull x = Some ()"
| "dec_unit (JObj ms) x = Some ()"
| "dec_unit _ x = None"

definition dec_keys :: "string list dec" where
  "dec_keys v ks = map_option (map fst) (dec_map dec_unit () v (map (\<lambda>k. (k, ())) ks))"

definition dec_strings :: "string list dec" where "dec_strings = dec_list dec_str []"
definition dec_string_map :: "(string \<times> string) list dec" where "dec_string_map = dec_map dec_str []"

definition dec_port :: "port dec" where
  "dec_port = dec_struct
     [(''IP'', lens ptIP ptIP_update dec_str), (''PrivatePort'', lens ptPrivatePort ptPrivatePort_update dec_i64),
      (''PublicPort'', lens ptPublicPort ptPublicPort_update dec_i64), (''Type'', lens ptType ptType_update dec_str)]"

definition dec_mount :: "mount dec" where
  "dec_mount = dec_struct [(''Type'', lens mtType mtType_update dec_str), (''Name'', lens mtName mtName_update dec_str)]"

definition dec_container :: "container dec" where
  "dec_container = dec_struct
     [(''Id'', lens ctId ctId_update dec_str), (''Names'', lens ctNames ctNames_update dec_strings),
      (''Image'', lens ctImage ctImage_update dec_str), (''ImageID'', lens ctImageID ctImageID_update dec_str),
      (''State'', lens ctState ctState_update dec_str), (''Status'', lens ctStatus ctStatus_update dec_str),
      (''Ports'', lens ctPorts ctPorts_update (dec_list dec_port zero_port)),
      (''Labels'', lens ctLabels ctLabels_update dec_string_map),
      (''Mounts'', lens ctMounts ctMounts_update (dec_list dec_mount zero_mount)),
      (''NetworkSettings'', dec_struct [(''Networks'', lens ctNetworks ctNetworks_update dec_keys)])]"

definition dec_log_entry :: "string dec" where
  "dec_log_entry = dec_struct [(''Output'', dec_str)]"

definition dec_health :: "health option dec" where
  "dec_health v x =
     (if v = JNull then Some None
      else map_option Some (dec_struct
        [(''Status'', lens hlStatus hlStatus_update dec_str),
         (''Log'', lens hlLog hlLog_update (dec_list dec_log_entry []))] v
        (case x of Some h \<Rightarrow> h | None \<Rightarrow> zero_health)))"

definition dec_detail :: "container_detail dec" where
  "dec_detail = dec_struct
     [(''Id'', lens cdId cdId_update dec_str), (''Name'', lens cdName cdName_update dec_str),
      (''State'', dec_struct
        [(''Status'', lens cdStatus cdStatus_update dec_str), (''Running'', lens cdRunning cdRunning_update dec_bool),
         (''Paused'', lens cdPaused cdPaused_update dec_bool),
         (''Restarting'', lens cdRestarting cdRestarting_update dec_bool),
         (''Dead'', lens cdDead cdDead_update dec_bool), (''ExitCode'', lens cdExitCode cdExitCode_update dec_i64),
         (''StartedAt'', lens cdStartedAt cdStartedAt_update dec_str),
         (''FinishedAt'', lens cdFinishedAt cdFinishedAt_update dec_str),
         (''Health'', lens cdHealth cdHealth_update dec_health)]),
      (''Config'', dec_struct [(''Image'', lens cdImage cdImage_update dec_str)])]"

definition dec_image :: "image dec" where
  "dec_image = dec_struct
     [(''Id'', lens imId imId_update dec_str), (''RepoTags'', lens imRepoTags imRepoTags_update dec_strings),
      (''Size'', lens imSize imSize_update dec_i64), (''Created'', lens imCreated imCreated_update dec_i64)]"

definition dec_volume :: "volume dec" where
  "dec_volume = dec_struct
     [(''Name'', lens voName voName_update dec_str), (''Driver'', lens voDriver voDriver_update dec_str),
      (''Mountpoint'', lens voMountpoint voMountpoint_update dec_str),
      (''CreatedAt'', lens voCreatedAt voCreatedAt_update dec_str),
      (''Labels'', lens voLabels voLabels_update dec_string_map),
      (''Options'', lens voOptions voOptions_update dec_string_map)]"

definition dec_network :: "network dec" where
  "dec_network = dec_struct
     [(''Id'', lens nwId nwId_update dec_str), (''Name'', lens nwName nwName_update dec_str),
      (''Driver'', lens nwDriver nwDriver_update dec_str), (''Scope'', lens nwScope nwScope_update dec_str),
      (''Internal'', lens nwInternal nwInternal_update dec_bool),
      (''Labels'', lens nwLabels nwLabels_update dec_string_map)]"

definition short_id :: "string \<Rightarrow> string" where
  "short_id i = (if length i > 12 then take 12 i else i)"

definition container_display_name :: "container \<Rightarrow> string" where
  "container_display_name c =
     (case ctNames c of
        [] \<Rightarrow> short_id (ctId c)
      | n # _ \<Rightarrow>
          (let name = (if has_prefix n ''/'' then drop 1 n else n) in
           if name = [] then short_id (ctId c) else name))"

subsection \<open>Listing and inspecting\<close>

definition list_containers :: "docker \<Rightarrow> world \<Rightarrow> (go_error + container list) \<times> world" where
  "list_containers d w =
     get_json d ''/containers/json'' [(''all'', ''1'')] (dec_list dec_container zero_container) [] w"

definition inspect_container :: "docker \<Rightarrow> string \<Rightarrow> world \<Rightarrow> (go_error + container_detail) \<times> world" where
  "inspect_container d i w =
     get_json d (''/containers/'' @ path_segment i @ ''/json'') [] dec_detail zero_detail w"

definition inspect_raw :: "docker \<Rightarrow> string \<Rightarrow> string \<Rightarrow> world \<Rightarrow> (go_error + string) \<times> world" where
  "inspect_raw d kind i w =
     (if kind = ''container'' then get_raw d (''/containers/'' @ path_segment i @ ''/json'') [] w
      else if kind = ''image'' then get_raw d (''/images/'' @ path_segment i @ ''/json'') [] w
      else if kind = ''volume'' then get_raw d (''/volumes/'' @ path_segment i) [] w
      else if kind = ''network'' then get_raw d (''/networks/'' @ path_segment i) [] w
      else (Inl (EText ''dockerapi: unknown object kind''), w))"

definition list_images :: "docker \<Rightarrow> world \<Rightarrow> (go_error + image list) \<times> world" where
  "list_images d w = get_json d ''/images/json'' [] (dec_list dec_image zero_image) [] w"

definition list_volumes :: "docker \<Rightarrow> world \<Rightarrow> (go_error + volume list) \<times> world" where
  "list_volumes d w =
     get_json d ''/volumes'' [] (dec_struct [(''Volumes'', dec_list dec_volume zero_volume)]) [] w"

definition list_networks :: "docker \<Rightarrow> world \<Rightarrow> (go_error + network list) \<times> world" where
  "list_networks d w = get_json d ''/networks'' [] (dec_list dec_network zero_network) [] w"

subsection \<open>Lifecycle\<close>

definition container_post :: "string \<Rightarrow> docker \<Rightarrow> string \<Rightarrow> world \<Rightarrow> go_error option \<times> world" where
  "container_post verb d i w = post_json d (''/containers/'' @ path_segment i @ verb) [] None w"

definition start_container :: "docker \<Rightarrow> string \<Rightarrow> world \<Rightarrow> go_error option \<times> world" where
  "start_container = container_post ''/start''"
definition stop_container :: "docker \<Rightarrow> string \<Rightarrow> world \<Rightarrow> go_error option \<times> world" where
  "stop_container = container_post ''/stop''"
definition restart_container :: "docker \<Rightarrow> string \<Rightarrow> world \<Rightarrow> go_error option \<times> world" where
  "restart_container = container_post ''/restart''"
definition kill_container :: "docker \<Rightarrow> string \<Rightarrow> world \<Rightarrow> go_error option \<times> world" where
  "kill_container = container_post ''/kill''"
definition pause_container :: "docker \<Rightarrow> string \<Rightarrow> world \<Rightarrow> go_error option \<times> world" where
  "pause_container = container_post ''/pause''"
definition unpause_container :: "docker \<Rightarrow> string \<Rightarrow> world \<Rightarrow> go_error option \<times> world" where
  "unpause_container = container_post ''/unpause''"

definition set_if :: "bool \<Rightarrow> string \<Rightarrow> (string \<times> string) list \<Rightarrow> (string \<times> string) list" where
  "set_if b k q = (if b then query_set k ''1'' q else q)"

definition remove_container :: "docker \<Rightarrow> string \<Rightarrow> bool \<Rightarrow> bool \<Rightarrow> world \<Rightarrow> go_error option \<times> world" where
  "remove_container d i force volumes w =
     api_delete d (''/containers/'' @ path_segment i) (set_if volumes ''v'' (set_if force ''force'' [])) w"

definition remove_image :: "docker \<Rightarrow> string \<Rightarrow> bool \<Rightarrow> bool \<Rightarrow> world \<Rightarrow> go_error option \<times> world" where
  "remove_image d i force no_prune w =
     api_delete d (''/images/'' @ path_segment i) (set_if no_prune ''noprune'' (set_if force ''force'' [])) w"

definition remove_volume :: "docker \<Rightarrow> string \<Rightarrow> bool \<Rightarrow> world \<Rightarrow> go_error option \<times> world" where
  "remove_volume d i force w = api_delete d (''/volumes/'' @ path_segment i) (set_if force ''force'' []) w"

definition remove_network :: "docker \<Rightarrow> string \<Rightarrow> world \<Rightarrow> go_error option \<times> world" where
  "remove_network d i w = api_delete d (''/networks/'' @ path_segment i) [] w"

text \<open>Request bodies: a field marked \<open>omitempty\<close> is left out when it is empty. Map keys are sent sorted.\<close>

definition str_field :: "string \<Rightarrow> string \<Rightarrow> (string \<times> json) list" where
  "str_field k v = (if v = [] then [] else [(k, json_str v)])"

definition bool_field :: "string \<Rightarrow> bool \<Rightarrow> (string \<times> json) list" where
  "bool_field k b = (if b then [(k, JBool True)] else [])"

definition map_json :: "(string \<times> string) list \<Rightarrow> json" where
  "map_json m = JObj (map (\<lambda>(k, v). (quote k, json_str v)) (sort_key fst m))"

definition map_field :: "string \<Rightarrow> (string \<times> string) list \<Rightarrow> (string \<times> json) list" where
  "map_field k m = (if m = [] then [] else [(k, map_json m)])"

record volume_request =
  vqName :: string
  vqDriver :: string
  vqDriverOpts :: "(string \<times> string) list"
  vqLabels :: "(string \<times> string) list"

definition volume_request_json :: "volume_request \<Rightarrow> json" where
  "volume_request_json r =
     JObj (str_field ''Name'' (vqName r) @ str_field ''Driver'' (vqDriver r)
       @ map_field ''DriverOpts'' (vqDriverOpts r) @ map_field ''Labels'' (vqLabels r))"

definition create_volume :: "docker \<Rightarrow> volume_request \<Rightarrow> world \<Rightarrow> go_error option \<times> world" where
  "create_volume d r w = post_json d ''/volumes/create'' [] (Some (volume_request_json r)) w"

record ipam_config =
  icSubnet :: string
  icIPRange :: string
  icGateway :: string
  icAuxAddress :: "(string \<times> string) list"

record network_request =
  nqName :: string
  nqDriver :: string
  nqInternal :: bool
  nqAttachable :: bool
  nqEnableIPv6 :: bool
  nqOptions :: "(string \<times> string) list"
  nqLabels :: "(string \<times> string) list"
  nqIPAM :: "(string \<times> ipam_config list) option"

definition ipam_json :: "ipam_config \<Rightarrow> json" where
  "ipam_json c =
     JObj (str_field ''Subnet'' (icSubnet c) @ str_field ''IPRange'' (icIPRange c)
       @ str_field ''Gateway'' (icGateway c) @ map_field ''AuxiliaryAddresses'' (icAuxAddress c))"

definition ipam_field :: "(string \<times> ipam_config list) option \<Rightarrow> (string \<times> json) list" where
  "ipam_field q =
     (case q of
        None \<Rightarrow> []
      | Some (driver, configs) \<Rightarrow>
          [(''IPAM'', JObj (str_field ''Driver'' driver
              @ (if configs = [] then [] else [(''Config'', JArr (map ipam_json configs))])))])"

definition network_request_json :: "network_request \<Rightarrow> json" where
  "network_request_json r =
     JObj ((''Name'', json_str (nqName r)) # str_field ''Driver'' (nqDriver r)
       @ bool_field ''Internal'' (nqInternal r) @ bool_field ''Attachable'' (nqAttachable r)
       @ bool_field ''EnableIPv6'' (nqEnableIPv6 r) @ map_field ''Options'' (nqOptions r)
       @ map_field ''Labels'' (nqLabels r)
       @ ipam_field (nqIPAM r))"

definition create_network :: "docker \<Rightarrow> network_request \<Rightarrow> world \<Rightarrow> go_error option \<times> world" where
  "create_network d r w = post_json d ''/networks/create'' [] (Some (network_request_json r)) w"

subsection \<open>Streams and exec\<close>

record log_options =
  loFollow :: bool
  loTimestamps :: bool
  loTail :: int

definition log_query :: "log_options \<Rightarrow> (string \<times> string) list" where
  "log_query o' =
     query_set ''tail'' (if loTail o' > 0 then dec_int (loTail o') else ''all'')
       (set_if (loTimestamps o') ''timestamps'' (set_if (loFollow o') ''follow'' [(''stdout'', ''1''), (''stderr'', ''1'')]))"

definition container_logs :: "docker \<Rightarrow> string \<Rightarrow> log_options \<Rightarrow> world \<Rightarrow> (go_error + string) \<times> world" where
  "container_logs d i o' w =
     api_request d ''GET'' (''/containers/'' @ path_segment i @ ''/logs'') (log_query o') None w"

definition api_events :: "docker \<Rightarrow> world \<Rightarrow> (go_error + string) \<times> world" where
  "api_events d w = api_request d ''GET'' ''/events'' [] None w"

record exec_config =
  ecCmd :: "string list"
  ecUser :: string
  ecWorkingDir :: string
  ecPrivileged :: bool
  ecTty :: bool
  ecAttachStdin :: bool
  ecAttachStdout :: bool
  ecAttachStderr :: bool

definition exec_config_json :: "exec_config \<Rightarrow> json" where
  "exec_config_json c =
     JObj ((''Cmd'', JArr (map json_str (ecCmd c))) # str_field ''User'' (ecUser c)
       @ str_field ''WorkingDir'' (ecWorkingDir c) @ bool_field ''Privileged'' (ecPrivileged c)
       @ [(''Tty'', JBool (ecTty c)), (''AttachStdin'', JBool (ecAttachStdin c)),
          (''AttachStdout'', JBool (ecAttachStdout c)), (''AttachStderr'', JBool (ecAttachStderr c))])"

definition dec_exec_id :: "string dec" where "dec_exec_id = dec_struct [(''Id'', dec_str)]"

definition create_exec :: "docker \<Rightarrow> string \<Rightarrow> exec_config \<Rightarrow> world \<Rightarrow> (go_error + string) \<times> world" where
  "create_exec d i cfg w =
     (case post_json_out d (''/containers/'' @ path_segment i @ ''/exec'') (Some (exec_config_json cfg)) dec_exec_id [] w of
        (Inl e, w1) \<Rightarrow> (Inl e, w1)
      | (Inr x, w1) \<Rightarrow>
          (if x = [] then (Inl (EText ''dockerapi: the daemon returned no exec id''), w1) else (Inr x, w1)))"

text \<open>
  \<open>StartExec\<close>: any status below 400 hands the stream over; a refusal carries its status and no message.
\<close>

definition exec_start_json :: "bool \<Rightarrow> json" where
  "exec_start_json tty = JObj [(''Detach'', JBool False), (''Tty'', JBool tty)]"

definition start_exec :: "docker \<Rightarrow> string \<Rightarrow> bool \<Rightarrow> world \<Rightarrow> go_error option \<times> world" where
  "start_exec d i tty w =
     (let target = ''/v'' @ dkVersion d @ ''/exec/'' @ path_segment i @ ''/start'';
          payload = Some (print_json (exec_start_json tty)) in
      if \<not> url_ok target then (Some (EWrap ''dockerapi: build request: '' (EText ''invalid URL'')), w)
      else
        (let w1 = happen (EvHttp (dkStream d) ''POST'' target payload) w in
         case wHttp w (wTrace w) (dkStream d) ''POST'' target payload of
           SendFailed t \<Rightarrow> (Some (EWrap ''dockerapi: send exec start: '' (EText t)), w1)
         | ReadFailed t \<Rightarrow> (Some (EWrap ''dockerapi: read exec response: '' (EText t)), w1)
         | Answer status _ \<Rightarrow> (if status \<ge> 400 then Some (EApi (int status) []) else None, w1)))"

text \<open>The plugin's own \<open>itoa\<close>: the digits of a positive number, nothing for a negative one.\<close>

definition itoa :: "int \<Rightarrow> string" where
  "itoa n = (if n = 0 then ''0'' else if n > 0 then dec_nat (nat n) else [])"

definition resize_exec :: "docker \<Rightarrow> string \<Rightarrow> int \<Rightarrow> int \<Rightarrow> world \<Rightarrow> go_error option \<times> world" where
  "resize_exec d i cols rows w =
     post_json d (''/exec/'' @ path_segment i @ ''/resize'') [(''w'', itoa cols), (''h'', itoa rows)] None w"

subsection \<open>Where a request goes\<close>

lemma id_tail_segment: "id_tail c \<Longrightarrow> segment_char c"
  by (auto simp: id_tail_def id_head_def segment_char_def is_alnum_def is_digit_def byte_val_def)

lemma path_escape_plain: "list_all segment_char s \<Longrightarrow> path_escape s = s"
  by (induction s) auto

lemma path_segment_valid: "valid_docker_id i \<Longrightarrow> path_segment i = i"
  using valid_docker_id_chars id_tail_segment
  by (auto simp: path_segment_def list_all_iff intro!: path_escape_plain)

text \<open>A version of letters, digits and dots, as every daemon sends it.\<close>

definition version_plain :: "docker \<Rightarrow> bool" where
  "version_plain d = list_all segment_char (dkVersion d)"

text \<open>What is put together from plain text and escapes is a URL \<open>http.NewRequest\<close> takes.\<close>

definition url_char :: "char \<Rightarrow> bool" where
  "url_char c = (33 \<le> byte_val c \<and> byte_val c < 127 \<and> c \<noteq> CHR ''#'')"

definition url_text :: "string \<Rightarrow> bool" where
  "url_text s = list_all url_char s"

lemma url_text_simps [simp]:
  "url_text []" "url_text (c # s) \<longleftrightarrow> url_char c \<and> url_text s" "url_text (s @ t) \<longleftrightarrow> url_text s \<and> url_text t"
  by (simp_all add: url_text_def)

lemma url_char_segment: "segment_char c \<Longrightarrow> url_char c"
  using segment_char_safe [of c] by (auto simp: url_char_def)

lemma url_char_marks [simp]: "url_char CHR ''/''" "url_char CHR 0x25" "url_char CHR ''?''" "url_char CHR ''&''" "url_char CHR ''=''" "url_char CHR ''v''"
  by code_simp+

lemma url_text_escape: "url_text (path_escape s)"
  using path_segment_safe [of s] by (auto simp: url_text_def url_char_def list_all_iff)

lemma url_text_plain: "list_all segment_char s \<Longrightarrow> url_text s"
  using url_char_segment by (auto simp: url_text_def list_all_iff)

lemma ballE_conj: "\<forall>c \<in> A. P c \<and> Q c \<and> R c \<Longrightarrow> \<forall>c \<in> A. P c \<and> Q c"
  by blast

lemma takeWhile_path: "(\<forall>c \<in> set s. c \<noteq> CHR ''?'' \<and> c \<noteq> CHR ''#'') \<Longrightarrow>
    takeWhile (\<lambda>c. c \<noteq> CHR ''?'' \<and> c \<noteq> CHR ''#'') (s @ t) = s @ takeWhile (\<lambda>c. c \<noteq> CHR ''?'' \<and> c \<noteq> CHR ''#'') t"
  by (rule takeWhile_append2) auto

lemma path_unescape_plain:
  "\<forall>c \<in> set s. c \<noteq> CHR 0x25 \<Longrightarrow> path_unescape (s @ t) = map_option (\<lambda>r. s @ r) (path_unescape t)"
proof (induction s)
  case (Cons c s)
  then show ?case by (cases "path_unescape t") auto
next
  case Nil
  show ?case by (cases "path_unescape t") simp_all
qed

lemma url_chars_no_fragment: "list_all url_char s \<Longrightarrow> dropWhile (\<lambda>c. c \<noteq> CHR ''#'') s = []"
  by (induction s) (auto simp: url_char_def)

lemma url_chars_printable: "list_all url_char s \<Longrightarrow> list_all (\<lambda>c. 32 \<le> byte_val c \<and> byte_val c \<noteq> 127) s"
  by (induction s) (auto simp: url_char_def)

definition object_path :: "docker \<Rightarrow> string \<Rightarrow> string \<Rightarrow> string \<Rightarrow> string" where
  "object_path d collection i suffix = ''/v'' @ dkVersion d @ collection @ path_segment i @ suffix"

definition plain_part :: "string \<Rightarrow> bool" where
  "plain_part s = list_all (\<lambda>c. segment_char c \<or> c = CHR ''/'') s"

lemma plain_part_chars:
  "plain_part s \<Longrightarrow> \<forall>c \<in> set s. c \<noteq> CHR ''?'' \<and> c \<noteq> CHR ''#'' \<and> c \<noteq> CHR 0x25"
  using segment_char_safe by (auto simp: plain_part_def list_all_iff)

lemma plain_part_text: "plain_part s \<Longrightarrow> url_text s"
  using url_char_segment by (auto simp: plain_part_def url_text_def list_all_iff)

lemma url_ok_object:
  assumes "version_plain d" and "plain_part collection" and "plain_part suffix" and "q = [] \<or> hd q = CHR ''?''"
    and "url_text q"
  shows "url_ok (object_path d collection i suffix @ q)"
proof -
  let ?v = "''/v'' @ dkVersion d @ collection" and ?s = "object_path d collection i suffix"
  have v: "plain_part ?v"
  proof -
    have "segment_char CHR ''v''" by code_simp
    then show ?thesis using assms(1,2) by (auto simp: plain_part_def version_plain_def list_all_iff)
  qed
  have seg: "\<forall>c \<in> set (path_escape i). c \<noteq> CHR ''?'' \<and> c \<noteq> CHR ''#''"
    using path_segment_safe [of i] by auto
  have s: "?s = ?v @ path_escape i @ suffix" by (simp add: object_path_def path_segment_def)
  have all: "\<forall>c \<in> set ?s. c \<noteq> CHR ''?'' \<and> c \<noteq> CHR ''#''"
  proof -
    have "\<forall>c \<in> set ?v. c \<noteq> CHR ''?'' \<and> c \<noteq> CHR ''#''" using plain_part_chars [OF v] by (rule ballE_conj)
    moreover have "\<forall>c \<in> set suffix. c \<noteq> CHR ''?'' \<and> c \<noteq> CHR ''#''"
      using plain_part_chars [OF assms(3)] by (rule ballE_conj)
    ultimately show ?thesis unfolding s set_append ball_Un using seg by (elim conjE) (intro conjI)
  qed
  have "takeWhile (\<lambda>c. c \<noteq> CHR ''?'' \<and> c \<noteq> CHR ''#'') q = []" using assms(4) by (cases q) auto
  then have path: "takeWhile (\<lambda>c. c \<noteq> CHR ''?'' \<and> c \<noteq> CHR ''#'') (?s @ q) = ?s"
    using takeWhile_path [OF all, of q] by simp
  have un: "path_unescape ?s \<noteq> None"
  proof -
    have "path_unescape (suffix @ []) \<noteq> None"
      using path_unescape_plain [of suffix "[]"] plain_part_chars [OF assms(3)] by simp
    then have "path_unescape (path_escape i @ suffix) \<noteq> None" by (simp add: path_unescape_escape)
    then show ?thesis
      unfolding s using path_unescape_plain [of ?v "path_escape i @ suffix"] plain_part_chars [OF v] by simp
  qed
  have whole: "url_text (?s @ q)"
    unfolding s url_text_simps(3) [of "?v @ path_escape i @ suffix"] url_text_simps(3) [of ?v]
      url_text_simps(3) [of "path_escape i"]
    using plain_part_text [OF v] plain_part_text [OF assms(3)] url_text_escape assms(5) by blast
  have chars: "list_all url_char (?s @ q)" using whole by (simp only: url_text_def)
  then have frag: "dropWhile (\<lambda>c. c \<noteq> CHR ''#'') (?s @ q) = []" by (rule url_chars_no_fragment)
  have "list_all (\<lambda>c. 32 \<le> byte_val c \<and> byte_val c \<noteq> 127) (?s @ q)"
    using chars by (rule url_chars_printable)
  then show ?thesis unfolding url_ok_def path frag using un by simp
qed

text \<open>Queries, too, are plain text.\<close>

lemma url_text_percent: "url_text (percent c)"
proof -
  have "byte_val c div 16 < 16" "byte_val c mod 16 < 16" using byte_val_less [of c] by simp_all
  then have "segment_char (upper_hex (byte_val c div 16))" "segment_char (upper_hex (byte_val c mod 16))"
    using upper_hex_alnum unfolding segment_char_def by blast+
  then show ?thesis by (simp add: percent_def url_char_segment)
qed

lemma url_text_query_escape: "url_text (query_escape s)"
proof (induction s)
  case (Cons x s)
  have "query_char x \<Longrightarrow> url_char x" using url_char_segment by (auto simp: query_char_def segment_char_def)
  moreover have "url_char CHR ''+''" by code_simp
  ultimately show ?case using Cons url_text_percent by (simp add: query_escape_def)
qed (simp add: query_escape_def)

lemma url_text_join: "\<forall>s \<in> set ss. url_text s \<Longrightarrow> url_text sep \<Longrightarrow> url_text (join sep ss)"
  by (induction sep ss rule: join.induct) auto

lemma url_text_query: "url_text (query_encode q)"
  unfolding query_encode_def by (rule url_text_join) (use url_text_query_escape in auto)

lemma url_ok_request:
  assumes "version_plain d" and "plain_part collection" and "plain_part suffix"
  shows "url_ok (request_target (object_path d collection i suffix) q)"
  using url_ok_object [OF assms, of "if q = [] then [] else ''?'' @ query_encode q" i] url_text_query [of q]
  by (cases "q = []") (simp_all add: request_target_def)

subsection \<open>Properties\<close>

text \<open>
  A valid id is its own path segment: what the tree publishes and takes back reaches the daemon
  byte for byte, image digests with their colon included.
\<close>

theorem valid_id_unescaped:
  "valid_docker_id i \<Longrightarrow> path_segment i = i"
  by (rule path_segment_valid)

lemma valid_id_unescaped_witness: "path_segment ''sha256:4bcff63911fc'' = ''sha256:4bcff63911fc''"
  by (rule valid_id_unescaped) code_simp

lemma plain_parts:
  "plain_part ''/containers/''" "plain_part ''/images/''" "plain_part ''/volumes/''" "plain_part ''/networks/''"
  "plain_part ''/exec/''" "plain_part []" "plain_part ''/start''" "plain_part ''/stop''" "plain_part ''/restart''"
  "plain_part ''/kill''" "plain_part ''/pause''" "plain_part ''/unpause''" "plain_part ''/json''" "plain_part ''/exec''"
  "plain_part ''/resize''" "plain_part ''/logs''"
  by code_simp+

lemma api_request_trace:
  assumes "version_plain d" and "plain_part collection" and "plain_part suffix"
  shows "wTrace (snd (api_request d m (collection @ path_segment i @ suffix) q b w))
    = wTrace w @ [EvHttp (dkStream d) m (request_target (object_path d collection i suffix) q) (map_option print_json b)]"
proof -
  have path: "''/v'' @ dkVersion d @ collection @ path_segment i @ suffix = object_path d collection i suffix"
    by (simp add: object_path_def)
  show ?thesis
    unfolding api_request_def path do_exchange_def Let_def using url_ok_request [OF assms, of i q]
    by (simp add: happen_def split: http_reply.split)
qed

lemma discard_trace: "wTrace (snd (discard r)) = wTrace (snd r)"
  by (cases r; cases "fst r") (auto simp: discard_def)

lemma decode_reply_trace: "wTrace (snd (decode_reply dc z r)) = wTrace (snd r)"
  by (cases r; cases "fst r") (auto simp: decode_reply_def split: option.split)

lemmas op_traces = discard_trace decode_reply_trace post_json_def api_delete_def get_json_def

definition asks :: "docker \<Rightarrow> string \<Rightarrow> string \<Rightarrow> string \<Rightarrow> string \<Rightarrow> (string \<times> string) list \<Rightarrow> 'r \<times> world \<Rightarrow> world \<Rightarrow> bool" where
  "asks d m collection i suffix q r w =
     (wTrace (snd r) = wTrace w @ [EvHttp (dkStream d) m (request_target (object_path d collection i suffix) q) None])"

text \<open>
  C34. An operation on an object is one request, for that object and for no other: whatever id it is given,
  starting, stopping, restarting, killing, pausing, resuming, inspecting and removing a container, and
  removing an image, a volume or a network, each send exactly one request, with the method and the path of
  that operation, the id as one escaped segment of it and only the options asked for in the query.
\<close>

theorem operations_address_one_object:
  assumes "version_plain d"
  shows "asks d ''POST'' ''/containers/'' i ''/start'' [] (start_container d i w) w
    \<and> asks d ''POST'' ''/containers/'' i ''/stop'' [] (stop_container d i w) w
    \<and> asks d ''POST'' ''/containers/'' i ''/restart'' [] (restart_container d i w) w
    \<and> asks d ''POST'' ''/containers/'' i ''/kill'' [] (kill_container d i w) w
    \<and> asks d ''POST'' ''/containers/'' i ''/pause'' [] (pause_container d i w) w
    \<and> asks d ''POST'' ''/containers/'' i ''/unpause'' [] (unpause_container d i w) w
    \<and> asks d ''GET'' ''/containers/'' i ''/json'' [] (inspect_container d i w) w
    \<and> asks d ''DELETE'' ''/containers/'' i []
        ((if f then [(''force'', ''1'')] else []) @ (if v then [(''v'', ''1'')] else [])) (remove_container d i f v w) w
    \<and> asks d ''DELETE'' ''/images/'' i []
        ((if f then [(''force'', ''1'')] else []) @ (if v then [(''noprune'', ''1'')] else [])) (remove_image d i f v w) w
    \<and> asks d ''DELETE'' ''/volumes/'' i [] (if f then [(''force'', ''1'')] else []) (remove_volume d i f w) w
    \<and> asks d ''DELETE'' ''/networks/'' i [] [] (remove_network d i w) w"
proof -
  have post: "asks d ''POST'' ''/containers/'' i verb [] (container_post verb d i w) w" if "plain_part verb" for verb
    using api_request_trace [OF assms plain_parts(1) that, of "''POST''" i "[]" None w]
    by (simp add: asks_def container_post_def op_traces)
  have get: "asks d ''GET'' ''/containers/'' i ''/json'' [] (inspect_container d i w) w"
    using api_request_trace [OF assms plain_parts(1) plain_parts(13), of "''GET''" i "[]" None w]
    by (simp add: asks_def inspect_container_def op_traces)
  have del: "asks d ''DELETE'' collection i [] q (api_delete d (collection @ path_segment i) q w) w"
    if "plain_part collection" for collection q
    using api_request_trace [OF assms that plain_parts(6), of "''DELETE''" i q None w]
    by (simp add: asks_def op_traces)
  have q: "set_if v k (set_if f ''force'' []) = (if f then [(''force'', ''1'')] else []) @ (if v then [(k, ''1'')] else [])"
    if "k \<noteq> ''force''" for k using that by (simp add: set_if_def)
  show ?thesis
    unfolding start_container_def stop_container_def restart_container_def kill_container_def
      pause_container_def unpause_container_def remove_container_def remove_image_def remove_volume_def remove_network_def
    using post plain_parts get del [OF plain_parts(1)] del [OF plain_parts(2)] del [OF plain_parts(3)] del [OF plain_parts(4)]
    by (simp add: q) (simp add: set_if_def)
qed

definition quiet_world :: world where
  "quiet_world = \<lparr>wOpen = (\<lambda>es s. None), wHttp = (\<lambda>es n m t b. Answer 404 []), wCall = (\<lambda>es m p. Inr None),
     wWalk = (\<lambda>es S. sorted_list_of_set S), wTrace = []\<rparr>"

lemma walks_quiet [simp]: "walks quiet_world"
  by (simp add: walks_def quiet_world_def)

lemma operations_address_one_object_witness:
  "wTrace (snd (remove_container (new_client 0) ''../x?force=1'' True False quiet_world))
     = [EvHttp 0 ''DELETE'' ''/v1.45/containers/..%2Fx%3Fforce=1?force=1'' None]"
proof -
  have "version_plain (new_client 0)" by code_simp
  then have "asks (new_client 0) ''DELETE'' ''/containers/'' ''../x?force=1'' [] [(''force'', ''1'')]
      (remove_container (new_client 0) ''../x?force=1'' True False quiet_world) quiet_world"
    using operations_address_one_object [of "new_client 0" "''../x?force=1''" quiet_world True False] by simp
  moreover have "request_target (object_path (new_client 0) ''/containers/'' ''../x?force=1'' []) [(''force'', ''1'')]
      = ''/v1.45/containers/..%2Fx%3Fforce=1?force=1''" by code_simp
  ultimately show ?thesis by (simp add: asks_def new_client_def quiet_world_def)
qed

text \<open>
  A refusal keeps the daemon's words and its status: an answer of status 400 or more becomes an API error
  with that status and the trimmed message of the daemon's body (none where there is no readable one), so
  exactly a 404 is taken for an object that is gone; anything below is a success, and a request that
  could not be sent or answered is never mistaken for either.
\<close>

theorem exchange_outcome:
  assumes "url_ok (request_target p q)"
  shows "case wHttp w (wTrace w) (dkStream d) m (request_target p q) (map_option print_json b) of
      Answer status body \<Rightarrow>
        (if status < 400 then fst (do_exchange d m p q b w) = Inr body
         else \<exists>msg. fst (do_exchange d m p q b w) = Inl (EApi (int status) msg)
           \<and> (is_not_found (EApi (int status) msg) \<longleftrightarrow> status = 404)
           \<and> (decode_all dec_api_message [] (take 65536 body) = Some t \<and> t \<noteq> [] \<longrightarrow> msg = trim_space t))
    | _ \<Rightarrow> \<exists>e. fst (do_exchange d m p q b w) = Inl e \<and> as_api e = None \<and> \<not> is_not_found e"
  using assms
  by (auto simp: do_exchange_def Let_def decode_api_error_def is_not_found_def as_api_def split: http_reply.split option.split)

lemma exchange_outcome_witness:
  "\<exists>msg. fst (do_exchange (new_client 0) ''GET'' ''/version'' [] None quiet_world) = Inl (EApi 404 msg)"
proof -
  have "url_ok (request_target ''/version'' [])" by code_simp
  from exchange_outcome [OF this, where w = quiet_world and d = "new_client 0" and m = "''GET''" and b = None and t = "[]"]
  show ?thesis by (auto simp: quiet_world_def)
qed

text \<open>
  Negotiation asks the one unversioned endpoint and settles on what both sides know: it sends exactly
  one request, for /version; on success the client's version is the smaller of the daemon's and the plugin's,
  and on failure the client is as it was.
\<close>

theorem negotiate_settles:
  "wTrace (snd (snd (negotiate d w))) = wTrace w @ [EvHttp (dkStream d) ''GET'' ''/version'' None]
   \<and> (case negotiate d w of
        (Inl e, d', w') \<Rightarrow> d' = d
      | (Inr release, d', w') \<Rightarrow> dkStream d' = dkStream d \<and> compare_versions (dkVersion d') MaxAPIVersion \<le> 0
          \<and> (\<exists>api. dkVersion d' = negotiated_version api))"
proof -
  have ok: "url_ok (request_target ''/version'' [])" and t: "request_target ''/version'' [] = ''/version''"
    by code_simp+
  have neg: "compare_versions (negotiated_version api) MaxAPIVersion \<le> 0" for api
    using compare_versions_flip [of MaxAPIVersion api] compare_versions_spec [of MaxAPIVersion MaxAPIVersion]
    by (auto simp: negotiated_version_def)
  show ?thesis
    using ok t neg by (auto simp: negotiate_def do_exchange_def Let_def happen_def split: http_reply.split option.split)
qed

text \<open>
  A followed log is asked for whole or from the tail the user set, on both streams: the encoded query has
  the keys in order, and a line count that is not positive asks for everything.
\<close>

theorem log_query_encoded:
  "query_encode (log_query \<lparr>loFollow = True, loTimestamps = stamps, loTail = n\<rparr>)
     = ''follow=1&stderr=1&stdout=1&tail='' @ (if 0 < n then dec_nat (nat n) else ''all'')
        @ (if stamps then ''&timestamps=1'' else [])"
proof -
  have plain: "list_all is_digit ds \<Longrightarrow> query_escape ds = ds" for ds
    by (induction ds) (auto simp: query_escape_def query_char_def is_alnum_def)
  have digits: "query_escape (dec_int n) = dec_nat (nat n)" if "0 < n"
    using plain [OF dec_nat_list_all] that by (simp add: dec_int_def)
  have words: "query_escape ''follow'' = ''follow''" "query_escape ''stdout'' = ''stdout''" "query_escape ''stderr'' = ''stderr''"
    "query_escape ''tail'' = ''tail''" "query_escape ''timestamps'' = ''timestamps''" "query_escape ''1'' = ''1''" "query_escape ''all'' = ''all''"
    by code_simp+
  have sorted: "sort_key fst [(''stdout'', ''1''), (''stderr'', ''1''), (''follow'', ''1''), (''tail'', t)]
      = [(''follow'', ''1''), (''stderr'', ''1''), (''stdout'', ''1''), (''tail'', t)]"
    "sort_key fst [(''stdout'', ''1''), (''stderr'', ''1''), (''follow'', ''1''), (''timestamps'', ''1''), (''tail'', t)]
      = [(''follow'', ''1''), (''stderr'', ''1''), (''stdout'', ''1''), (''tail'', t), (''timestamps'', ''1'')]" for t :: string
    by code_simp+
  show ?thesis
    by (simp add: log_query_def set_if_def query_encode_def sorted words digits)
qed

end
