(* ===== verification/Connection.thy ===== *)
theory Connection
  imports Api Node
begin

text \<open>
  What the plugin keeps of one SSH session (\<open>internal/usecase/connection.go\<close>, with the settings type of
  \<open>internal/usecase/ports.go\<close>): the shared request client, the nodes the user has open, the ids published,
  the settings, and whether the session is over. \<open>Control\<close> looks at the state, dials without the lock and
  looks again; the two looks are operations of their own, so that the interleavings of several callers can
  be stated. A client is a value here and is identified by its stream.
\<close>

record resource_settings =
  rsShell :: string
  rsUser :: string
  rsWorkingDir :: string
  rsPrivileged :: bool
  rsLogTail :: int
  rsLogStamps :: bool

definition default_settings :: resource_settings where
  "default_settings = \<lparr>rsShell = ''/bin/sh'', rsUser = [], rsWorkingDir = [], rsPrivileged = False,
     rsLogTail = 500, rsLogStamps = False\<rparr>"

record connection =
  cxSession :: string
  cxControl :: "docker option"
  cxObserved :: "string set"
  cxResolved :: "string \<Rightarrow> string option"
  cxSettings :: "(string \<times> resource_settings) list"
  cxClosed :: bool

definition new_connection :: "string \<Rightarrow> connection" where
  "new_connection session = \<lparr>cxSession = session, cxControl = None, cxObserved = {}, cxResolved = (\<lambda>_. None),
     cxSettings = [], cxClosed = False\<rparr>"

subsection \<open>The shared client\<close>

definition close_control :: "docker option \<Rightarrow> world \<Rightarrow> world" where
  "close_control client w = (case client of None \<Rightarrow> w | Some d \<Rightarrow> close_client d w)"

definition mark_gone :: "connection \<Rightarrow> world \<Rightarrow> connection \<times> world" where
  "mark_gone c w = (c\<lparr>cxClosed := True, cxControl := None\<rparr>, close_control (cxControl c) w)"

definition conn_close :: "connection \<Rightarrow> world \<Rightarrow> connection \<times> world" where
  "conn_close c w = (c\<lparr>cxControl := None, cxClosed := True\<rparr>, close_control (cxControl c) w)"

definition dial_open :: "connection \<Rightarrow> world \<Rightarrow> (go_error + nat) \<times> connection \<times> world" where
  "dial_open c w =
     (case open_exec (cxSession c) w of
        (Inl e, w1) \<Rightarrow>
          (if is_session_gone e then (Inl ErrSessionGone, mark_gone c w1) else (Inl e, c, w1))
      | (Inr stream, w1) \<Rightarrow> (Inr stream, c, w1))"

definition dial_negotiate :: "nat \<Rightarrow> world \<Rightarrow> (go_error + docker) \<times> world" where
  "dial_negotiate stream w =
     (case negotiate (new_client stream) w of
        (Inl e, d, w1) \<Rightarrow> (Inl e, close_client d w1)
      | (Inr _, d, w1) \<Rightarrow> (Inr d, w1))"

definition dial :: "connection \<Rightarrow> world \<Rightarrow> (go_error + docker) \<times> connection \<times> world" where
  "dial c w =
     (case dial_open c w of
        (Inl e, c1, w1) \<Rightarrow> (Inl e, c1, w1)
      | (Inr stream, c1, w1) \<Rightarrow> (let (r, w2) = dial_negotiate stream w1 in (r, c1, w2)))"

definition control_check :: "connection \<Rightarrow> (go_error + docker) option" where
  "control_check c = (if cxClosed c then Some (Inl ErrNoDocker) else map_option Inr (cxControl c))"

definition control_install :: "docker \<Rightarrow> connection \<Rightarrow> world \<Rightarrow> (go_error + docker) \<times> connection \<times> world" where
  "control_install d c w =
     (if cxClosed c then (Inl ErrNoDocker, c, close_client d w)
      else
        (case cxControl c of
           Some winner \<Rightarrow> (Inr winner, c, close_client d w)
         | None \<Rightarrow> (Inr d, c\<lparr>cxControl := Some d\<rparr>, w)))"

definition control :: "connection \<Rightarrow> world \<Rightarrow> (go_error + docker) \<times> connection \<times> world" where
  "control c w =
     (case control_check c of
        Some r \<Rightarrow> (r, c, w)
      | None \<Rightarrow>
          (case dial c w of
             (Inl e, c1, w1) \<Rightarrow> (Inl e, c1, w1)
           | (Inr d, c1, w1) \<Rightarrow> control_install d c1 w1))"

definition open_stream :: "connection \<Rightarrow> world \<Rightarrow> (go_error + docker) \<times> connection \<times> world" where
  "open_stream c w = dial c w"

definition gone :: "connection \<Rightarrow> bool" where
  "gone c = cxClosed c"

subsection \<open>Open nodes, published ids, settings\<close>

definition set_observed :: "string list \<Rightarrow> connection \<Rightarrow> connection" where
  "set_observed ids c = c\<lparr>cxObserved := set ids\<rparr>"

definition observes :: "string \<Rightarrow> connection \<Rightarrow> bool" where
  "observes i c = (i \<in> cxObserved c)"

text \<open>\<open>ObservedNodes\<close> lists the set in whatever order the map is walked.\<close>

definition lists_observed :: "string list \<Rightarrow> connection \<Rightarrow> bool" where
  "lists_observed order c = (distinct order \<and> set order = cxObserved c)"

definition remember :: "string \<Rightarrow> string \<Rightarrow> connection \<Rightarrow> connection" where
  "remember node i c = c\<lparr>cxResolved := (cxResolved c)(node \<mapsto> i)\<rparr>"

definition resolve :: "string \<Rightarrow> connection \<Rightarrow> node_err + (kind \<times> string)" where
  "resolve node c =
     (case parse_instance_id node of
        Inl e \<Rightarrow> Inl e
      | Inr (k, i) \<Rightarrow>
          (case cxResolved c node of
             None \<Rightarrow> Inl ErrInvalidNodeID
           | Some remembered \<Rightarrow>
               if remembered \<noteq> i \<or> \<not> valid_docker_id remembered then Inl ErrInvalidNodeID else Inr (k, i)))"

definition load_settings :: "(string \<times> resource_settings) list \<Rightarrow> connection \<Rightarrow> connection" where
  "load_settings s c = c\<lparr>cxSettings := s\<rparr>"

definition settings_for :: "string \<Rightarrow> connection \<Rightarrow> resource_settings" where
  "settings_for name c = (case map_of (cxSettings c) name of Some s \<Rightarrow> s | None \<Rightarrow> default_settings)"

definition put_settings ::
  "string \<Rightarrow> resource_settings \<Rightarrow> connection \<Rightarrow> (string \<times> resource_settings) list \<times> connection" where
  "put_settings name s c = (let c1 = c\<lparr>cxSettings := assoc_set name s (cxSettings c)\<rparr> in (cxSettings c1, c1))"

subsection \<open>Many callers at once\<close>

text \<open>
  The interleavings of any number of callers of \<open>Control\<close> with goroutines that open and close streams of
  their own (\<open>feeds\<close>) and with the end of the session. Each step is one look at the state under the lock or
  one exchange with the outside.
\<close>

datatype caller = Dialing | Opened nat | Dialed docker | Returned "go_error + docker"

record shared =
  shConn :: connection
  shWorld :: world
  callers :: "nat \<Rightarrow> caller option"
  feeds :: "nat set"

definition set_caller :: "nat \<Rightarrow> caller \<Rightarrow> shared \<Rightarrow> shared" where
  "set_caller i p s = s\<lparr>callers := (callers s)(i \<mapsto> p)\<rparr>"

inductive shared_step :: "shared \<Rightarrow> shared \<Rightarrow> bool" where
  finds: "callers s i = None \<Longrightarrow> control_check (shConn s) = Some r \<Longrightarrow> shared_step s (set_caller i (Returned r) s)"
| misses: "callers s i = None \<Longrightarrow> control_check (shConn s) = None \<Longrightarrow> shared_step s (set_caller i Dialing s)"
| opens: "callers s i = Some Dialing \<Longrightarrow> dial_open (shConn s) (shWorld s) = (r, c', w') \<Longrightarrow>
    shared_step s (set_caller i (case r of Inl e \<Rightarrow> Returned (Inl e) | Inr n \<Rightarrow> Opened n) (s\<lparr>shConn := c', shWorld := w'\<rparr>))"
| negotiates: "callers s i = Some (Opened n) \<Longrightarrow> dial_negotiate n (shWorld s) = (r, w') \<Longrightarrow>
    shared_step s (set_caller i (case r of Inl e \<Rightarrow> Returned (Inl e) | Inr d \<Rightarrow> Dialed d) (s\<lparr>shWorld := w'\<rparr>))"
| installs: "callers s i = Some (Dialed d) \<Longrightarrow> control_install d (shConn s) (shWorld s) = (r, c', w') \<Longrightarrow>
    shared_step s (set_caller i (Returned r) (s\<lparr>shConn := c', shWorld := w'\<rparr>))"
| feed_opens: "dial_open (shConn s) (shWorld s) = (r, c', w') \<Longrightarrow>
    shared_step s (s\<lparr>shConn := c', shWorld := w', feeds := (case r of Inl _ \<Rightarrow> feeds s | Inr n \<Rightarrow> insert n (feeds s))\<rparr>)"
| feed_closes: "dkStream d \<in> feeds s \<Longrightarrow>
    shared_step s (s\<lparr>shWorld := close_client d (shWorld s), feeds := feeds s - {dkStream d}\<rparr>)"
| session_ends: "conn_close (shConn s) (shWorld s) = (c', w') \<Longrightarrow> shared_step s (s\<lparr>shConn := c', shWorld := w'\<rparr>)"

inductive shared_steps :: "shared \<Rightarrow> shared \<Rightarrow> bool" where
  none: "shared_steps s s"
| snoc: "shared_steps s t \<Longrightarrow> shared_step t u \<Longrightarrow> shared_steps s u"

definition shared_start :: "string \<Rightarrow> world \<Rightarrow> shared" where
  "shared_start session w = \<lparr>shConn = new_connection session, shWorld = w, callers = (\<lambda>_. None), feeds = live_streams w\<rparr>"

datatype owner = OwnControl | OwnCaller nat | OwnFeed

fun owns :: "shared \<Rightarrow> owner \<Rightarrow> nat \<Rightarrow> bool" where
  "owns s OwnControl n = (\<exists>d. cxControl (shConn s) = Some d \<and> dkStream d = n)"
| "owns s (OwnCaller i) n = (callers s i = Some (Opened n) \<or> (\<exists>d. callers s i = Some (Dialed d) \<and> dkStream d = n))"
| "owns s OwnFeed n = (n \<in> feeds s)"

definition shared_inv :: "shared \<Rightarrow> bool" where
  "shared_inv s =
     ((\<forall>n. n \<in> live_streams (shWorld s) \<longleftrightarrow> (\<exists>x. owns s x n))
      \<and> (\<forall>n x y. owns s x n \<longrightarrow> owns s y n \<longrightarrow> x = y)
      \<and> (cxClosed (shConn s) \<longrightarrow> cxControl (shConn s) = None)
      \<and> (\<forall>i d. callers s i = Some (Returned (Inr d)) \<longrightarrow> cxControl (shConn s) = Some d \<or> cxClosed (shConn s)))"

lemma owns_cases:
  "owns s x n \<longleftrightarrow>
     (case x of
        OwnControl \<Rightarrow> (\<exists>d. cxControl (shConn s) = Some d \<and> dkStream d = n)
      | OwnCaller i \<Rightarrow> callers s i = Some (Opened n) \<or> (\<exists>d. callers s i = Some (Dialed d) \<and> dkStream d = n)
      | OwnFeed \<Rightarrow> n \<in> feeds s)"
  by (cases x) auto

lemma shared_invI:
  assumes "\<And>n x. owns s x n \<Longrightarrow> n \<in> live_streams (shWorld s)"
    and "\<And>n. n \<in> live_streams (shWorld s) \<Longrightarrow> \<exists>x. owns s x n"
    and "\<And>n x y. owns s x n \<Longrightarrow> owns s y n \<Longrightarrow> x = y"
    and "cxClosed (shConn s) \<Longrightarrow> cxControl (shConn s) = None"
    and "\<And>i d. callers s i = Some (Returned (Inr d)) \<Longrightarrow> cxControl (shConn s) = Some d \<or> cxClosed (shConn s)"
  shows "shared_inv s"
  using assms unfolding shared_inv_def by blast

text \<open>One stream changes hands, appears, or goes; every other stream keeps its owner.\<close>

lemma shared_inv_change:
  assumes inv: "shared_inv s"
    and owners: "\<And>x m. owns t x m \<longleftrightarrow> (if m \<in> new then x = who else owns s x m \<and> m \<notin> lost)"
    and live: "live_streams (shWorld t) = (live_streams (shWorld s) - lost) \<union> new"
    and closed: "cxClosed (shConn t) \<Longrightarrow> cxControl (shConn t) = None"
    and same: "\<And>i d. callers t i = Some (Returned (Inr d)) \<Longrightarrow> cxControl (shConn t) = Some d \<or> cxClosed (shConn t)"
  shows "shared_inv t"
proof (rule shared_invI)
  have i1: "\<And>n. n \<in> live_streams (shWorld s) \<longleftrightarrow> (\<exists>x. owns s x n)"
    and i2: "\<And>n x y. owns s x n \<Longrightarrow> owns s y n \<Longrightarrow> x = y"
    using inv unfolding shared_inv_def by blast+
  show "n \<in> live_streams (shWorld t)" if "owns t x n" for n x
    using that i1 unfolding owners live by (auto split: if_splits)
  show "\<exists>x. owns t x n" if "n \<in> live_streams (shWorld t)" for n
    using that i1 unfolding owners live by auto
  show "x = y" if "owns t x n" "owns t y n" for n x y
    using that i2 unfolding owners by (auto split: if_splits)
  show "cxControl (shConn t) = None" if "cxClosed (shConn t)" using that by (rule closed)
  show "cxControl (shConn t) = Some d \<or> cxClosed (shConn t)" if "callers t i = Some (Returned (Inr d))" for i d
    using that by (rule same)
qed

lemma dial_open_cases:
  assumes "dial_open c w = (r, c', w')"
  obtains n where "r = Inr n" "c' = c" "n \<notin> live_streams w" "live_streams w' = insert n (live_streams w)"
  | e where "r = Inl e" "c' = c" "live_streams w' = live_streams w"
  | "r = Inl ErrSessionGone" "c' = c\<lparr>cxClosed := True, cxControl := None\<rparr>"
    "live_streams w' = live_streams w - (case cxControl c of None \<Rightarrow> {} | Some d \<Rightarrow> {dkStream d})"
  using assms open_exec_live [of "cxSession c" w]
  by (auto simp: dial_open_def mark_gone_def close_control_def split: prod.splits sum.splits if_splits option.splits)

lemma dial_negotiate_cases:
  assumes "dial_negotiate n w = (r, w')"
  obtains d where "r = Inr d" "dkStream d = n" "live_streams w' = live_streams w"
  | e where "r = Inl e" "live_streams w' = live_streams w - {n}"
  using assms live_negotiate [of "new_client n" w]
  by (auto simp: dial_negotiate_def new_client_def split: prod.splits sum.splits)

lemma set_caller_simps [simp]:
  "shConn (set_caller i p s) = shConn s" "shWorld (set_caller i p s) = shWorld s" "feeds (set_caller i p s) = feeds s"
  "callers (set_caller i p s) = (callers s)(i \<mapsto> p)"
  by (simp_all add: set_caller_def)

lemma shared_inv_parts:
  assumes "shared_inv s"
  shows "cxClosed (shConn s) \<Longrightarrow> cxControl (shConn s) = None"
    and "callers s i = Some (Returned (Inr d)) \<Longrightarrow> cxControl (shConn s) = Some d \<or> cxClosed (shConn s)"
    and "owns s x n \<Longrightarrow> owns s y n \<Longrightarrow> x = y"
    and "owns s x n \<Longrightarrow> n \<in> live_streams (shWorld s)"
  using assms unfolding shared_inv_def by blast+

lemma own_caller:
  assumes inv: "shared_inv s" and own: "owns s (OwnCaller i) n"
  shows "cxControl (shConn s) = Some d \<Longrightarrow> dkStream d \<noteq> n" and "n \<notin> feeds s"
    and "j \<noteq> i \<Longrightarrow> callers s j \<noteq> Some (Opened n)" and "j \<noteq> i \<Longrightarrow> dkStream d = n \<Longrightarrow> callers s j \<noteq> Some (Dialed d)"
  using shared_inv_parts(3) [OF inv own, of OwnControl] shared_inv_parts(3) [OF inv own, of OwnFeed]
    shared_inv_parts(3) [OF inv own, of "OwnCaller j"] by auto

lemma own_feed:
  assumes inv: "shared_inv s" and own: "n \<in> feeds s"
  shows "cxControl (shConn s) = Some d \<Longrightarrow> dkStream d \<noteq> n"
    and "callers s j \<noteq> Some (Opened n)" and "dkStream d = n \<Longrightarrow> callers s j \<noteq> Some (Dialed d)"
  using shared_inv_parts(3) [OF inv, of OwnFeed n OwnControl] shared_inv_parts(3) [OF inv, of OwnFeed n "OwnCaller j"] own
  by auto

lemma own_none:
  assumes inv: "shared_inv s" and own: "n \<notin> live_streams (shWorld s)"
  shows "cxControl (shConn s) = Some d \<Longrightarrow> dkStream d \<noteq> n" and "n \<notin> feeds s"
    and "callers s j \<noteq> Some (Opened n)" and "dkStream d = n \<Longrightarrow> callers s j \<noteq> Some (Dialed d)"
  using shared_inv_parts(4) [OF inv, of OwnFeed n] shared_inv_parts(4) [OF inv, of "OwnCaller j" n]
    shared_inv_parts(4) [OF inv, of OwnControl n] own
  by auto

lemma shared_inv_gone:
  assumes inv: "shared_inv s" and c: "c' = (shConn s)\<lparr>cxClosed := True, cxControl := None\<rparr>"
    and w: "live_streams w' = live_streams (shWorld s) - (case cxControl (shConn s) of None \<Rightarrow> {} | Some d \<Rightarrow> {dkStream d})"
  shows "shared_inv (s\<lparr>shConn := c', shWorld := w'\<rparr>)"
proof (rule shared_inv_change [OF inv, where new = "{}" and who = OwnFeed
      and lost = "case cxControl (shConn s) of None \<Rightarrow> {} | Some d \<Rightarrow> {dkStream d}"])
  show "owns (s\<lparr>shConn := c', shWorld := w'\<rparr>) x m \<longleftrightarrow>
      (if m \<in> {} then x = OwnFeed
       else owns s x m \<and> m \<notin> (case cxControl (shConn s) of None \<Rightarrow> {} | Some d \<Rightarrow> {dkStream d}))" for x m
    using shared_inv_parts(3) [OF inv, of x m OwnControl] by (cases x) (auto simp: c split: option.splits)
qed (simp_all add: c w)

lemma shared_inv_step:
  assumes "shared_step s t" and inv: "shared_inv s"
  shows "shared_inv t"
  using assms(1)
proof cases
  case (finds i r)
  show ?thesis
    unfolding finds
    by (rule shared_inv_change [OF inv, where new = "{}" and lost = "{}" and who = OwnFeed])
      (use finds(2,3) shared_inv_parts(1,2) [OF inv] in
        \<open>auto simp: owns_cases control_check_def split: owner.splits if_splits\<close>)
next
  case (misses i)
  show ?thesis
    unfolding misses
    by (rule shared_inv_change [OF inv, where new = "{}" and lost = "{}" and who = OwnFeed])
      (use misses(2) shared_inv_parts(1,2) [OF inv] in \<open>auto simp: owns_cases split: owner.splits if_splits\<close>)
next
  case (negotiates i n r w')
  from negotiates(3) show ?thesis
  proof (cases rule: dial_negotiate_cases)
    case (1 d)
    show ?thesis
      unfolding negotiates(1)
      by (rule shared_inv_change [OF inv, where new = "{}" and lost = "{}" and who = OwnFeed])
        (use negotiates(2) 1 shared_inv_parts(1,2) [OF inv] in \<open>auto simp: owns_cases split: owner.splits if_splits\<close>)
  next
    case (2 e)
    have own: "owns s (OwnCaller i) n" using negotiates(2) by simp
    show ?thesis
      unfolding negotiates(1)
      by (rule shared_inv_change [OF inv, where new = "{}" and lost = "{n}" and who = OwnFeed])
        (use negotiates(2) 2 shared_inv_parts(1,2) [OF inv] own_caller [OF inv own] in
          \<open>auto simp: owns_cases split: owner.splits if_splits\<close>)
  qed
next
  case (session_ends c' w')
  show ?thesis
    unfolding session_ends(1)
    by (rule shared_inv_gone [OF inv])
      (use session_ends(2) in \<open>auto simp: conn_close_def close_control_def split: option.splits\<close>)
next
  case (feed_closes d)
  show ?thesis
    unfolding feed_closes(1)
    by (rule shared_inv_change [OF inv, where new = "{}" and lost = "{dkStream d}" and who = OwnFeed])
      (use shared_inv_parts(1,2) [OF inv] own_feed [OF inv feed_closes(2)] in
        \<open>auto simp: owns_cases split: owner.splits if_splits\<close>)
next
  case (feed_opens r c' w')
  from feed_opens(2) show ?thesis
  proof (cases rule: dial_open_cases)
    case (1 n)
    show ?thesis
      unfolding feed_opens(1)
      by (rule shared_inv_change [OF inv, where new = "{n}" and lost = "{}" and who = OwnFeed])
        (use 1 shared_inv_parts(1,2) [OF inv] own_none [OF inv 1(3)] in
          \<open>auto simp: owns_cases split: owner.splits if_splits\<close>)
  next
    case (2 e)
    show ?thesis
      unfolding feed_opens(1)
      by (rule shared_inv_change [OF inv, where new = "{}" and lost = "{}" and who = OwnFeed])
        (use 2 shared_inv_parts(1,2) [OF inv] in \<open>auto simp: owns_cases split: owner.splits if_splits\<close>)
  next
    case 3
    show ?thesis
      unfolding feed_opens(1) using shared_inv_gone [OF inv 3(2,3)] by (simp add: 3(1))
  qed
next
  case (opens i r c' w')
  from opens(3) show ?thesis
  proof (cases rule: dial_open_cases)
    case (1 n)
    show ?thesis
      unfolding opens(1)
      by (rule shared_inv_change [OF inv, where new = "{n}" and lost = "{}" and who = "OwnCaller i"])
        (use opens(2) 1 shared_inv_parts(1,2) [OF inv] own_none [OF inv 1(3)] in
          \<open>auto simp: owns_cases split: owner.splits if_splits\<close>)
  next
    case (2 e)
    show ?thesis
      unfolding opens(1)
      by (rule shared_inv_change [OF inv, where new = "{}" and lost = "{}" and who = OwnFeed])
        (use opens(2) 2 shared_inv_parts(1,2) [OF inv] in \<open>auto simp: owns_cases split: owner.splits if_splits\<close>)
  next
    case 3
    from shared_inv_gone [OF inv 3(2,3)] show ?thesis
      unfolding opens(1)
      by (rule shared_inv_change [where new = "{}" and lost = "{}" and who = OwnFeed])
        (use opens(2) 3 in \<open>auto simp: owns_cases split: owner.splits if_splits\<close>)
  qed
next
  case (installs i d r c' w')
  have own: "owns s (OwnCaller i) (dkStream d)" using installs(2) by simp
  show ?thesis
  proof (cases "cxClosed (shConn s) \<or> cxControl (shConn s) \<noteq> None")
    case True
    show ?thesis
      unfolding installs(1)
      by (rule shared_inv_change [OF inv, where new = "{}" and lost = "{dkStream d}" and who = OwnFeed])
        (use True installs(2,3) shared_inv_parts(1,2) [OF inv] own_caller [OF inv own] in
          \<open>auto simp: owns_cases control_install_def split: owner.splits if_splits option.splits\<close>)
  next
    case False
    show ?thesis
      unfolding installs(1)
      by (rule shared_inv_change [OF inv, where new = "{dkStream d}" and lost = "{}" and who = OwnControl])
        (use False installs(2,3) shared_inv_parts(1,2) [OF inv] own_caller [OF inv own] shared_inv_parts(4) [OF inv own] in
          \<open>auto simp: owns_cases control_install_def split: owner.splits if_splits option.splits\<close>)
  qed
qed

lemma shared_inv_start: "shared_inv (shared_start session w)"
  by (rule shared_invI) (auto simp: shared_start_def new_connection_def owns_cases split: owner.splits)

lemma shared_inv_steps: "shared_steps s t \<Longrightarrow> shared_inv s \<Longrightarrow> shared_inv t"
  by (induction rule: shared_steps.induct) (auto intro: shared_inv_step)

text \<open>
  C16. A session has one shared daemon connection and leaks none: in every interleaving of callers of Control
  (who look, dial without the lock, negotiate and look again) with other streams opening and closing and
  the session ending, every stream that is open belongs to exactly one owner - the shared client, one caller
  still dialing, or one feed - so the loser of a race closes the stream it opened; and while the session
  lasts all callers that were given a client were given the same one.
\<close>

theorem control_single_owner:
  assumes "shared_steps (shared_start session w) s"
  shows "(\<forall>n. (n \<in> live_streams (shWorld s) \<longrightarrow> (\<exists>!x. owns s x n)) \<and> (n \<notin> live_streams (shWorld s) \<longrightarrow> (\<nexists>x. owns s x n)))
    \<and> (\<not> cxClosed (shConn s) \<longrightarrow>
        (\<forall>i j d d'. callers s i = Some (Returned (Inr d)) \<longrightarrow> callers s j = Some (Returned (Inr d')) \<longrightarrow> d = d'))"
proof -
  have inv: "shared_inv s" by (rule shared_inv_steps [OF assms shared_inv_start])
  have "\<exists>!x. owns s x n" if "n \<in> live_streams (shWorld s)" for n
    using that inv unfolding shared_inv_def by (metis (no_types))
  moreover have "\<nexists>x. owns s x n" if "n \<notin> live_streams (shWorld s)" for n
    using that shared_inv_parts(4) [OF inv] by blast
  moreover have "d = d'" if "\<not> cxClosed (shConn s)" "callers s i = Some (Returned (Inr d))"
      "callers s j = Some (Returned (Inr d'))" for i j d d'
    using that shared_inv_parts(2) [OF inv, of i d] shared_inv_parts(2) [OF inv, of j d'] by simp
  ultimately show ?thesis by blast
qed

text \<open>A daemon that answers everything with an empty object.\<close>

definition greeting_world :: world where
  "greeting_world = quiet_world\<lparr>wHttp := (\<lambda>es n m t b. Answer 200 ''{}'')\<rparr>"

lemma greeting_oracles [simp]:
  "wOpen greeting_world = (\<lambda>es s. None)" "wHttp greeting_world = (\<lambda>es n m t b. Answer 200 ''{}'')" "wTrace greeting_world = []"
  "wCall greeting_world = (\<lambda>es m p. Inr None)"
  by (simp_all add: greeting_world_def quiet_world_def)

lemma happen_oracles [simp]: "wOpen (happen e w) = wOpen w" "wHttp (happen e w) = wHttp w" "wCall (happen e w) = wCall w"
  "wTrace (happen e w) = wTrace w @ [e]"
  by (simp_all add: happen_def)

lemma dial_negotiate_greeting:
  assumes "wHttp w = (\<lambda>es n m t b. Answer 200 ''{}'')"
  shows "dial_negotiate n w = (Inr (new_client n), happen (EvHttp n ''GET'' ''/version'' None) w)"
proof -
  have "url_ok (request_target ''/version'' [])" "request_target ''/version'' [] = ''/version''" by code_simp+
  moreover have "decode_one dec_version \<lparr>vrApiVersion = [], vrMinAPIVersion = [], vrVersion = []\<rparr> ''{}''
      = Some \<lparr>vrApiVersion = [], vrMinAPIVersion = [], vrVersion = []\<rparr>" by code_simp
  moreover have "negotiated_version [] = MaxAPIVersion" by (simp add: negotiated_version_def)
  ultimately show ?thesis
    by (simp add: dial_negotiate_def negotiate_def do_exchange_def assms new_client_def)
qed

lemma dial_open_accepted:
  assumes "wOpen w = (\<lambda>es s. None)"
  shows "dial_open c w = (Inr (opened (wTrace w)), c, happen (EvOpen (cxSession c)) w)"
  by (simp add: dial_open_def open_exec_def assms)

lemma sample_race:
  "\<exists>s. shared_steps (shared_start ''a'' greeting_world) s \<and> live_streams (shWorld s) = {0} \<and> opened (wTrace (shWorld s)) = 2
     \<and> callers s 0 = Some (Returned (Inr (new_client 0))) \<and> callers s 1 = Some (Returned (Inr (new_client 0)))"
proof -
  let ?c = "new_connection ''a''" and ?v = "\<lambda>n. EvHttp n ''GET'' ''/version'' None"
  define s0 where "s0 = shared_start ''a'' greeting_world"
  define w1 where "w1 = happen (EvOpen ''a'') greeting_world"
  define w2 where "w2 = happen (EvOpen ''a'') w1"
  define w3 where "w3 = happen (?v 0) w2"
  define w4 where "w4 = happen (?v 1) w3"
  define s2 where "s2 = set_caller 1 Dialing (set_caller 0 Dialing s0)"
  define s3 where "s3 = set_caller 0 (Opened 0) (s2\<lparr>shConn := ?c, shWorld := w1\<rparr>)"
  define s4 where "s4 = set_caller 1 (Opened 1) (s3\<lparr>shConn := ?c, shWorld := w2\<rparr>)"
  define s5 where "s5 = set_caller 0 (Dialed (new_client 0)) (s4\<lparr>shWorld := w3\<rparr>)"
  define s6 where "s6 = set_caller 1 (Dialed (new_client 1)) (s5\<lparr>shWorld := w4\<rparr>)"
  define s7 where "s7 = set_caller 0 (Returned (Inr (new_client 0))) (s6\<lparr>shConn := ?c\<lparr>cxControl := Some (new_client 0)\<rparr>, shWorld := w4\<rparr>)"
  define s8 where "s8 = set_caller 1 (Returned (Inr (new_client 0)))
      (s7\<lparr>shConn := ?c\<lparr>cxControl := Some (new_client 0)\<rparr>, shWorld := close_client (new_client 1) w4\<rparr>)"
  note states = s0_def s2_def s3_def s4_def s5_def s6_def s7_def s8_def shared_start_def
  note worlds = w1_def w2_def w3_def w4_def
  have a: "shared_step s0 (set_caller 0 Dialing s0)" "shared_step (set_caller 0 Dialing s0) s2"
    unfolding s2_def by (rule shared_step.misses; simp add: states control_check_def new_connection_def)+
  have b: "shared_step s2 s3"
    using shared_step.opens [of s2 0 "Inr 0" ?c w1]
    by (simp add: states worlds dial_open_accepted new_connection_def)
  have c: "shared_step s3 s4"
    using shared_step.opens [of s3 1 "Inr 1" ?c w2]
    by (simp add: states worlds dial_open_accepted new_connection_def)
  have d: "shared_step s4 s5"
    using shared_step.negotiates [of s4 0 0 "Inr (new_client 0)" w3]
    by (simp add: states worlds dial_negotiate_greeting)
  have e: "shared_step s5 s6"
    using shared_step.negotiates [of s5 1 1 "Inr (new_client 1)" w4]
    by (simp add: states worlds dial_negotiate_greeting)
  have f: "shared_step s6 s7"
    unfolding s7_def by (rule shared_step.installs; simp add: states control_install_def new_connection_def)
  have g: "shared_step s7 s8"
    unfolding s8_def by (rule shared_step.installs; simp add: states control_install_def new_connection_def)
  have "shared_steps s0 s8"
    by (rule shared_steps.snoc [OF _ g] shared_steps.snoc [OF _ f] shared_steps.snoc [OF _ e] shared_steps.snoc [OF _ d]
        shared_steps.snoc [OF _ c] shared_steps.snoc [OF _ b] shared_steps.snoc [OF _ a(2)] shared_steps.snoc [OF _ a(1)] shared_steps.none)+
  moreover have "live_streams (shWorld s8) = {0}"
    by (auto simp: s8_def worlds new_client_def live_streams_def [of greeting_world])
  moreover have "opened (wTrace (shWorld s8)) = 2" by (simp add: s8_def worlds close_client_def opened_def)
  ultimately show ?thesis by (intro exI [of _ s8]) (simp add: s0_def states)
qed

lemma control_single_owner_witness:
  "\<exists>s. shared_steps (shared_start ''a'' greeting_world) s \<and> opened (wTrace (shWorld s)) = 2 \<and> (\<exists>!x. owns s x 0) \<and> (\<nexists>x. owns s x 1)"
proof -
  obtain s where s: "shared_steps (shared_start ''a'' greeting_world) s" "live_streams (shWorld s) = {0}"
      "opened (wTrace (shWorld s)) = 2"
    using sample_race by blast
  from control_single_owner [OF s(1)] have "\<exists>!x. owns s x 0" "\<nexists>x. owns s x 1"
    using s(2) by (blast, auto)
  with s show ?thesis by blast
qed

subsection \<open>One caller at a time\<close>

lemma control_closed: "cxClosed c \<Longrightarrow> control c w = (Inl ErrNoDocker, c, w)"
  by (simp add: control_def control_check_def)

lemma control_open: "\<not> cxClosed c \<Longrightarrow> cxControl c = Some d \<Longrightarrow> control c w = (Inr d, c, w)"
  by (simp add: control_def control_check_def)

lemma dial_keeps: "dial c w = (Inr d, c1, w1) \<Longrightarrow> c1 = c"
  by (auto simp: dial_def dial_open_def Let_def split: prod.splits sum.splits if_splits)

lemma control_Inr:
  assumes "control c w = (Inr d, c1, w1)"
  shows "\<not> cxClosed c \<and> c1 = c\<lparr>cxControl := Some d\<rparr>"
  using assms dial_keeps [of c w]
  by (auto simp: control_def control_check_def control_install_def split: if_splits option.splits prod.splits sum.splits)

lemma control_Inl:
  assumes "control c w = (Inl e, c1, w1)"
  shows "c1 = c \<or> c1 = c\<lparr>cxClosed := True, cxControl := None\<rparr>"
  using assms dial_keeps [of c w]
  by (auto simp: control_def control_check_def control_install_def dial_def dial_open_def mark_gone_def Let_def
      split: if_splits option.splits prod.splits sum.splits)

lemma control_keeps:
  assumes "control c w = (r, c1, w1)"
  shows "cxSession c1 = cxSession c \<and> cxObserved c1 = cxObserved c \<and> cxResolved c1 = cxResolved c \<and> cxSettings c1 = cxSettings c"
  using assms control_Inr [of c w _ c1 w1] control_Inl [of c w _ c1 w1] by (cases r) auto

text \<open>
  C17. A host's refusal ends the session's connection once and for all, anything else does not: when the host
  refuses a stream with a denial, however wrapped, the caller gets the session-gone error, the shared client
  is closed and forgotten, and from then on asking for the client fails with no traffic at all; any other
  failure leaves the connection as it was, to be tried again.
\<close>

theorem refusal_ends_connection:
  assumes "wOpen w (wTrace w) (cxSession c) = Some e"
  shows "if errors_is ErrHostDenied e
    then \<exists>c1 w1. open_stream c w = (Inl ErrSessionGone, c1, w1) \<and> gone c1
      \<and> live_streams w1 = live_streams w - (case cxControl c of None \<Rightarrow> {} | Some d \<Rightarrow> {dkStream d})
      \<and> (\<forall>w'. control c1 w' = (Inl ErrNoDocker, c1, w'))
    else open_stream c w = (Inl e, c, happen (EvOpen (cxSession c)) w)"
  using assms
  by (auto simp: open_stream_def dial_def dial_open_def open_exec_def mark_gone_def close_control_def is_session_gone_def
      gone_def control_closed split: option.splits)

lemma refusal_ends_connection_witness:
  "\<exists>c1 w1. open_stream (new_connection ''a'') (quiet_world\<lparr>wOpen := (\<lambda>es s. Some (EWrap2 ErrHostDenied (ERpc (-32001) ''x'')))\<rparr>)
     = (Inl ErrSessionGone, c1, w1) \<and> gone c1"
  using refusal_ends_connection [of "quiet_world\<lparr>wOpen := (\<lambda>es s. Some (EWrap2 ErrHostDenied (ERpc (-32001) ''x'')))\<rparr>"
      "new_connection ''a''"]
  by (auto simp: errors_is_def)

lemma resolve_iff:
  "resolve node c = Inr (k, i) \<longleftrightarrow> parse_instance_id node = Inr (k, i) \<and> valid_docker_id i \<and> cxResolved c node = Some i"
  by (auto simp: resolve_def split: sum.splits option.splits if_splits)

text \<open>
  An action can only reach what the tree published: a node id resolves exactly when it is the id of a
  known kind with a valid Docker id and this session recorded that very id for it; nothing else that a caller
  names gets past.
\<close>

theorem resolve_published_only:
  "resolve node c = Inr (k, i) \<longleftrightarrow>
     known_kind k \<and> valid_docker_id i \<and> node = instance_id k i \<and> cxResolved c node = Some i"
  using parse_instance_id_iff [of node k i] resolve_iff [of node c k i] by blast

subsection \<open>Dialing calls nobody but the daemon\<close>

lemma uncalled_close_control [simp, intro]: "uncalled w (close_control c w)"
  by (auto simp: close_control_def split: option.splits)

lemma uncalled_dial_open: "uncalled w (snd (snd (dial_open c w)))"
  using uncalled_open_exec [of w "cxSession c"]
  by (auto simp: dial_open_def mark_gone_def split: prod.splits sum.splits intro: uncalled_trans)

lemma uncalled_dial_negotiate: "uncalled w (snd (dial_negotiate n w))"
  using uncalled_negotiate [of w "new_client n"]
  by (auto simp: dial_negotiate_def split: prod.splits sum.splits intro: uncalled_trans)

lemma uncalled_dial: "uncalled w (snd (snd (dial c w)))"
proof -
  obtain r c1 w1 where o: "dial_open c w = (r, c1, w1)" by (rule prod_cases3)
  have "uncalled w w1" using uncalled_dial_open [of w c] by (simp add: o)
  then show ?thesis
    using uncalled_trans [OF _ uncalled_dial_negotiate, of w w1]
    by (cases r) (simp_all add: dial_def o Let_def split_beta)
qed

lemma uncalled_control: "uncalled w (snd (snd (control c w)))"
proof -
  obtain r c1 w1 where d: "dial c w = (r, c1, w1)" by (rule prod_cases3)
  have "uncalled w w1" using uncalled_dial [of w c] by (simp add: d)
  then show ?thesis
    by (auto simp: control_def control_install_def d split: sum.splits option.splits intro: uncalled_trans)
qed

end
