(* ===== verification/Encoding.thy ===== *)
theory Encoding
  imports Json
begin

text \<open>
  What the plugin uses of \<open>encoding/base64\<close> (\<open>StdEncoding\<close> and \<open>RawURLEncoding\<close>) and the indented printing of
  \<open>encoding/json\<close> (\<open>MarshalIndent\<close> and \<open>Encoder.SetIndent\<close> with two spaces), with their round trips.
\<close>

subsection \<open>Base64\<close>

definition std_char :: "nat \<Rightarrow> char" where
  "std_char n = (if n < 26 then char_of (65 + n) else if n < 52 then char_of (71 + n)
     else if n < 62 then char_of (n - 4) else if n = 62 then CHR ''+'' else CHR ''/'')"

definition url_alphabet :: "nat \<Rightarrow> char" where
  "url_alphabet n = (if n = 62 then CHR ''-'' else if n = 63 then CHR ''_'' else std_char n)"

definition std_val :: "char \<Rightarrow> nat option" where
  "std_val c =
     (let n = byte_val c in
      if 65 \<le> n \<and> n \<le> 90 then Some (n - 65)
      else if 97 \<le> n \<and> n \<le> 122 then Some (n - 71)
      else if 48 \<le> n \<and> n \<le> 57 then Some (n + 4)
      else if c = CHR ''+'' then Some 62 else if c = CHR ''/'' then Some 63 else None)"

fun b64_encode :: "(nat \<Rightarrow> char) \<Rightarrow> bool \<Rightarrow> string \<Rightarrow> string" where
  "b64_encode t pad [] = []"
| "b64_encode t pad [a] =
     [t (byte_val a div 4), t (byte_val a mod 4 * 16)] @ (if pad then ''=='' else [])"
| "b64_encode t pad [a, b] =
     [t (byte_val a div 4), t (byte_val a mod 4 * 16 + byte_val b div 16), t (byte_val b mod 16 * 4)] @ (if pad then ''='' else [])"
| "b64_encode t pad (a # b # c # s) =
     [t (byte_val a div 4), t (byte_val a mod 4 * 16 + byte_val b div 16),
      t (byte_val b mod 16 * 4 + byte_val c div 64), t (byte_val c mod 64)] @ b64_encode t pad s"

definition base64_std :: "string \<Rightarrow> string" where "base64_std s = b64_encode std_char True s"
definition base64_raw_url :: "string \<Rightarrow> string" where "base64_raw_url s = b64_encode url_alphabet False s"

text \<open>The decoder skips line breaks; the last group may be padded; bits that are left over are dropped.\<close>

definition byte_1 :: "nat \<Rightarrow> nat \<Rightarrow> char" where "byte_1 x y = char_of (x * 4 + y div 16)"
definition byte_2 :: "nat \<Rightarrow> nat \<Rightarrow> char" where "byte_2 y z = char_of (y mod 16 * 16 + z div 4)"
definition byte_3 :: "nat \<Rightarrow> nat \<Rightarrow> char" where "byte_3 z u = char_of (z mod 4 * 64 + u)"

fun b64_groups :: "string \<Rightarrow> string option" where
  "b64_groups [] = Some []"
| "b64_groups (a # b # c # d # s) =
     (case (std_val a, std_val b) of
        (Some x, Some y) \<Rightarrow>
          if c = CHR ''='' then (if d = CHR ''='' \<and> s = [] then Some [byte_1 x y] else None)
          else
            (case std_val c of
               None \<Rightarrow> None
             | Some z \<Rightarrow>
                 if d = CHR ''='' then (if s = [] then Some [byte_1 x y, byte_2 y z] else None)
                 else
                   (case std_val d of
                      None \<Rightarrow> None
                    | Some u \<Rightarrow> map_option (\<lambda>r. byte_1 x y # byte_2 y z # byte_3 z u # r) (b64_groups s)))
      | _ \<Rightarrow> None)"
| "b64_groups _ = None"

definition base64_std_decode :: "string \<Rightarrow> string option" where
  "base64_std_decode s = b64_groups (filter (\<lambda>c. c \<noteq> CHR 0x0A \<and> c \<noteq> CHR 0x0D) s)"

lemma std_val_char: "n < 64 \<Longrightarrow> std_val (std_char n) = Some n"
  by (auto simp: std_val_def std_char_def byte_val_def Let_def)

lemma std_char_inject: "m < 64 \<Longrightarrow> n < 64 \<Longrightarrow> std_char m = std_char n \<longleftrightarrow> m = n"
  by (metis std_val_char option.inject)

lemma std_char_not: "n < 64 \<Longrightarrow> std_char n \<noteq> CHR ''='' \<and> std_char n \<noteq> CHR 0x0A \<and> std_char n \<noteq> CHR 0x0D"
  using std_val_char [of n] by (auto simp: std_val_def byte_val_def)

text \<open>The four numbers of a group.\<close>

lemma sextets:
  fixes a b c :: nat
  assumes "a < 256" "b < 256" "c < 256"
  shows "a div 4 < 64" "a mod 4 * 16 + b div 16 < 64" "b mod 16 * 4 + c div 64 < 64" "c mod 64 < 64"
    "a mod 4 * 16 < 64" "b mod 16 * 4 < 64"
  using assms by (auto simp: less_mult_imp_div_less intro: order.strict_trans2)

lemma bytes_back:
  fixes a b c :: nat
  shows "a < 256 \<Longrightarrow> b < 256 \<Longrightarrow> a div 4 * 4 + (a mod 4 * 16 + b div 16) div 16 = a"
    and "b < 256 \<Longrightarrow> c < 256 \<Longrightarrow> (a mod 4 * 16 + b div 16) mod 16 * 16 + (b mod 16 * 4 + c div 64) div 4 = b"
    and "c < 256 \<Longrightarrow> (b mod 16 * 4 + c div 64) mod 4 * 64 + c mod 64 = c"
    and "a div 4 * 4 + (a mod 4 * 16) div 16 = a"
    and "b < 256 \<Longrightarrow> (a mod 4 * 16 + b div 16) mod 16 * 16 + (b mod 16 * 4) div 4 = b"
proof -
  have small: "x < 256 \<Longrightarrow> x div 16 < 16" "x < 256 \<Longrightarrow> x div 64 < 4" for x :: nat by simp_all
  show "a < 256 \<Longrightarrow> b < 256 \<Longrightarrow> a div 4 * 4 + (a mod 4 * 16 + b div 16) div 16 = a"
    using small(1) [of b] by simp
  show "b < 256 \<Longrightarrow> c < 256 \<Longrightarrow> (a mod 4 * 16 + b div 16) mod 16 * 16 + (b mod 16 * 4 + c div 64) div 4 = b"
    using small(1) [of b] small(2) [of c] by simp
  show "c < 256 \<Longrightarrow> (b mod 16 * 4 + c div 64) mod 4 * 64 + c mod 64 = c"
    using small(2) [of c] by simp
  show "a div 4 * 4 + (a mod 4 * 16) div 16 = a" by simp
  show "b < 256 \<Longrightarrow> (a mod 4 * 16 + b div 16) mod 16 * 16 + (b mod 16 * 4) div 4 = b"
    using small(1) [of b] by simp
qed

lemma char_of_byte_val [simp]: "char_of (byte_val c) = c"
  by (simp add: byte_val_def)

lemma byte_val_bound [simp]: "byte_val c < 256"
  by (rule byte_val_less)

lemmas byte_sextets = sextets [OF byte_val_bound byte_val_bound byte_val_bound]

lemma byte_codes:
  "byte_1 (byte_val a div 4) (byte_val a mod 4 * 16 + byte_val b div 16) = a"
  "byte_2 (byte_val a mod 4 * 16 + byte_val b div 16) (byte_val b mod 16 * 4 + byte_val c div 64) = b"
  "byte_3 (byte_val b mod 16 * 4 + byte_val c div 64) (byte_val c mod 64) = c"
  "byte_1 (byte_val a div 4) (byte_val a mod 4 * 16) = a"
  "byte_2 (byte_val a mod 4 * 16 + byte_val b div 16) (byte_val b mod 16 * 4) = b"
  by (simp_all only: byte_1_def byte_2_def byte_3_def bytes_back byte_val_bound char_of_byte_val)

lemmas sextet_vals = byte_sextets [THEN std_val_char]
lemmas sextet_chars = byte_sextets [THEN std_char_not]

lemma b64_groups_encode: "b64_groups (b64_encode std_char True s) = Some s"
  by (induction std_char True s rule: b64_encode.induct)
    (simp_all add: sextet_vals sextet_chars byte_codes del: mult_Suc_right)

lemma b64_no_breaks: "filter (\<lambda>c. c \<noteq> CHR 0x0A \<and> c \<noteq> CHR 0x0D) (b64_encode std_char True s) = b64_encode std_char True s"
  by (induction std_char True s rule: b64_encode.induct) (simp_all add: sextet_chars)

lemma base64_roundtrip [simp]: "base64_std_decode (base64_std s) = Some s"
  by (simp add: base64_std_decode_def base64_std_def b64_no_breaks b64_groups_encode)

text \<open>The encoding without padding is injective, and the URL alphabet is safe in a path.\<close>

lemma chunk_cases:
  obtains "s = []" | a where "s = [a]" | a b where "s = [a, b]" | a b c r where "s = a # b # c # r"
  by (cases s; cases "tl s"; cases "tl (tl s)") auto

lemma b64_inject:
  assumes "inj_on t {..<64}" and "b64_encode t False s = b64_encode t False s'"
  shows "s = s'"
  using assms(2)
proof (induction s arbitrary: s' rule: measure_induct_rule [of length])
  case (less s)
  have inj: "t m = t n \<Longrightarrow> m < 64 \<Longrightarrow> n < 64 \<Longrightarrow> m = n" for m n
    using assms(1) by (simp add: inj_on_def)
  show ?case
  proof (cases s rule: chunk_cases)
    case 1
    with less.prems show ?thesis by (cases s' rule: chunk_cases) simp_all
  next
    case (2 a)
    with less.prems obtain a' where s': "s' = [a']" by (cases s' rule: chunk_cases) auto
    have "byte_val a div 4 = byte_val a' div 4"
      by (rule inj [OF _ byte_sextets(1) byte_sextets(1)]) (use less.prems in \<open>simp add: 2 s'\<close>)
    moreover have "byte_val a mod 4 * 16 = byte_val a' mod 4 * 16"
      by (rule inj [OF _ byte_sextets(5) byte_sextets(5)]) (use less.prems in \<open>simp add: 2 s' del: mult_Suc_right\<close>)
    ultimately have "a = a'" by (metis byte_codes(4))
    then show ?thesis by (simp add: 2 s')
  next
    case (3 a b)
    with less.prems obtain a' b' where s': "s' = [a', b']" by (cases s' rule: chunk_cases) auto
    have "byte_val a div 4 = byte_val a' div 4"
      by (rule inj [OF _ byte_sextets(1) byte_sextets(1)]) (use less.prems in \<open>simp add: 3 s'\<close>)
    moreover have "byte_val a mod 4 * 16 + byte_val b div 16 = byte_val a' mod 4 * 16 + byte_val b' div 16"
      by (rule inj [OF _ byte_sextets(2) byte_sextets(2)]) (use less.prems in \<open>simp add: 3 s'\<close>)
    moreover have "byte_val b mod 16 * 4 = byte_val b' mod 16 * 4"
      by (rule inj [OF _ byte_sextets(6) byte_sextets(6)]) (use less.prems in \<open>simp add: 3 s'\<close>)
    ultimately have "a = a'" "b = b'" by (metis byte_codes(1), metis byte_codes(5))
    then show ?thesis by (simp add: 3 s')
  next
    case (4 a b c r)
    with less.prems obtain a' b' c' r' where s': "s' = a' # b' # c' # r'" by (cases s' rule: chunk_cases) auto
    have "byte_val a div 4 = byte_val a' div 4"
      by (rule inj [OF _ byte_sextets(1) byte_sextets(1)]) (use less.prems in \<open>simp add: 4 s'\<close>)
    moreover have "byte_val a mod 4 * 16 + byte_val b div 16 = byte_val a' mod 4 * 16 + byte_val b' div 16"
      by (rule inj [OF _ byte_sextets(2) byte_sextets(2)]) (use less.prems in \<open>simp add: 4 s'\<close>)
    moreover have "byte_val b mod 16 * 4 + byte_val c div 64 = byte_val b' mod 16 * 4 + byte_val c' div 64"
      by (rule inj [OF _ byte_sextets(3) byte_sextets(3)]) (use less.prems in \<open>simp add: 4 s'\<close>)
    moreover have "byte_val c mod 64 = byte_val c' mod 64"
      by (rule inj [OF _ byte_sextets(4) byte_sextets(4)]) (use less.prems in \<open>simp add: 4 s'\<close>)
    ultimately have "a = a'" "b = b'" "c = c'" by (metis byte_codes(1), metis byte_codes(2), metis byte_codes(3))
    moreover have "r = r'" using less.IH [of r r'] less.prems by (simp add: 4 s')
    ultimately show ?thesis by (simp add: 4 s')
  qed
qed

definition url_safe :: "char \<Rightarrow> bool" where
  "url_safe c = (let n = byte_val c in 48 \<le> n \<and> n \<le> 57 \<or> 65 \<le> n \<and> n \<le> 90 \<or> 97 \<le> n \<and> n \<le> 122 \<or> n = 45 \<or> n = 95)"

lemma url_alphabet_safe: "n < 64 \<Longrightarrow> url_safe (url_alphabet n)"
  by (auto simp: url_safe_def url_alphabet_def std_char_def byte_val_def Let_def)

lemma url_alphabet_inj: "inj_on url_alphabet {..<64}"
proof (rule inj_onI)
  fix m n assume mn: "m \<in> {..<64}" "n \<in> {..<64}" and eq: "url_alphabet m = url_alphabet n"
  have swap: "std_char k \<noteq> CHR ''-'' \<and> std_char k \<noteq> CHR ''_''" if "k < 64" for k
    using std_val_char [OF that] by (auto simp: std_val_def byte_val_def)
  show "m = n"
    using mn eq swap std_char_inject by (auto simp: url_alphabet_def split: if_splits)
qed

lemma base64_raw_url_safe: "list_all url_safe (base64_raw_url s)"
  unfolding base64_raw_url_def
  by (induction url_alphabet False s rule: b64_encode.induct) (simp_all add: byte_sextets [THEN url_alphabet_safe])

subsection \<open>Indented JSON\<close>

definition indent :: "nat \<Rightarrow> string" where
  "indent d = CHR 0x0A # replicate (2 * d) (CHR '' '')"

fun print_indent :: "nat \<Rightarrow> json \<Rightarrow> string"
and print_indent_elems :: "nat \<Rightarrow> json list \<Rightarrow> string"
and print_indent_members :: "nat \<Rightarrow> (string \<times> json) list \<Rightarrow> string" where
  "print_indent d JNull = ''null''"
| "print_indent d (JBool b) = (if b then ''true'' else ''false'')"
| "print_indent d (JNum n) = n"
| "print_indent d (JStr r) = quote_char # r @ [quote_char]"
| "print_indent d (JArr vs) =
     (if vs = [] then ''[]'' else ''['' @ indent (d + 1) @ print_indent_elems (d + 1) vs @ indent d @ '']'')"
| "print_indent d (JObj ms) =
     (if ms = [] then ''{}'' else ''{'' @ indent (d + 1) @ print_indent_members (d + 1) ms @ indent d @ ''}'')"
| "print_indent_elems d [] = []"
| "print_indent_elems d (v # vs) =
     print_indent d v @ (if vs = [] then [] else '','' @ indent d @ print_indent_elems d vs)"
| "print_indent_members d [] = []"
| "print_indent_members d ((k, v) # ms) =
     quote_char # k @ quote_char # '': '' @ print_indent d v
       @ (if ms = [] then [] else '','' @ indent d @ print_indent_members d ms)"

lemma skip_ws_indent [simp]: "skip_ws (indent d @ s) = skip_ws s"
proof -
  have "skip_ws (replicate n (CHR '' '') @ s) = skip_ws s" for n
    by (induction n) (simp_all add: skip_ws_def is_ws_def)
  then show ?thesis by (simp add: indent_def) (simp add: skip_ws_def is_ws_def)
qed

lemma skip_ws_space [simp]: "skip_ws (CHR '' '' # s) = skip_ws s"
  by (simp add: skip_ws_def is_ws_def)

lemma parse_value_ws: "skip_ws s = skip_ws t \<Longrightarrow> parse_value n s = parse_value n t"
  by (cases n) simp_all

lemma parse_elems_ws: "skip_ws s = skip_ws t \<Longrightarrow> parse_elems n s = parse_elems n t"
  by (cases n) (simp_all add: parse_value_ws [of s t])

lemma parse_members_ws: "skip_ws s = skip_ws t \<Longrightarrow> parse_members n s = parse_members n t"
  by (cases n) simp_all

lemma ends_indent [simp]: "ends (indent d @ x)"
  by (simp add: indent_def ends_def num_char_def is_digit_def)

lemma print_indent_head:
  assumes "json_ok v"
  shows "\<exists>c t. print_indent d v = c # t \<and> \<not> is_ws c \<and> c \<noteq> CHR '']''"
proof (cases v)
  case (JNum n)
  then obtain c n' where "n = c # n'" "c = CHR ''-'' \<or> is_digit c"
    using assms num_head [of n] by auto
  then show ?thesis using JNum digit_not_special by auto
qed (auto simp: quote_char_def is_ws_def)

lemma parse_print_indent:
  "json_ok v \<Longrightarrow> ends x \<Longrightarrow> 2 * length (print_indent d v) \<le> n \<Longrightarrow>
     parse_value n (print_indent d v @ x) = Some (v, x)"
  "elems_ok vs \<Longrightarrow> vs \<noteq> [] \<Longrightarrow> 2 * length (print_indent_elems d vs) + 1 \<le> n \<Longrightarrow>
     parse_elems n (print_indent_elems d vs @ indent e @ CHR '']'' # x) = Some (vs, x)"
  "members_ok ms \<Longrightarrow> ms \<noteq> [] \<Longrightarrow> 2 * length (print_indent_members d ms) + 1 \<le> n \<Longrightarrow>
     parse_members n (print_indent_members d ms @ indent e @ CHR ''}'' # x) = Some (ms, x)"
proof (induction d v and d vs and d ms arbitrary: n x and n x e and n x e
    rule: print_indent_print_indent_elems_print_indent_members.induct)
  case 1
  then show ?case by (cases n) (simp_all add: skip_ws_stop quote_char_def)
next
  case (2 d b)
  then show ?case by (cases n; cases b) (simp_all add: skip_ws_stop quote_char_def)
next
  case (3 d r)
  then obtain k where "n = Suc k" using num_head [of r] by (cases n) auto
  with 3 show ?case by (simp only: json_ok.simps print_indent.simps parse_number)
next
  case (4 d r)
  then show ?case by (cases n) (simp_all add: skip_ws_stop scan_string_raw)
next
  case (5 d vs)
  show ?case
  proof (cases "vs = []")
    case True
    with 5(4) obtain k where "n = Suc k" by (cases n) simp_all
    then show ?thesis using True by (simp add: skip_ws_stop quote_char_def)
  next
    case False
    with 5(4) obtain k where n: "n = Suc k" and k: "2 * length (print_indent_elems (d + 1) vs) + 1 \<le> k" by (cases n) simp_all
    from False obtain v vs' where vs: "vs = v # vs'" by (cases vs) auto
    obtain c t where c: "print_indent (d + 1) v = c # t" "\<not> is_ws c" "c \<noteq> CHR '']''"
      using print_indent_head [of v "d + 1"] 5(2) vs by auto
    have "parse_elems k (print_indent_elems (d + 1) vs @ indent d @ CHR '']'' # x) = Some (vs, x)"
      using 5(1) [of k d x] 5(2) False k by simp
    moreover have "parse_elems k (indent (d + 1) @ u) = parse_elems k u" for u
      by (rule parse_elems_ws) simp
    ultimately show ?thesis using c by (simp add: n vs skip_ws_stop quote_char_def)
  qed
next
  case (6 d ms)
  show ?case
  proof (cases "ms = []")
    case True
    with 6(4) obtain k where "n = Suc k" by (cases n) simp_all
    then show ?thesis using True by (simp add: skip_ws_stop quote_char_def)
  next
    case False
    with 6(4) obtain k where n: "n = Suc k" and k: "2 * length (print_indent_members (d + 1) ms) + 1 \<le> k" by (cases n) simp_all
    from False obtain key v ms' where ms: "ms = (key, v) # ms'" by (cases ms) auto
    have "parse_members k (print_indent_members (d + 1) ms @ indent d @ CHR ''}'' # x) = Some (ms, x)"
      using 6(1) [of k d x] 6(2) False k by simp
    moreover have "parse_members k (indent (d + 1) @ u) = parse_members k u" for u
      by (rule parse_members_ws) simp
    ultimately show ?thesis
      using skip_ws_stop [OF not_ws(1)] by (simp add: n ms skip_ws_stop) (auto simp: quote_char_def)
  qed
next
  case (8 d v vs)
  then obtain k where n: "n = Suc k" and k: "2 * length (print_indent d v) \<le> k" by (cases n) auto
  show ?case
  proof (cases "vs = []")
    case True
    then show ?thesis using 8(1) [of "indent e @ CHR '']'' # x" k] 8(3) k by (simp add: n skip_ws_stop)
  next
    case False
    have "parse_elems k (print_indent_elems d vs @ indent e @ CHR '']'' # x) = Some (vs, x)"
      using 8(2) [of k e x] 8(3,5) False n by simp
    moreover have "parse_elems k (indent d @ u) = parse_elems k u" for u
      by (rule parse_elems_ws) simp
    ultimately show ?thesis
      using 8(1) [of "CHR '','' # indent d @ print_indent_elems d vs @ indent e @ CHR '']'' # x" k] 8(3) k False
      by (simp add: n skip_ws_stop)
  qed
next
  case (10 d key v ms)
  then obtain k where n: "n = Suc k" and k: "2 * length (print_indent d v) \<le> k" by (cases n) auto
  have space: "parse_value k (CHR '' '' # u) = parse_value k u" for u
    by (rule parse_value_ws) simp
  show ?case
  proof (cases "ms = []")
    case True
    then show ?thesis using 10(1) [of "indent e @ CHR ''}'' # x" k] 10(3) k by (simp add: n skip_ws_stop scan_string_raw space)
  next
    case False
    have "parse_members k (print_indent_members d ms @ indent e @ CHR ''}'' # x) = Some (ms, x)"
      using 10(2) [of k e x] 10(3,5) False n by simp
    moreover have "parse_members k (indent d @ u) = parse_members k u" for u
      by (rule parse_members_ws) simp
    ultimately show ?thesis
      using 10(1) [of "CHR '','' # indent d @ print_indent_members d ms @ indent e @ CHR ''}'' # x" k] 10(3) k False
      by (simp add: n skip_ws_stop scan_string_raw space)
  qed
qed simp_all

lemma parse_all_indent: "json_ok v \<Longrightarrow> parse_all (print_indent d v) = Some v"
  unfolding parse_all_def parse_one_def using parse_print_indent(1) [of v "[]" d "2 * length (print_indent d v) + 1"]
  by (simp add: skip_ws_def)

end
