(* ===== verification/Settings.thy ===== *)
theory Settings
  imports Connection Encoding
begin

text \<open>
  The settings files (\<open>internal/infra/settings/store.go\<close>): one file for every session id, read once and kept in
  a cache, and the host's file calls it goes through. The store is its cache.
\<close>

type_synonym settings_map = "(string \<times> resource_settings) list"
type_synonym store = "string \<Rightarrow> settings_map option"

definition new_store :: store where "new_store = (\<lambda>_. None)"

definition path_for :: "string \<Rightarrow> string" where
  "path_for session = ''settings/'' @ base64_raw_url session @ ''.json''"

subsection \<open>The file\<close>

definition settings_json :: "resource_settings \<Rightarrow> json" where
  "settings_json r =
     JObj (str_field ''shell'' (rsShell r) @ str_field ''user'' (rsUser r) @ str_field ''workingDir'' (rsWorkingDir r)
       @ bool_field ''privileged'' (rsPrivileged r)
       @ (if rsLogTail r = 0 then [] else [(''logTail'', json_int (rsLogTail r))])
       @ bool_field ''logTimestamps'' (rsLogStamps r))"

definition no_settings :: resource_settings where
  "no_settings = \<lparr>rsShell = [], rsUser = [], rsWorkingDir = [], rsPrivileged = False, rsLogTail = 0, rsLogStamps = False\<rparr>"

definition dec_settings :: "resource_settings dec" where
  "dec_settings = dec_struct
     [(''shell'', lens rsShell rsShell_update dec_str), (''user'', lens rsUser rsUser_update dec_str),
      (''workingDir'', lens rsWorkingDir rsWorkingDir_update dec_str),
      (''privileged'', lens rsPrivileged rsPrivileged_update dec_bool),
      (''logTail'', lens rsLogTail rsLogTail_update dec_i64),
      (''logTimestamps'', lens rsLogStamps rsLogStamps_update dec_bool)]"

text \<open>A map is printed with its keys sorted.\<close>

definition settings_file :: "settings_map \<Rightarrow> string" where
  "settings_file m = print_indent 0 (JObj (map (\<lambda>(k, r). (quote k, settings_json r)) (sort_key fst m)))"

definition dec_settings_map :: "settings_map dec" where
  "dec_settings_map = dec_map dec_settings no_settings"

subsection \<open>The host's files\<close>

definition read_params :: "string \<Rightarrow> json" where
  "read_params path = JObj [(''path'', json_str path)]"

definition dec_content :: "string dec" where
  "dec_content = dec_struct [(''contentBase64'', dec_str)]"

definition read_file :: "string \<Rightarrow> world \<Rightarrow> string option \<times> world" where
  "read_file path w =
     (case host_call ''fs.read'' (read_params path) w of
        (Inl e, w1) \<Rightarrow> (None, w1)
      | (Inr raw, w1) \<Rightarrow>
          (case (case raw of None \<Rightarrow> None | Some j \<Rightarrow> dec_content j []) of
             None \<Rightarrow> (None, w1)
           | Some content \<Rightarrow> (base64_std_decode content, w1)))"

definition maxSettingsBytes :: nat where "maxSettingsBytes = 256 * 2 ^ 10"

definition write_params :: "string \<Rightarrow> string \<Rightarrow> json" where
  "write_params path content = JObj [(''contentBase64'', json_str (base64_std content)), (''path'', json_str path)]"

definition write_file :: "string \<Rightarrow> string \<Rightarrow> world \<Rightarrow> go_error option \<times> world" where
  "write_file path content w =
     (if length content > maxSettingsBytes then
        (Some (EText (''settings: file of '' @ dec_nat (length content) @ '' bytes is too large'')), w)
      else
        (case host_call ''fs.write'' (write_params path content) w of
           (Inl e, w1) \<Rightarrow>
             (if contains (err_text e) ''capability denied''
              then (Some (EText ''settings: the plugin may not write to its data directory''), w1)
              else (Some e, w1))
         | (Inr _, w1) \<Rightarrow> (None, w1)))"

subsection \<open>The store\<close>

definition store_load :: "string \<Rightarrow> store \<Rightarrow> world \<Rightarrow> settings_map \<times> store \<times> world" where
  "store_load session st w =
     (case st session of
        Some cached \<Rightarrow> (cached, st, w)
      | None \<Rightarrow>
          (case read_file (path_for session) w of
             (raw, w1) \<Rightarrow>
               (let m = (case raw of
                           None \<Rightarrow> []
                         | Some s \<Rightarrow>
                             (if s = [] then []
                              else (case decode_all dec_settings_map [] s of None \<Rightarrow> [] | Some m \<Rightarrow> m)))
                in (m, st(session \<mapsto> m), w1))))"

definition store_save :: "string \<Rightarrow> settings_map \<Rightarrow> store \<Rightarrow> world \<Rightarrow> go_error option \<times> store \<times> world" where
  "store_save session m st w =
     (case write_file (path_for session) (settings_file m) w of
        (e, w1) \<Rightarrow> (e, st(session \<mapsto> m), w1))"

subsection \<open>What was saved is loaded\<close>

definition settings_ok :: "resource_settings \<Rightarrow> bool" where
  "settings_ok r = (utf8_valid (rsShell r) \<and> utf8_valid (rsUser r) \<and> utf8_valid (rsWorkingDir r)
     \<and> - (2 ^ 63) \<le> rsLogTail r \<and> rsLogTail r < 2 ^ 63)"

definition settings_map_ok :: "settings_map \<Rightarrow> bool" where
  "settings_map_ok m = (distinct (map fst m) \<and> list_all (\<lambda>(k, r). utf8_valid k \<and> settings_ok r) m)"

definition settings_select :: "string \<Rightarrow> resource_settings dec" where
  "settings_select = select
     [(''shell'', lens rsShell rsShell_update dec_str), (''user'', lens rsUser rsUser_update dec_str),
      (''workingDir'', lens rsWorkingDir rsWorkingDir_update dec_str),
      (''privileged'', lens rsPrivileged rsPrivileged_update dec_bool),
      (''logTail'', lens rsLogTail rsLogTail_update dec_i64),
      (''logTimestamps'', lens rsLogStamps rsLogStamps_update dec_bool)]"

lemma settings_select_keys:
  "settings_select ''shell'' = lens rsShell rsShell_update dec_str"
  "settings_select ''user'' = lens rsUser rsUser_update dec_str"
  "settings_select ''workingDir'' = lens rsWorkingDir rsWorkingDir_update dec_str"
  "settings_select ''privileged'' = lens rsPrivileged rsPrivileged_update dec_bool"
  "settings_select ''logTail'' = lens rsLogTail rsLogTail_update dec_i64"
  "settings_select ''logTimestamps'' = lens rsLogStamps rsLogStamps_update dec_bool"
  by (simp_all add: settings_select_def select_def)

lemma settings_keys:
  "unquote ''shell'' = ''shell''" "unquote ''user'' = ''user''" "unquote ''workingDir'' = ''workingDir''"
  "unquote ''privileged'' = ''privileged''" "unquote ''logTail'' = ''logTail''" "unquote ''logTimestamps'' = ''logTimestamps''"
  by code_simp+

lemma settings_raw_keys:
  "raw_ok ''shell''" "raw_ok ''user''" "raw_ok ''workingDir''" "raw_ok ''privileged''" "raw_ok ''logTail''" "raw_ok ''logTimestamps''"
  by code_simp+

lemma dec_str_field:
  assumes "f k = lens get upd dec_str" and "unquote k = k" and "utf8_valid v"
  shows "dec_members f (str_field k v) x = Some (if v = [] then x else upd (\<lambda>_. v) x)"
  using assms by (simp add: str_field_def lens_def)

lemma dec_bool_field:
  assumes "f k = lens get upd dec_bool" and "unquote k = k"
  shows "dec_members f (bool_field k v) x = Some (if v then upd (\<lambda>_. v) x else x)"
  using assms by (simp add: bool_field_def lens_def)

lemma dec_settings_json:
  assumes "settings_ok r"
  shows "dec_settings (settings_json r) no_settings = Some r"
proof -
  have ok: "utf8_valid (rsShell r)" "utf8_valid (rsUser r)" "utf8_valid (rsWorkingDir r)"
    "- (2 ^ 63) \<le> rsLogTail r" "rsLogTail r \<le> 2 ^ 63 - 1"
    using assms by (simp_all add: settings_ok_def)
  have tail: "dec_members settings_select (if rsLogTail r = 0 then [] else [(''logTail'', json_int (rsLogTail r))]) x
      = Some (if rsLogTail r = 0 then x else x\<lparr>rsLogTail := rsLogTail r\<rparr>)" for x
    using ok(4,5) by (simp add: settings_keys settings_select_keys lens_def dec_i64_def)
  have "dec_settings (settings_json r) no_settings
      = dec_members settings_select (str_field ''shell'' (rsShell r) @ str_field ''user'' (rsUser r) @ str_field ''workingDir'' (rsWorkingDir r)
       @ bool_field ''privileged'' (rsPrivileged r)
       @ (if rsLogTail r = 0 then [] else [(''logTail'', json_int (rsLogTail r))])
       @ bool_field ''logTimestamps'' (rsLogStamps r)) no_settings"
    by (simp add: dec_settings_def dec_struct_def settings_select_def settings_json_def)
  also have "\<dots> = Some r"
    unfolding dec_members_append tail option.case dec_str_field [where f = settings_select, OF settings_select_keys(1) settings_keys(1) ok(1)]
      dec_str_field [where f = settings_select, OF settings_select_keys(2) settings_keys(2) ok(2)]
      dec_str_field [where f = settings_select, OF settings_select_keys(3) settings_keys(3) ok(3)]
      dec_bool_field [where f = settings_select, OF settings_select_keys(4) settings_keys(4)] dec_bool_field [where f = settings_select, OF settings_select_keys(6) settings_keys(6)]
    by (cases r) (simp add: no_settings_def)
  finally show ?thesis .
qed

lemma settings_json_ok: "json_ok (settings_json r)"
  by (auto simp: settings_json_def str_field_def bool_field_def settings_raw_keys)

lemma settings_members_ok: "members_ok (map (\<lambda>(k, r). (quote k, settings_json r)) m)"
  by (induction m) (auto simp: raw_ok_quote settings_json_ok)

lemma assoc_set_new: "k \<notin> fst ` set m \<Longrightarrow> assoc_set k v m = m @ [(k, v)]"
  by (induction k v m rule: assoc_set.induct) auto

lemma dec_settings_members:
  assumes "distinct (map fst m)" and "list_all (\<lambda>(k, r). utf8_valid k \<and> settings_ok r) m" and "fst ` set m \<inter> fst ` set acc = {}"
  shows "dec_members (\<lambda>k v m. map_option (\<lambda>x. assoc_set k x m) (dec_settings v no_settings))
      (map (\<lambda>(k, r). (quote k, settings_json r)) m) acc = Some (acc @ m)"
  using assms
proof (induction m arbitrary: acc)
  case (Cons e m)
  obtain k r where e: "e = (k, r)" by (cases e)
  have new: "assoc_set k r acc = acc @ [(k, r)]" using Cons.prems(3) by (intro assoc_set_new) (auto simp: e)
  have k: "utf8_valid k" "settings_ok r" using Cons.prems(2) by (simp_all add: e)
  have "fst ` set m \<inter> fst ` set (acc @ [(k, r)]) = {}" using Cons.prems(1,3) by (auto simp: e)
  from Cons.IH [OF _ _ this] Cons.prems(1,2) show ?case
    by (simp add: e unquote_quote [OF k(1)] dec_settings_json [OF k(2)] new)
qed simp

lemma settings_file_back:
  assumes "settings_map_ok m"
  shows "decode_all dec_settings_map [] (settings_file m) = Some (sort_key fst m)"
proof -
  have "distinct (map fst (sort_key fst m))" using assms by (simp add: settings_map_ok_def distinct_map)
  moreover have "list_all (\<lambda>(k, r). utf8_valid k \<and> settings_ok r) (sort_key fst m)"
    using assms by (simp add: settings_map_ok_def list_all_iff)
  ultimately have "dec_settings_map (JObj (map (\<lambda>(k, r). (quote k, settings_json r)) (sort_key fst m))) [] = Some (sort_key fst m)"
    using dec_settings_members [of "sort_key fst m" "[]"] by (simp add: dec_settings_map_def dec_map_def)
  then show ?thesis
    using parse_all_indent [of "JObj (map (\<lambda>(k, r). (quote k, settings_json r)) (sort_key fst m))" 0]
    by (simp add: decode_all_def settings_file_def settings_members_ok)
qed

lemma utf8_valid_ascii: "list_all (\<lambda>c. byte_val c < 128) s \<Longrightarrow> utf8_valid s"
  by (induction s) (simp_all add: utf8_valid.simps utf8_len_def utf8_lead_def)

lemma std_char_ascii: "n < 64 \<Longrightarrow> byte_val (std_char n) < 128"
  by (auto simp: std_char_def byte_val_def)

lemma padding_ascii: "byte_val (CHR ''='') < 128"
  by (simp add: byte_val_def)

lemma base64_ascii: "list_all (\<lambda>c. byte_val c < 128) (base64_std s)"
  using padding_ascii unfolding base64_std_def
  by (induction std_char True s rule: b64_encode.induct) (simp_all add: byte_sextets [THEN std_char_ascii])

lemma map_of_sort_key:
  assumes "distinct (map fst m)"
  shows "map_of (sort_key fst m) = map_of m"
proof
  fix k
  have "distinct (map fst (sort_key fst m))" using assms by (simp add: distinct_map)
  then have "map_of (sort_key fst m) k = Some v \<longleftrightarrow> map_of m k = Some v" for v
    using assms by (simp add: map_of_eq_Some_iff)
  then show "map_of (sort_key fst m) k = map_of m k" by (metis not_Some_eq)
qed

text \<open>
  C27. Settings survive a restart: once a session's settings have been saved, a fresh store that is handed the
  saved file back finds exactly the same settings for every container, and the running store has them without
  reading the file again.
\<close>

theorem saved_settings_load_back:
  assumes "settings_map_ok m" and "length (settings_file m) \<le> maxSettingsBytes"
    and "\<And>es. wCall w es ''fs.write'' (write_params (path_for s) (settings_file m)) = Inr ok"
    and "\<And>es. wCall w es ''fs.read'' (read_params (path_for s))
      = Inr (Some (JObj [(''contentBase64'', json_str (base64_std (settings_file m)))]))"
  shows "\<exists>st1 w1. store_save s m st w = (None, st1, w1)
    \<and> map_of (fst (store_load s new_store w1)) = map_of m
    \<and> store_load s st1 w1 = (m, st1, w1)"
proof -
  let ?w1 = "happen (EvCall ''fs.write'' (write_params (path_for s) (settings_file m))) w"
  have save: "store_save s m st w = (None, st(s \<mapsto> m), ?w1)"
    using assms(2,3) by (simp add: store_save_def write_file_def host_call_def)
  have key: "unquote ''contentBase64'' = ''contentBase64''" by code_simp
  have "dec_content (JObj [(''contentBase64'', json_str (base64_std (settings_file m)))]) [] = Some (base64_std (settings_file m))"
    using utf8_valid_ascii [OF base64_ascii] by (simp add: dec_content_def dec_struct_def select_def key)
  then have read: "fst (read_file (path_for s) ?w1) = Some (settings_file m)"
    by (simp add: read_file_def host_call_def assms(4))
  have "settings_file m \<noteq> []" by (simp add: settings_file_def)
  then have "fst (store_load s new_store ?w1) = sort_key fst m"
    using read settings_file_back [OF assms(1)]
    by (simp add: store_load_def new_store_def split_beta Let_def)
  then show ?thesis
    using save map_of_sort_key [of m] assms(1) by (simp add: settings_map_ok_def store_load_def)
qed

definition sample_settings :: settings_map where
  "sample_settings = [(''web'', default_settings)]"

lemma sample_settings_ok: "settings_map_ok sample_settings" "length (settings_file sample_settings) \<le> maxSettingsBytes"
proof -
  show "settings_map_ok sample_settings"
    by (simp add: settings_map_ok_def sample_settings_def settings_ok_def default_settings_def utf8_valid_ascii byte_val_def)
  have "length (settings_file sample_settings) < 100" by code_simp
  then show "length (settings_file sample_settings) \<le> maxSettingsBytes" by (simp add: maxSettingsBytes_def)
qed

lemma saved_settings_load_back_witness:
  "\<exists>w. map_of (fst (store_load ''s'' new_store w)) = map_of sample_settings"
proof -
  define w where "w = quiet_world\<lparr>wCall := (\<lambda>es m p. if m = ''fs.read'' then
      Inr (Some (JObj [(''contentBase64'', json_str (base64_std (settings_file sample_settings)))])) else Inr None)\<rparr>"
  have wr: "\<And>es. wCall w es ''fs.write'' (write_params (path_for ''s'') (settings_file sample_settings)) = Inr None"
    and rd: "\<And>es. wCall w es ''fs.read'' (read_params (path_for ''s''))
      = Inr (Some (JObj [(''contentBase64'', json_str (base64_std (settings_file sample_settings)))]))"
    by (simp_all add: w_def)
  from saved_settings_load_back [OF sample_settings_ok wr rd, of new_store] show ?thesis by blast
qed

text \<open>
  No session id can name a file outside the settings directory: whatever bytes the id holds, the path is
  \<open>settings/\<close>, one name of letters, digits, dashes and underscores, and \<open>.json\<close>; and two ids have two files.
\<close>

theorem settings_path_safe:
  "(\<exists>name. path_for s = ''settings/'' @ name @ ''.json'' \<and> list_all url_safe name)
   \<and> (path_for s = path_for s' \<longleftrightarrow> s = s')"
  using base64_raw_url_safe [of s] b64_inject [OF url_alphabet_inj, of s s']
  by (auto simp: path_for_def base64_raw_url_def)

text \<open>
  A settings file that cannot be read counts as empty from then on: if the host's first read fails, for
  whatever reason, the session's settings are empty and stay so, without the file being asked for again, and
  the next save replaces the file.
\<close>

theorem failed_read_is_final:
  assumes "st s = None" and "wCall w (wTrace w) ''fs.read'' (read_params (path_for s)) = Inl e"
  shows "\<exists>st1 w1. store_load s st w = ([], st1, w1) \<and> (\<forall>w2. store_load s st1 w2 = ([], st1, w2))"
  using assms by (simp add: store_load_def read_file_def host_call_def)

lemma failed_read_is_final_witness:
  "\<exists>st1 w1. store_load ''s'' new_store (quiet_world\<lparr>wCall := (\<lambda>es m p. Inl (EText ''busy''))\<rparr>) = ([], st1, w1)
     \<and> (\<forall>w2. store_load ''s'' st1 w2 = ([], st1, w2))"
  by (rule failed_read_is_final [where e = "EText ''busy''"]) (simp_all add: new_store_def)

text \<open>
  A file that is too large is refused before anything is sent: saving more than 256 KiB gives an error and
  no traffic; the running store keeps the new settings all the same.
\<close>

theorem oversized_settings_refused:
  assumes "maxSettingsBytes < length (settings_file m)"
  shows "\<exists>msg. store_save s m st w = (Some (EText msg), st(s \<mapsto> m), w)"
  using assms by (simp add: store_save_def write_file_def)

lemma oversized_settings_refused_witness:
  "\<exists>m msg. store_save ''s'' m new_store quiet_world = (Some (EText msg), new_store(''s'' \<mapsto> m), quiet_world)"
proof -
  define k where "k = replicate (maxSettingsBytes + 1) (CHR ''a'')"
  have len: "length t \<le> length (quote t)" if "list_all (\<lambda>c. c = CHR ''a'') t" for t
    using that
  proof (induction t)
    case (Cons c t)
    then show ?case by (simp add: quote.simps quote_step_def byte_val_def escape_byte_def quote_char_def backslash_def)
  qed simp
  have "list_all (\<lambda>c. c = CHR ''a'') k" by (simp add: k_def list_all_iff)
  then have "maxSettingsBytes < length (quote k)" using len [of k] by (simp add: k_def)
  then have "maxSettingsBytes < length (settings_file [(k, default_settings)])"
    by (simp add: settings_file_def)
  from oversized_settings_refused [OF this, of "''s''" new_store quiet_world] show ?thesis by blast
qed

end
