(* ===== verification/Forms.thy ===== *)
theory Forms
  imports Settings
begin

text \<open>
  The forms and panels the plugin hands to the host (\<open>internal/usecase/dialogs.go\<close> and
  \<open>internal/usecase/details.go\<close>): fields, sections, the payload of \<open>dialog.open\<close>, the panel of a node, the
  fixed forms, and what is read back from an answer. A field's \<open>Secret\<close> is never set by the plugin, so it is
  a constant of the wire form.
\<close>

record form_field =
  ffId :: string
  ffLabel :: string
  ffType :: string
  ffRequired :: bool
  ffPlaceholder :: string
  ffDescription :: string
  ffWidth :: string
  ffOrder :: int
  ffOptions :: "(string \<times> string) list"

record form_section =
  scId :: string
  scLabel :: string
  scOrder :: int
  scFields :: "form_field list"

record node_details =
  ntSections :: "form_section list"
  ntValues :: "(string \<times> string) list"
  ntEditable :: bool

definition order_field :: "int \<Rightarrow> (string \<times> json) list" where
  "order_field n = (if n = 0 then [] else [(''order'', json_int n)])"

definition option_json :: "string \<times> string \<Rightarrow> json" where
  "option_json o' = JObj [(''value'', json_str (fst o')), (''label'', json_str (snd o'))]"

definition field_json :: "form_field \<Rightarrow> json" where
  "field_json f =
     JObj ((''id'', json_str (ffId f)) # (''label'', json_str (ffLabel f)) # (''type'', json_str (ffType f))
       # bool_field ''required'' (ffRequired f) @ str_field ''placeholder'' (ffPlaceholder f)
       @ str_field ''description'' (ffDescription f) @ str_field ''width'' (ffWidth f) @ order_field (ffOrder f)
       @ (if ffOptions f = [] then [] else [(''options'', JArr (map option_json (ffOptions f)))])
       @ [(''secret'', JBool False)])"

definition section_json :: "form_section \<Rightarrow> json" where
  "section_json s =
     JObj ((''id'', json_str (scId s)) # (''label'', json_str (scLabel s)) # order_field (scOrder s)
       @ [(''fields'', JArr (map field_json (scFields s)))])"

definition details_json :: "node_details \<Rightarrow> json" where
  "details_json d =
     JObj [(''sections'', JArr (map section_json (ntSections d))), (''values'', map_json (ntValues d)),
           (''editable'', JBool (ntEditable d))]"

text \<open>The payload of \<open>dialog.open\<close>; a Go map is sent with its keys sorted.\<close>

definition dialog_payload ::
  "string \<Rightarrow> string \<Rightarrow> string \<Rightarrow> form_section list \<Rightarrow> (string \<times> string) list option \<Rightarrow> json" where
  "dialog_payload kind title submit sections vals =
     JObj ([(''kind'', json_str kind), (''sections'', JArr (map section_json sections))]
       @ str_field ''submitLabel'' submit @ [(''title'', json_str title)]
       @ (case vals of None \<Rightarrow> [] | Some v \<Rightarrow> [(''values'', map_json v)]))"

subsection \<open>The fixed forms\<close>

definition plain_field :: "string \<Rightarrow> string \<Rightarrow> string \<Rightarrow> int \<Rightarrow> form_field" where
  "plain_field i label ty n = \<lparr>ffId = i, ffLabel = label, ffType = ty, ffRequired = False, ffPlaceholder = [],
     ffDescription = [], ffWidth = [], ffOrder = n, ffOptions = []\<rparr>"

definition half_field :: "string \<Rightarrow> string \<Rightarrow> string \<Rightarrow> int \<Rightarrow> form_field" where
  "half_field i label ty n = (plain_field i label ty n)\<lparr>ffWidth := ''half''\<rparr>"

definition mk_section :: "string \<Rightarrow> string \<Rightarrow> int \<Rightarrow> form_field list \<Rightarrow> form_section" where
  "mk_section i label n fs = \<lparr>scId = i, scLabel = label, scOrder = n, scFields = fs\<rparr>"

definition message_form :: "form_section list" where
  "message_form = [mk_section ''message'' [] 0 [plain_field ''message'' [] ''code'' 0]]"

definition inspect_form :: "form_section list" where
  "inspect_form =
     [mk_section ''summary'' ''Summary'' 1 [plain_field ''summary'' [] ''code'' 1],
      mk_section ''raw'' ''Raw JSON'' 2 [plain_field ''raw'' [] ''code'' 1]]"

definition volume_form :: "form_section list" where
  "volume_form =
     [mk_section ''main'' ''Volume'' 1
       [(half_field ''name'' ''Name'' ''text'' 1)\<lparr>ffRequired := True\<rparr>,
        (half_field ''driver'' ''Driver'' ''text'' 2)\<lparr>ffPlaceholder := ''local''\<rparr>,
        plain_field ''driverOpts'' ''Driver options'' ''keyValue'' 3,
        plain_field ''labels'' ''Labels'' ''keyValue'' 4]]"

definition network_form :: "form_section list" where
  "network_form =
     [mk_section ''main'' ''Network'' 1
       [(half_field ''name'' ''Name'' ''text'' 1)\<lparr>ffRequired := True\<rparr>,
        (half_field ''driver'' ''Driver'' ''select'' 2)\<lparr>ffOptions :=
          [(''bridge'', ''bridge''), (''overlay'', ''overlay''), (''macvlan'', ''macvlan''), (''ipvlan'', ''ipvlan'')]\<rparr>],
      mk_section ''ipam'' ''Addressing'' 2
       [(half_field ''subnet'' ''Subnet'' ''text'' 1)\<lparr>ffPlaceholder := ''172.20.0.0/16''\<rparr>,
        (half_field ''gateway'' ''Gateway'' ''text'' 2)\<lparr>ffPlaceholder := ''172.20.0.1''\<rparr>,
        half_field ''ipRange'' ''IP range'' ''text'' 3,
        plain_field ''auxAddresses'' ''Auxiliary addresses'' ''keyValue'' 4],
      mk_section ''options'' ''Options'' 3
       [(plain_field ''internal'' ''Internal'' ''checkbox'' 1)\<lparr>ffDescription := ''No outbound access from this network.''\<rparr>,
        plain_field ''attachable'' ''Attachable'' ''checkbox'' 2,
        plain_field ''ipv6'' ''Enable IPv6'' ''checkbox'' 3,
        plain_field ''driverOpts'' ''Driver options'' ''keyValue'' 4,
        plain_field ''labels'' ''Labels'' ''keyValue'' 5]]"

definition remove_form :: "form_field list \<Rightarrow> form_section list" where
  "remove_form fs = [mk_section ''options'' ''Remove options'' 1 fs]"

definition force_field :: "string \<Rightarrow> form_field" where
  "force_field description = (plain_field ''force'' ''Force'' ''checkbox'' 1)\<lparr>ffDescription := description\<rparr>"

definition remove_container_form :: "form_section list" where
  "remove_container_form = remove_form
     [force_field ''Remove them even if they are running.'',
      (plain_field ''volumes'' ''Remove anonymous volumes'' ''checkbox'' 2)\<lparr>ffDescription := ''Named volumes are never touched.''\<rparr>]"

definition remove_image_form :: "form_section list" where
  "remove_image_form = remove_form
     [force_field ''Remove them even if containers reference them.'',
      plain_field ''noprune'' ''Keep untagged parents'' ''checkbox'' 2]"

definition remove_volume_form :: "form_section list" where
  "remove_volume_form = remove_form [force_field []]"

definition container_form :: "form_section list" where
  "container_form =
     [mk_section ''console'' ''Console'' 1
       [(half_field ''shell'' ''Shell'' ''text'' 1)\<lparr>ffPlaceholder := rsShell default_settings,
          ffDescription := ''Run when you open a console for this container.''\<rparr>,
        (half_field ''user'' ''User'' ''text'' 2)\<lparr>ffPlaceholder := ''root''\<rparr>,
        half_field ''workingDir'' ''Working directory'' ''text'' 3,
        half_field ''privileged'' ''Privileged'' ''checkbox'' 4],
      mk_section ''logs'' ''Logs'' 2
       [half_field ''logTail'' ''Lines to load'' ''number'' 1,
        half_field ''logStamps'' ''Timestamps'' ''checkbox'' 2]]"

definition summary_form :: "string \<Rightarrow> form_section list" where
  "summary_form label = [mk_section ''summary'' label 0 [plain_field ''summary'' [] ''code'' 0]]"

subsection \<open>Reading an answer\<close>

text \<open>\<open>values[k]\<close> of a Go map: the empty string where the key is missing.\<close>

definition value_of :: "string \<Rightarrow> (string \<times> string) list \<Rightarrow> string" where
  "value_of k vals = (case map_of vals k of None \<Rightarrow> [] | Some v \<Rightarrow> v)"

definition checked :: "string \<Rightarrow> (string \<times> string) list \<Rightarrow> bool" where
  "checked k vals = (value_of k vals = ''true'')"

text \<open>A key-value field; \<open>nil\<close> and a map without entries are the same to every use of the result.\<close>

definition parse_pairs :: "string \<Rightarrow> (string \<times> string) list" where
  "parse_pairs raw =
     (if trim_space raw = [] then []
      else (case decode_all dec_string_map [] raw of None \<Rightarrow> [] | Some m \<Rightarrow> m))"

definition volume_answer :: "(string \<times> string) list \<Rightarrow> volume_request" where
  "volume_answer vals = \<lparr>vqName = value_of ''name'' vals, vqDriver = value_of ''driver'' vals,
     vqDriverOpts = parse_pairs (value_of ''driverOpts'' vals), vqLabels = parse_pairs (value_of ''labels'' vals)\<rparr>"

text \<open>The addressing is sent only when some of it was filled in.\<close>

definition network_answer :: "(string \<times> string) list \<Rightarrow> network_request" where
  "network_answer vals = \<lparr>nqName = value_of ''name'' vals, nqDriver = value_of ''driver'' vals,
     nqInternal = checked ''internal'' vals, nqAttachable = checked ''attachable'' vals, nqEnableIPv6 = checked ''ipv6'' vals,
     nqOptions = parse_pairs (value_of ''driverOpts'' vals), nqLabels = parse_pairs (value_of ''labels'' vals),
     nqIPAM =
       (if value_of ''subnet'' vals \<noteq> [] \<or> value_of ''gateway'' vals \<noteq> [] \<or> value_of ''ipRange'' vals \<noteq> [] then
          Some ([], [\<lparr>icSubnet = value_of ''subnet'' vals, icIPRange = value_of ''ipRange'' vals,
            icGateway = value_of ''gateway'' vals, icAuxAddress = parse_pairs (value_of ''auxAddresses'' vals)\<rparr>])
        else None)\<rparr>"

end
