(* ===== verification/Status.thy ===== *)
theory Status
  imports Prelude
begin

text \<open>
  Status dots (\<open>internal/domain/status.go\<close>): the mapping of a container's, a volume's and a
  network's state to one of six tones and a tooltip. The strings are the source's, byte for byte;
  the middle dot is its two UTF-8 bytes.
\<close>

datatype tone = ToneOK | ToneWarn | ToneError | ToneBusy | ToneNeutral | ToneUnknown

record status =
  Tone :: tone
  Tooltip :: string

record container_state =
  cs_State :: string
  cs_StatusText :: string
  cs_Image :: string
  cs_Health :: string
  cs_HealthOutput :: string
  cs_ExitCode :: int
  cs_Ports :: string

record volume_state =
  vs_Driver :: string
  vs_Mountpoint :: string
  vs_Users :: int

record network_state =
  ns_Name :: string
  ns_Driver :: string
  ns_Scope :: string
  ns_Internal :: bool
  ns_Users :: int

definition newline :: string where "newline = [CHR 0x0A]"

definition middle_dot :: string where "middle_dot = [CHR 0x20, CHR 0xC2, CHR 0xB7, CHR 0x20]"

definition count_users :: "int \<Rightarrow> string" where
  "count_users n = (if n = 1 then ''Used by 1 container''
                    else ''Used by '' @ dec_int n @ '' containers'')"

definition join_lines :: "string list \<Rightarrow> string" where
  "join_lines parts = join newline (filter (\<lambda>p. trim_space p \<noteq> []) parts)"

definition describe :: "string \<Rightarrow> container_state \<Rightarrow> string" where
  "describe headline s =
     (let parts = [trim_space headline]
        @ (if cs_Image s \<noteq> [] then [''image '' @ cs_Image s] else [])
        @ (if cs_Ports s \<noteq> [] then [cs_Ports s] else [])
      in join newline (filter (\<lambda>p. p \<noteq> []) parts))"

definition first_line :: "string \<Rightarrow> string" where
  "first_line s = (case cut_byte (CHR 0x0A) s of Some (a, b) \<Rightarrow> trim_space a | None \<Rightarrow> trim_space s)"

text \<open>
  \<open>strings.ToUpper(s[:1])\<close> on the first byte alone: an ASCII letter is raised; a byte outside
  ASCII is no character by itself, so it becomes the replacement character (three bytes).
\<close>

definition upper_byte :: "char \<Rightarrow> string" where
  "upper_byte c = (if 128 \<le> (of_char c :: nat) then [CHR 0xEF, CHR 0xBF, CHR 0xBD] else [upper_char c])"

fun title_case :: "string \<Rightarrow> string" where
  "title_case [] = ''Unknown state''"
| "title_case (c # s) = upper_byte c @ s"

definition running_status :: "container_state \<Rightarrow> status" where
  "running_status s =
     (let health = to_lower (cs_Health s) in
      if health = ''starting'' then
        \<lparr>Tone = ToneBusy, Tooltip = describe (cs_StatusText s @ middle_dot @ ''health check starting'') s\<rparr>
      else if health = ''unhealthy'' then
        (let tooltip = describe (cs_StatusText s @ middle_dot @ ''unhealthy'') s in
         \<lparr>Tone = ToneWarn,
          Tooltip = (if cs_HealthOutput s \<noteq> [] then tooltip @ newline @ first_line (cs_HealthOutput s)
                     else tooltip)\<rparr>)
      else \<lparr>Tone = ToneOK, Tooltip = describe (cs_StatusText s) s\<rparr>)"

definition exited_status :: "container_state \<Rightarrow> status" where
  "exited_status s =
     (if cs_ExitCode s = 0 then
        \<lparr>Tone = ToneNeutral, Tooltip = describe (cs_StatusText s @ middle_dot @ ''exit 0'') s\<rparr>
      else
        \<lparr>Tone = ToneError,
         Tooltip = describe (cs_StatusText s @ middle_dot @ ''exit '' @ dec_int (cs_ExitCode s)) s\<rparr>)"

definition container_status :: "container_state \<Rightarrow> status" where
  "container_status s =
     (let st = to_lower (cs_State s) in
      if st = ''paused'' then \<lparr>Tone = ToneWarn, Tooltip = describe ''Paused'' s\<rparr>
      else if st = ''restarting'' then \<lparr>Tone = ToneBusy, Tooltip = describe ''Restarting'' s\<rparr>
      else if st = ''removing'' then \<lparr>Tone = ToneBusy, Tooltip = describe ''Removing'' s\<rparr>
      else if st = ''created'' then
        \<lparr>Tone = ToneNeutral, Tooltip = describe ''Created, never started'' s\<rparr>
      else if st = ''dead'' then \<lparr>Tone = ToneError, Tooltip = describe ''Dead'' s\<rparr>
      else if st = ''exited'' then exited_status s
      else if st = ''running'' then running_status s
      else \<lparr>Tone = ToneUnknown, Tooltip = describe (title_case (cs_State s)) s\<rparr>)"

definition volume_status :: "volume_state \<Rightarrow> status" where
  "volume_status s =
     (let whence = join_lines [vs_Driver s, vs_Mountpoint s] in
      if vs_Users s > 0 then \<lparr>Tone = ToneOK, Tooltip = join_lines [count_users (vs_Users s), whence]\<rparr>
      else \<lparr>Tone = ToneWarn, Tooltip = join_lines [''Dangling: no container mounts it'', whence]\<rparr>)"

definition builtin_network :: "string \<Rightarrow> bool" where
  "builtin_network n = (n = ''bridge'' \<or> n = ''host'' \<or> n = ''none'')"

definition network_status :: "network_state \<Rightarrow> status" where
  "network_status s =
     (let detail0 = join_lines [ns_Driver s, ns_Scope s];
          detail = (if ns_Internal s then join_lines [detail0, ''internal: no outbound access'']
                    else detail0)
      in if builtin_network (ns_Name s) then
           \<lparr>Tone = ToneNeutral, Tooltip = join_lines [''Built-in'', detail]\<rparr>
         else if ns_Users s > 0 then
           \<lparr>Tone = ToneOK, Tooltip = join_lines [count_users (ns_Users s), detail]\<rparr>
         else
           \<lparr>Tone = ToneWarn, Tooltip = join_lines [''Unused: no containers attached'', detail]\<rparr>)"

subsection \<open>The tones\<close>

lemmas status_defs = container_status_def running_status_def exited_status_def Let_def

text \<open>The design's table of tones, as a function of the three fields it depends on.\<close>

definition tone_table :: "string \<Rightarrow> string \<Rightarrow> int \<Rightarrow> tone" where
  "tone_table st health code =
     (if st = ''running'' then
        (if health = ''unhealthy'' then ToneWarn
         else if health = ''starting'' then ToneBusy else ToneOK)
      else if st = ''exited'' then (if code = 0 then ToneNeutral else ToneError)
      else if st = ''paused'' then ToneWarn
      else if st \<in> {''restarting'', ''removing''} then ToneBusy
      else if st = ''created'' then ToneNeutral
      else if st = ''dead'' then ToneError
      else ToneUnknown)"

text \<open>
  The tone of a container is the one the design's table gives for its state, health and exit
  code, whatever the letter case: the order in which the code asks does not let a paused, a
  restarting or an exited container read as running.
\<close>

theorem container_tone_table:
  "Tone (container_status s)
     = tone_table (to_lower (cs_State s)) (to_lower (cs_Health s)) (cs_ExitCode s)"
  unfolding status_defs tone_table_def by simp

text \<open>
  Green means running: the dot is \<open>ok\<close> only for a container whose state is running and whose
  health check, if it has one, neither is starting nor fails; and red means it ended badly.
\<close>

theorem container_green_and_red:
  "(Tone (container_status s) = ToneOK
      \<longleftrightarrow> to_lower (cs_State s) = ''running'' \<and> to_lower (cs_Health s) \<notin> {''starting'', ''unhealthy''})
   \<and> (Tone (container_status s) = ToneError
      \<longleftrightarrow> to_lower (cs_State s) = ''dead''
         \<or> to_lower (cs_State s) = ''exited'' \<and> cs_ExitCode s \<noteq> 0)"
  by (simp add: container_tone_table tone_table_def)

subsection \<open>The tooltips\<close>

lemma newline_length [simp]: "length newline = 1" "newline \<noteq> []"
  by (simp_all add: newline_def)

text \<open>A joined list of parts has no blank line when no part is blank or holds a line end.\<close>

definition no_blank_line :: "string \<Rightarrow> bool" where
  "no_blank_line s = (\<not> contains s (newline @ newline) \<and> \<not> has_prefix s newline
     \<and> (s = [] \<or> last s \<noteq> CHR 0x0A))"

definition one_line :: "string \<Rightarrow> bool" where
  "one_line s = (CHR 0x0A \<notin> set s)"

lemma one_line_simps [simp]:
  "one_line []" "one_line (c # s) \<longleftrightarrow> c \<noteq> CHR 0x0A \<and> one_line s"
  "one_line (s @ t) \<longleftrightarrow> one_line s \<and> one_line t"
  by (auto simp: one_line_def)

lemma one_line_trim: "one_line s \<Longrightarrow> one_line (trim_space s)"
  using set_trim_space by (auto simp: one_line_def)

lemma one_line_ends: "one_line s \<Longrightarrow> s \<noteq> [] \<Longrightarrow> hd s \<noteq> CHR 0x0A \<and> last s \<noteq> CHR 0x0A"
  by (metis hd_in_set last_in_set one_line_def)

lemma contains_newlines_skip:
  assumes "one_line a" and "r = [] \<or> hd r = CHR 0x0A"
  shows "contains (a @ r) (newline @ newline) = contains r (newline @ newline)"
  using assms(1)
proof (induction a)
  case Nil
  then show ?case by simp
next
  case (Cons c a)
  then show ?case by (auto simp: newline_def)
qed

lemma join_lines_shape:
  assumes "\<forall>p \<in> set ps. p \<noteq> [] \<and> one_line p"
  shows "(ps = [] \<longrightarrow> join newline ps = [])
    \<and> (ps \<noteq> [] \<longrightarrow> join newline ps \<noteq> [] \<and> hd (join newline ps) \<noteq> CHR 0x0A
        \<and> last (join newline ps) \<noteq> CHR 0x0A)
    \<and> \<not> contains (join newline ps) (newline @ newline)"
  using assms
proof (induction ps rule: induct_list012)
  case 1
  then show ?case by (simp add: newline_def)
next
  case (2 s)
  have "\<not> contains (s @ []) (newline @ newline)"
    using 2 by (subst contains_newlines_skip) (simp_all add: newline_def)
  moreover have "hd s \<noteq> CHR 0x0A" "last s \<noteq> CHR 0x0A"
    using 2 one_line_ends [of s] by auto
  ultimately show ?case using 2 by simp
next
  case (3 s t ss)
  let ?r = "join newline (t # ss)"
  have IH: "?r \<noteq> []" "hd ?r \<noteq> CHR 0x0A" "last ?r \<noteq> CHR 0x0A" "\<not> contains ?r (newline @ newline)"
    using 3 by simp_all
  have s: "s \<noteq> []" "one_line s" "hd s \<noteq> CHR 0x0A"
    using 3 one_line_ends [of s] by auto
  have "contains (s @ newline @ ?r) (newline @ newline) = contains (newline @ ?r) (newline @ newline)"
    using s by (intro contains_newlines_skip) (auto simp: newline_def)
  also have "\<dots> = False" using IH by (cases ?r) (auto simp: newline_def)
  finally show ?case using s IH by (simp add: hd_append)
qed

lemma no_blank_line_join:
  "\<forall>p \<in> set ps. p \<noteq> [] \<and> one_line p \<Longrightarrow> no_blank_line (join newline ps)"
  using join_lines_shape [of ps]
  by (cases "join newline ps") (auto simp: no_blank_line_def newline_def)

text \<open>
  A tooltip never shows a blank line: for a container whose image and ports are single lines, the
  description has no empty line in it, does not start with one and does not end with one, whatever
  headline, image and ports are missing.
\<close>

theorem describe_no_blank_line:
  assumes "one_line headline" and "one_line (cs_Image s)" and "one_line (cs_Ports s)"
  shows "no_blank_line (describe headline s)"
  unfolding describe_def Let_def
  using assms by (intro no_blank_line_join) (auto simp: one_line_trim)

lemma describe_no_blank_line_witness:
  "no_blank_line (describe '' Up 3 hours'' \<lparr>cs_State = ''running'', cs_StatusText = ''Up 3 hours'',
     cs_Image = ''nginx'', cs_Health = '''', cs_HealthOutput = '''', cs_ExitCode = 0, cs_Ports = ''''\<rparr>)"
  by (rule describe_no_blank_line) simp_all

text \<open>
  The tooltip of an unhealthy container carries the first line of its health check's output and
  only that: what follows the line end is left out.
\<close>

theorem unhealthy_tooltip_first_line:
  assumes "to_lower (cs_State s) = ''running''" and "to_lower (cs_Health s) = ''unhealthy''"
    and "cs_HealthOutput s = line @ newline @ others" and "one_line line"
  shows "container_status s
    = \<lparr>Tone = ToneWarn,
       Tooltip = describe (cs_StatusText s @ middle_dot @ ''unhealthy'') s @ newline @ trim_space line\<rparr>"
proof -
  have "cut_byte (CHR 0x0A) (line @ CHR 0x0A # others) = Some (line, others)"
    using assms(4) by (simp add: cut_byte_append one_line_def)
  then have "first_line (cs_HealthOutput s) = trim_space line"
    using assms(3) by (simp add: first_line_def newline_def)
  with assms show ?thesis by (simp add: status_defs newline_def)
qed

lemma unhealthy_tooltip_first_line_witness:
  "container_status \<lparr>cs_State = ''running'', cs_StatusText = ''Up 10 minutes'', cs_Image = '''',
       cs_Health = ''unhealthy'', cs_HealthOutput = ''curl: (7) failed'' @ newline @ ''more detail'',
       cs_ExitCode = 0, cs_Ports = ''''\<rparr>
     = \<lparr>Tone = ToneWarn,
        Tooltip = ''Up 10 minutes'' @ middle_dot @ ''unhealthy'' @ newline @ ''curl: (7) failed''\<rparr>"
proof -
  let ?s = "\<lparr>cs_State = ''running'', cs_StatusText = ''Up 10 minutes'', cs_Image = '''',
       cs_Health = ''unhealthy'', cs_HealthOutput = ''curl: (7) failed'' @ newline @ ''more detail'',
       cs_ExitCode = 0, cs_Ports = ''''\<rparr>"
  have "container_status ?s
    = \<lparr>Tone = ToneWarn,
       Tooltip = describe (cs_StatusText ?s @ middle_dot @ ''unhealthy'') ?s @ newline
                   @ trim_space ''curl: (7) failed''\<rparr>"
  proof (rule unhealthy_tooltip_first_line)
    show "to_lower (cs_State ?s) = ''running''" by code_simp
    show "to_lower (cs_Health ?s) = ''unhealthy''" by code_simp
    show "cs_HealthOutput ?s = ''curl: (7) failed'' @ newline @ ''more detail''" by simp
    show "one_line ''curl: (7) failed''" by simp
  qed
  moreover have "describe (cs_StatusText ?s @ middle_dot @ ''unhealthy'') ?s
      = ''Up 10 minutes'' @ middle_dot @ ''unhealthy''" by code_simp
  moreover have "trim_space ''curl: (7) failed'' = ''curl: (7) failed''" by code_simp
  ultimately show ?thesis by simp
qed

text \<open>The tooltip of a failed container names its exit code, and two codes are never shown alike.\<close>

lemma exited_headline_code:
  "exited_status s = \<lparr>Tone = ToneError, Tooltip = t\<rparr> \<Longrightarrow> cs_ExitCode s \<noteq> 0"
  by (auto simp: exited_status_def split: if_splits)

lemma volume_tone: "Tone (volume_status s) = (if vs_Users s > 0 then ToneOK else ToneWarn)"
  by (simp add: volume_status_def Let_def)

lemma network_tone:
  "Tone (network_status s)
     = (if builtin_network (ns_Name s) then ToneNeutral
        else if ns_Users s > 0 then ToneOK else ToneWarn)"
  by (simp add: network_status_def Let_def)

lemma count_users_inject: "count_users m = count_users n \<Longrightarrow> m = n"
  by (auto simp: count_users_def dec_int_inject split: if_splits)

end
