(* ===== verification/Tree.thy ===== *)
theory Tree
  imports Api Status
begin

text \<open>
  The rows of the tree (\<open>internal/usecase/tree.go\<close>), their menus (\<open>usecase/actions.go\<close>) and the size
  display (\<open>humanBytes\<close> in \<open>usecase/details.go\<close>). Rows are sorted with a stable sort; \<open>sort.Slice\<close> may order
  rows of equal labels differently. The usage marks of images, volumes and networks have one contract, the
  locale \<open>usage_rows\<close>, interpreted for each of the three.
\<close>

record action =
  acId :: string
  acLabel :: string
  acDanger :: bool
  acConfirm :: string
  acMulti :: bool
  acRole :: string

record tree_node =
  ndId :: string
  ndKind :: string
  ndLabel :: string
  ndIcon :: string
  ndOrder :: int
  ndStatus :: "status option"
  ndActions :: "action list"
  ndDefault :: string

definition plain_node :: "string \<Rightarrow> string \<Rightarrow> string \<Rightarrow> tree_node" where
  "plain_node i k l = \<lparr>ndId = i, ndKind = k, ndLabel = l, ndIcon = [], ndOrder = 0, ndStatus = None,
     ndActions = [], ndDefault = []\<rparr>"

definition plain_action :: "string \<Rightarrow> string \<Rightarrow> action" where
  "plain_action i l = \<lparr>acId = i, acLabel = l, acDanger = False, acConfirm = [], acMulti = False, acRole = []\<rparr>"

definition ellipsis :: string where "ellipsis = [CHR 0xE2, CHR 0x80, CHR 0xA6]"
definition arrow :: string where "arrow = [CHR 0xE2, CHR 0x86, CHR 0x92]"

subsection \<open>Menus\<close>

definition ActionContainerStart :: string where "ActionContainerStart = ''container.start''"
definition ActionContainerStop :: string where "ActionContainerStop = ''container.stop''"
definition ActionContainerRestart :: string where "ActionContainerRestart = ''container.restart''"
definition ActionContainerPause :: string where "ActionContainerPause = ''container.pause''"
definition ActionContainerResume :: string where "ActionContainerResume = ''container.resume''"
definition ActionContainerKill :: string where "ActionContainerKill = ''container.kill''"
definition ActionContainerRemove :: string where "ActionContainerRemove = ''container.remove''"
definition ActionContainerLogs :: string where "ActionContainerLogs = ''container.logs''"
definition ActionContainerConsole :: string where "ActionContainerConsole = ''container.console''"
definition ActionContainerInspect :: string where "ActionContainerInspect = ''container.inspect''"
definition ActionImageRemove :: string where "ActionImageRemove = ''image.remove''"
definition ActionImageInspect :: string where "ActionImageInspect = ''image.inspect''"
definition ActionVolumeCreate :: string where "ActionVolumeCreate = ''volume.create''"
definition ActionVolumeRemove :: string where "ActionVolumeRemove = ''volume.remove''"
definition ActionVolumeInspect :: string where "ActionVolumeInspect = ''volume.inspect''"
definition ActionNetworkCreate :: string where "ActionNetworkCreate = ''network.create''"
definition ActionNetworkRemove :: string where "ActionNetworkRemove = ''network.remove''"
definition ActionNetworkInspect :: string where "ActionNetworkInspect = ''network.inspect''"
definition RoleDelete :: string where "RoleDelete = ''delete''"

lemmas action_ids = ActionContainerStart_def ActionContainerStop_def ActionContainerRestart_def
  ActionContainerPause_def ActionContainerResume_def ActionContainerKill_def ActionContainerRemove_def
  ActionContainerLogs_def ActionContainerConsole_def ActionContainerInspect_def ActionImageRemove_def
  ActionImageInspect_def ActionVolumeCreate_def ActionVolumeRemove_def ActionVolumeInspect_def
  ActionNetworkCreate_def ActionNetworkRemove_def ActionNetworkInspect_def

definition container_actions :: "string \<Rightarrow> action list" where
  "container_actions state =
     (let running = equal_fold state ''running''; paused = equal_fold state ''paused'';
          stopped = (\<not> running \<and> \<not> paused) in
      (if stopped then [(plain_action ActionContainerStart ''Start'')\<lparr>acMulti := True\<rparr>] else [])
      @ (if running then
           [(plain_action ActionContainerStop ''Stop'')\<lparr>acMulti := True\<rparr>,
            (plain_action ActionContainerPause ''Pause'')\<lparr>acMulti := True\<rparr>] else [])
      @ (if paused then [(plain_action ActionContainerResume ''Resume'')\<lparr>acMulti := True\<rparr>] else [])
      @ (if running \<or> paused then
           [(plain_action ActionContainerRestart ''Restart'')\<lparr>acMulti := True\<rparr>,
            (plain_action ActionContainerKill ''Kill'')\<lparr>acDanger := True, acMulti := True,
              acConfirm := ''Send SIGKILL to the selected containers?''\<rparr>] else [])
      @ [plain_action ActionContainerLogs ''Logs'', plain_action ActionContainerConsole ''Console'',
         plain_action ActionContainerInspect ''Inspect'',
         (plain_action ActionContainerRemove (''Remove'' @ ellipsis))\<lparr>acDanger := True, acMulti := True,
           acRole := RoleDelete\<rparr>])"

definition image_actions :: "action list" where
  "image_actions =
     [plain_action ActionImageInspect ''Inspect'',
      (plain_action ActionImageRemove (''Remove'' @ ellipsis))\<lparr>acDanger := True, acMulti := True, acRole := RoleDelete\<rparr>]"

definition volume_actions :: "action list" where
  "volume_actions =
     [plain_action ActionVolumeInspect ''Inspect'',
      (plain_action ActionVolumeRemove (''Remove'' @ ellipsis))\<lparr>acDanger := True, acMulti := True, acRole := RoleDelete\<rparr>]"

definition network_actions :: "string \<Rightarrow> action list" where
  "network_actions name =
     (let inspect = [plain_action ActionNetworkInspect ''Inspect''] in
      if name = ''bridge'' \<or> name = ''host'' \<or> name = ''none'' then inspect
      else inspect @ [(plain_action ActionNetworkRemove ''Remove'')\<lparr>acDanger := True, acMulti := True,
             acRole := RoleDelete, acConfirm := ''Remove the selected networks?''\<rparr>])"

subsection \<open>Sizes\<close>

text \<open>
  \<open>humanBytes\<close> divides as \<open>float64\<close> and prints one decimal. The conversion of the 64-bit size rounds it to 53
  bits, the division by a power of two is exact, and the verb rounds to the nearest tenth: each to even.
\<close>

definition round_div :: "nat \<Rightarrow> nat \<Rightarrow> nat" where
  "round_div a b =
     (let q = a div b; r = a mod b in if 2 * r > b \<or> (2 * r = b \<and> odd q) then q + 1 else q)"

fun excess_bits :: "nat \<Rightarrow> nat" where
  "excess_bits n = (if n < 2 ^ 53 then 0 else excess_bits (n div 2) + 1)"

declare excess_bits.simps [simp del]

definition float64_of :: "nat \<Rightarrow> nat" where
  "float64_of n = (let e = excess_bits n in if e = 0 then n else round_div n (2 ^ e) * 2 ^ e)"

fun unit_loop :: "nat \<Rightarrow> nat \<Rightarrow> nat \<Rightarrow> nat \<times> nat" where
  "unit_loop size' divisor e =
     (if 1024 \<le> size' \<and> e < 3 then unit_loop (size' div 1024) (divisor * 1024) (e + 1) else (divisor, e))"

declare unit_loop.simps [simp del]

definition one_decimal :: "nat \<Rightarrow> nat \<Rightarrow> string" where
  "one_decimal n divisor =
     (let t = round_div (10 * float64_of n) divisor in dec_nat (t div 10) @ ''.'' @ dec_nat (t mod 10))"

definition human_bytes :: "int \<Rightarrow> string" where
  "human_bytes n =
     (if n < 1024 then dec_int n @ '' B''
      else (let m = nat n in
            case unit_loop (m div 1024) 1024 0 of (divisor, e) \<Rightarrow>
              one_decimal m divisor @ '' '' @ [''KMGT'' ! e] @ ''B''))"

subsection \<open>Labels and rows\<close>

definition with_count :: "string \<Rightarrow> int \<Rightarrow> string" where
  "with_count label n = (if n \<le> 0 then label else label @ '' ('' @ dec_int n @ '')'')"

definition build_root :: "(string \<Rightarrow> int) \<Rightarrow> tree_node list" where
  "build_root counts =
     [(plain_node NodeContainers ''group'' (with_count ''Containers'' (counts NodeContainers)))
        \<lparr>ndIcon := IconContainers, ndOrder := 1\<rparr>,
      (plain_node NodeImages ''group'' (with_count ''Images'' (counts NodeImages)))
        \<lparr>ndIcon := IconImages, ndOrder := 2\<rparr>,
      (plain_node NodeVolumes ''group'' (with_count ''Volumes'' (counts NodeVolumes)))
        \<lparr>ndIcon := IconVolumes, ndOrder := 3, ndActions := [plain_action ActionVolumeCreate (''Create volume'' @ ellipsis)]\<rparr>,
      (plain_node NodeNetworks ''group'' (with_count ''Networks'' (counts NodeNetworks)))
        \<lparr>ndIcon := IconNetworks, ndOrder := 4, ndActions := [plain_action ActionNetworkCreate (''Create network'' @ ellipsis)]\<rparr>]"

definition needs_detail :: "string \<Rightarrow> bool" where
  "needs_detail state = (to_lower state = ''running'' \<or> to_lower state = ''exited'')"

definition port_text :: "port \<Rightarrow> string" where
  "port_text p =
     (if ptPublicPort p > 0 then dec_int (ptPublicPort p) @ arrow @ dec_int (ptPrivatePort p) @ ''/'' @ ptType p
      else dec_int (ptPrivatePort p) @ ''/'' @ ptType p)"

fun port_parts :: "string list \<Rightarrow> port list \<Rightarrow> string list" where
  "port_parts seen [] = []"
| "port_parts seen (p # ps) =
     (if port_text p \<in> set seen then port_parts seen ps
      else port_text p # port_parts (port_text p # seen) ps)"

definition format_ports :: "port list \<Rightarrow> string" where
  "format_ports ps = (if ps = [] then [] else join '', '' (port_parts [] ps))"

definition base_state :: "container \<Rightarrow> container_state" where
  "base_state c = \<lparr>cs_State = ctState c, cs_StatusText = ctStatus c, cs_Image = ctImage c, cs_Health = [],
     cs_HealthOutput = [], cs_ExitCode = 0, cs_Ports = format_ports (ctPorts c)\<rparr>"

definition add_detail :: "container_detail \<Rightarrow> container_state \<Rightarrow> container_state" where
  "add_detail detail s =
     (let s1 = s\<lparr>cs_ExitCode := cdExitCode detail\<rparr> in
      case cdHealth detail of
        None \<Rightarrow> s1
      | Some h \<Rightarrow>
          (let s2 = s1\<lparr>cs_Health := hlStatus h\<rparr> in
           if hlLog h \<noteq> [] then s2\<lparr>cs_HealthOutput := last (hlLog h)\<rparr> else s2))"

definition container_row :: "container \<Rightarrow> container_state \<Rightarrow> tree_node" where
  "container_row c s =
     (plain_node (instance_id KindContainer (ctId c)) ''instance'' (container_display_name c))
       \<lparr>ndStatus := Some (container_status s), ndActions := container_actions (ctState c),
        ndDefault := ActionContainerLogs\<rparr>"

fun container_rows :: "docker \<Rightarrow> container list \<Rightarrow> world \<Rightarrow> tree_node list \<times> world" where
  "container_rows d [] w = ([], w)"
| "container_rows d (c # cs) w =
     (let (s, w1) =
        (if needs_detail (ctState c) then
           (case inspect_container d (ctId c) w of
              (Inr detail, w') \<Rightarrow> (add_detail detail (base_state c), w')
            | (Inl e, w') \<Rightarrow> (base_state c, w'))
         else (base_state c, w));
        (rest, w2) = container_rows d cs w1
      in (container_row c s # rest, w2))"

definition container_nodes :: "docker \<Rightarrow> container list \<Rightarrow> world \<Rightarrow> tree_node list \<times> world" where
  "container_nodes d cs w = container_rows d (sort_key container_display_name cs) w"

text \<open>The map that counts, built as the code builds it: one increment for every use, in order.\<close>

definition count_uses :: "string list \<Rightarrow> string \<Rightarrow> int" where
  "count_uses ks = fold (\<lambda>k m. m(k := m k + 1)) ks (\<lambda>_. 0)"

definition image_uses :: "container list \<Rightarrow> string list" where
  "image_uses cs = concat (map (\<lambda>c. if ctImageID c \<noteq> [] then [ctImageID c] else []) cs)"

definition is_dangling :: "image \<Rightarrow> bool" where
  "is_dangling im = (\<not> list_ex (\<lambda>tag. tag \<noteq> [] \<and> tag \<noteq> ''<none>:<none>'') (imRepoTags im))"

definition image_label :: "image \<Rightarrow> string" where
  "image_label im =
     (case find (\<lambda>tag. tag \<noteq> [] \<and> tag \<noteq> ''<none>:<none>'') (imRepoTags im) of
        Some tag \<Rightarrow> tag
      | None \<Rightarrow> ''<untagged> '' @ (let i = trim_prefix (imId im) ''sha256:'' in if length i > 12 then take 12 i else i))"

definition image_status :: "image \<Rightarrow> int \<Rightarrow> status" where
  "image_status im users =
     (let size' = human_bytes (imSize im) in
      if users > 0 then
        \<lparr>Tone = ToneOK,
         Tooltip = ''Used by '' @ dec_int users @ '' '' @ (if users > 1 then ''containers'' else ''container'') @ newline @ size'\<rparr>
      else if is_dangling im then \<lparr>Tone = ToneWarn, Tooltip = ''Dangling: untagged and unused'' @ newline @ size'\<rparr>
      else \<lparr>Tone = ToneNeutral, Tooltip = ''Not used by any container'' @ newline @ size'\<rparr>)"

definition image_row :: "image \<Rightarrow> int \<Rightarrow> tree_node" where
  "image_row im users =
     (plain_node (instance_id KindImage (imId im)) ''instance'' (image_label im))
       \<lparr>ndStatus := Some (image_status im users), ndActions := image_actions\<rparr>"

definition image_nodes :: "image list \<Rightarrow> container list \<Rightarrow> tree_node list" where
  "image_nodes ims cs =
     (let used_by = count_uses (image_uses cs) in
      sort_key ndLabel (map (\<lambda>im. image_row im (used_by (imId im))) ims))"

definition volume_uses :: "container list \<Rightarrow> string list" where
  "volume_uses cs = concat (map (\<lambda>c. filter (\<lambda>n. n \<noteq> []) (map mtName (ctMounts c))) cs)"

definition volume_row :: "volume \<Rightarrow> int \<Rightarrow> tree_node" where
  "volume_row v users =
     (plain_node (instance_id KindVolume (voName v)) ''instance'' (voName v))
       \<lparr>ndStatus := Some (volume_status \<lparr>vs_Driver = voDriver v, vs_Mountpoint = voMountpoint v, vs_Users = users\<rparr>),
        ndActions := volume_actions\<rparr>"

definition volume_nodes :: "volume list \<Rightarrow> container list \<Rightarrow> tree_node list" where
  "volume_nodes vs cs =
     (let used_by = count_uses (volume_uses cs) in
      sort_key ndLabel (map (\<lambda>v. volume_row v (used_by (voName v))) vs))"

definition network_uses :: "container list \<Rightarrow> string list" where
  "network_uses cs = concat (map ctNetworks cs)"

definition network_row :: "network \<Rightarrow> int \<Rightarrow> tree_node" where
  "network_row n users =
     (plain_node (instance_id KindNetwork (nwId n)) ''instance'' (nwName n))
       \<lparr>ndStatus := Some (network_status \<lparr>ns_Name = nwName n, ns_Driver = nwDriver n, ns_Scope = nwScope n,
          ns_Internal = nwInternal n, ns_Users = users\<rparr>),
        ndActions := network_actions (nwName n)\<rparr>"

definition network_nodes :: "network list \<Rightarrow> container list \<Rightarrow> tree_node list" where
  "network_nodes ns cs =
     (let used_by = count_uses (network_uses cs) in
      sort_key ndLabel (map (\<lambda>n. network_row n (used_by (nwName n))) ns))"

subsection \<open>Usage marks: the contract of the three lists\<close>

lemma count_uses_snoc: "count_uses (ks @ [k]) = (count_uses ks)(k := count_uses ks k + 1)"
  by (simp add: count_uses_def)

lemma count_uses_count: "count_uses ks k = int (count (mset ks) k)"
proof (induction ks rule: rev_induct)
  case Nil
  then show ?case by (simp add: count_uses_def)
next
  case (snoc x ks)
  then show ?case by (auto simp: count_uses_snoc)
qed

lemma count_uses_pos: "0 < count_uses ks k \<longleftrightarrow> k \<in> set ks"
  by (simp add: count_uses_count)

text \<open>
  Rows of resources marked by the containers that use them: \<open>uses\<close> lists the keys the containers name, once
  for every use, whatever order they come in; \<open>row\<close> draws one resource with its number of users.
\<close>

locale usage_rows =
  fixes nodes :: "'r list \<Rightarrow> container list \<Rightarrow> tree_node list"
    and uses :: "container list \<Rightarrow> string list"
    and key :: "'r \<Rightarrow> string"
    and row :: "'r \<Rightarrow> int \<Rightarrow> tree_node"
  assumes nodes_eq: "nodes rs cs = sort_key ndLabel (map (\<lambda>r. row r (count_uses (uses cs) (key r))) rs)"
    and uses_append: "uses (cs @ ds) = uses cs @ uses ds"
    and row_id: "ndId (row r n) = ndId (row r m)"
    and row_label: "ndLabel (row r n) = ndLabel (row r m)"
begin

lemma uses_Nil: "uses [] = []"
  using uses_append [of "[]" "[]"] by simp

lemma nodes_sorted: "sorted (map ndLabel (nodes rs cs))"
  by (simp add: nodes_eq)

lemma nodes_mset: "mset (nodes rs cs) = image_mset (\<lambda>r. row r (count_uses (uses cs) (key r))) (mset rs)"
  by (simp add: nodes_eq)

lemma nodes_members: "n \<in> set (nodes rs cs) \<longleftrightarrow> (\<exists>r \<in> set rs. n = row r (count_uses (uses cs) (key r)))"
  by (auto simp: nodes_eq)

lemma nodes_ids: "image_mset ndId (mset (nodes rs cs)) = image_mset (\<lambda>r. ndId (row r 0)) (mset rs)"
proof -
  have "ndId \<circ> (\<lambda>r. row r (count_uses (uses cs) (key r))) = (\<lambda>r. ndId (row r 0))"
    using row_id by (auto simp: fun_eq_iff)
  then show ?thesis by (simp add: nodes_mset multiset.map_comp comp_def)
qed

lemma uses_perm: "mset cs = mset ds \<Longrightarrow> mset (uses cs) = mset (uses ds)"
proof -
  have one: "mset (uses cs) = \<Sum>\<^sub># (image_mset (\<lambda>c. mset (uses [c])) (mset cs))" for cs
  proof (induction cs)
    case (Cons c cs)
    have "uses (c # cs) = uses [c] @ uses cs" using uses_append [of "[c]" cs] by simp
    then show ?case using Cons by simp
  qed (simp add: uses_Nil)
  assume "mset cs = mset ds"
  then show ?thesis using one [of cs] one [of ds] by simp
qed

text \<open>The order the daemon lists its containers in does not matter.\<close>

lemma nodes_perm: "mset cs = mset ds \<Longrightarrow> nodes rs cs = nodes rs ds"
  using uses_perm [of cs ds] by (simp add: nodes_eq count_uses_count)

text \<open>Without the containers the same rows are there, in the same order of labels, with no users.\<close>

lemma nodes_without: "map ndLabel (nodes rs []) = map ndLabel (nodes rs cs)"
proof -
  have "mset (map ndLabel (nodes rs cs)) = image_mset (\<lambda>r. ndLabel (row r 0)) (mset rs)" for cs
  proof -
    have "ndLabel \<circ> (\<lambda>r. row r (count_uses (uses cs) (key r))) = (\<lambda>r. ndLabel (row r 0))"
      using row_label by (auto simp: fun_eq_iff)
    then show ?thesis by (simp add: nodes_mset multiset.map_comp comp_def)
  qed
  then have "mset (map ndLabel (nodes rs [])) = mset (map ndLabel (nodes rs cs))" by simp
  then show ?thesis using nodes_sorted [of rs "[]"] nodes_sorted [of rs cs]
    by (metis properties_for_sort)
qed

end

interpretation images: usage_rows image_nodes image_uses imId image_row
  by unfold_locales (simp_all add: image_nodes_def image_uses_def image_row_def plain_node_def)

interpretation volumes: usage_rows volume_nodes volume_uses voName volume_row
  by unfold_locales (simp_all add: volume_nodes_def volume_uses_def volume_row_def plain_node_def)

interpretation networks: usage_rows network_nodes network_uses nwName network_row
  by unfold_locales (simp_all add: network_nodes_def network_uses_def network_row_def plain_node_def)

lemma row_simps [simp]:
  "ndId (image_row im n) = instance_id KindImage (imId im)" "ndLabel (image_row im n) = image_label im"
  "ndStatus (image_row im n) = Some (image_status im n)" "ndActions (image_row im n) = image_actions"
  "ndStatus (volume_row v n)
     = Some (volume_status \<lparr>vs_Driver = voDriver v, vs_Mountpoint = voMountpoint v, vs_Users = n\<rparr>)"
  "ndStatus (network_row nw n) = Some (network_status \<lparr>ns_Name = nwName nw, ns_Driver = nwDriver nw,
      ns_Scope = nwScope nw, ns_Internal = nwInternal nw, ns_Users = n\<rparr>)"
  "ndStatus (container_row c s) = Some (container_status s)" "ndActions (container_row c s) = container_actions (ctState c)"
  "ndId (volume_row v n) = instance_id KindVolume (voName v)" "ndLabel (volume_row v n) = voName v"
  "ndId (network_row nw n) = instance_id KindNetwork (nwId nw)" "ndLabel (network_row nw n) = nwName nw"
  "ndActions (network_row nw n) = network_actions (nwName nw)"
  "ndId (container_row c s) = instance_id KindContainer (ctId c)" "ndLabel (container_row c s) = container_display_name c"
  "ndKind (image_row im n) = ''instance''" "ndKind (volume_row v n) = ''instance''" "ndKind (network_row nw n) = ''instance''"
  "ndKind (container_row c s) = ''instance''"
  by (simp_all add: image_row_def volume_row_def network_row_def container_row_def plain_node_def)

lemma image_tone:
  "Tone (image_status im n) = (if 0 < n then ToneOK else if is_dangling im then ToneWarn else ToneNeutral)"
  by (simp add: image_status_def Let_def)

lemma image_uses_set: "i \<in> set (image_uses cs) \<longleftrightarrow> i \<noteq> [] \<and> (\<exists>c \<in> set cs. ctImageID c = i)"
  by (auto simp: image_uses_def)

lemma volume_uses_set: "v \<in> set (volume_uses cs) \<longleftrightarrow> v \<noteq> [] \<and> (\<exists>c \<in> set cs. \<exists>m \<in> set (ctMounts c). mtName m = v)"
  by (auto simp: volume_uses_def)

lemma network_uses_set: "n \<in> set (network_uses cs) \<longleftrightarrow> (\<exists>c \<in> set cs. n \<in> set (ctNetworks c))"
  by (auto simp: network_uses_def)

subsection \<open>Properties\<close>

text \<open>
  C39. The image list tells the truth about use: there is exactly one row for every image, rows are sorted by
  label, and a row is green exactly when some container was made from that very image id, amber exactly
  when none was and no tag reaches it, and neutral otherwise.
\<close>

theorem image_rows_tell_use:
  "mset (map ndId (image_nodes ims cs)) = mset (map (\<lambda>im. instance_id KindImage (imId im)) ims)
   \<and> sorted (map ndLabel (image_nodes ims cs))
   \<and> (\<forall>n \<in> set (image_nodes ims cs). \<exists>im \<in> set ims. \<exists>s. ndId n = instance_id KindImage (imId im) \<and> ndStatus n = Some s
        \<and> Tone s = (if imId im \<noteq> [] \<and> (\<exists>c \<in> set cs. ctImageID c = imId im) then ToneOK
                    else if is_dangling im then ToneWarn else ToneNeutral))"
proof (intro conjI ballI)
  show "mset (map ndId (image_nodes ims cs)) = mset (map (\<lambda>im. instance_id KindImage (imId im)) ims)"
    using images.nodes_ids [of ims cs] by simp
  show "sorted (map ndLabel (image_nodes ims cs))" by (rule images.nodes_sorted)
  fix n assume "n \<in> set (image_nodes ims cs)"
  then obtain im where im: "im \<in> set ims" "n = image_row im (count_uses (image_uses cs) (imId im))"
    by (auto simp: images.nodes_members)
  show "\<exists>im \<in> set ims. \<exists>s. ndId n = instance_id KindImage (imId im) \<and> ndStatus n = Some s
        \<and> Tone s = (if imId im \<noteq> [] \<and> (\<exists>c \<in> set cs. ctImageID c = imId im) then ToneOK
                    else if is_dangling im then ToneWarn else ToneNeutral)"
    by (rule bexI [OF _ im(1)]) (simp add: im(2) image_tone count_uses_pos image_uses_set)
qed

lemma image_rows_tell_use_witness:
  "\<exists>n s. image_nodes [zero_image\<lparr>imId := ''a''\<rparr>] [zero_container\<lparr>ctImageID := ''a''\<rparr>] = [n]
     \<and> ndStatus n = Some s \<and> Tone s = ToneOK"
proof -
  let ?im = "zero_image\<lparr>imId := ''a''\<rparr>" and ?c = "zero_container\<lparr>ctImageID := ''a''\<rparr>"
  obtain n where n: "image_nodes [?im] [?c] = [n]" by (simp add: image_nodes_def Let_def)
  from image_rows_tell_use [of "[?im]" "[?c]"] n
  obtain s where "ndStatus n = Some s \<and> Tone s = ToneOK" by auto
  with n show ?thesis by blast
qed

text \<open>
  The volume list tells the truth about use: one row for every volume, sorted by name, green exactly when
  some container mounts the volume of that name and amber otherwise; a bind mount, which has no name, never
  counts for a volume.
\<close>

theorem volume_rows_tell_use:
  "mset (map ndId (volume_nodes vs cs)) = mset (map (\<lambda>v. instance_id KindVolume (voName v)) vs)
   \<and> sorted (map ndLabel (volume_nodes vs cs))
   \<and> (\<forall>n \<in> set (volume_nodes vs cs). \<exists>v \<in> set vs. \<exists>s. ndLabel n = voName v \<and> ndStatus n = Some s
        \<and> Tone s = (if voName v \<noteq> [] \<and> (\<exists>c \<in> set cs. \<exists>m \<in> set (ctMounts c). mtName m = voName v) then ToneOK
                    else ToneWarn))"
proof (intro conjI ballI)
  show "mset (map ndId (volume_nodes vs cs)) = mset (map (\<lambda>v. instance_id KindVolume (voName v)) vs)"
    using volumes.nodes_ids [of vs cs] by simp
  show "sorted (map ndLabel (volume_nodes vs cs))" by (rule volumes.nodes_sorted)
  fix n assume "n \<in> set (volume_nodes vs cs)"
  then obtain v where v: "v \<in> set vs" "n = volume_row v (count_uses (volume_uses cs) (voName v))"
    by (auto simp: volumes.nodes_members)
  show "\<exists>v \<in> set vs. \<exists>s. ndLabel n = voName v \<and> ndStatus n = Some s
        \<and> Tone s = (if voName v \<noteq> [] \<and> (\<exists>c \<in> set cs. \<exists>m \<in> set (ctMounts c). mtName m = voName v) then ToneOK
                    else ToneWarn)"
    by (rule bexI [OF _ v(1)]) (simp add: v(2) volume_tone count_uses_pos volume_uses_set)
qed

lemma volume_rows_tell_use_witness:
  "\<exists>n s. volume_nodes [zero_volume\<lparr>voName := ''a''\<rparr>] [] = [n] \<and> ndStatus n = Some s \<and> Tone s = ToneWarn"
proof -
  let ?v = "zero_volume\<lparr>voName := ''a''\<rparr>"
  obtain n where n: "volume_nodes [?v] [] = [n]" by (simp add: volume_nodes_def Let_def)
  from volume_rows_tell_use [of "[?v]" "[]"] n
  obtain s where "ndStatus n = Some s \<and> Tone s = ToneWarn" by auto
  with n show ?thesis by blast
qed

text \<open>
  The network list tells the truth about use, and protects what Docker depends on: one row for every
  network, sorted by name; the three built-in networks are neutral and offer no removal, any other offers it
  and is green exactly when some container is attached to the network of that name.
\<close>

theorem network_rows_tell_use:
  "mset (map ndId (network_nodes ns cs)) = mset (map (\<lambda>n. instance_id KindNetwork (nwId n)) ns)
   \<and> sorted (map ndLabel (network_nodes ns cs))
   \<and> (\<forall>r \<in> set (network_nodes ns cs). \<exists>n \<in> set ns. \<exists>s. ndLabel r = nwName n \<and> ndStatus r = Some s
        \<and> Tone s = (if nwName n \<in> {''bridge'', ''host'', ''none''} then ToneNeutral
                    else if \<exists>c \<in> set cs. nwName n \<in> set (ctNetworks c) then ToneOK else ToneWarn)
        \<and> (ActionNetworkRemove \<in> acId ` set (ndActions r) \<longleftrightarrow> nwName n \<notin> {''bridge'', ''host'', ''none''}))"
proof -
  have acts: "ActionNetworkRemove \<in> acId ` set (network_actions m) \<longleftrightarrow> m \<notin> {''bridge'', ''host'', ''none''}" for m
    by (simp add: network_actions_def plain_action_def action_ids Let_def)
  show ?thesis
  proof (intro conjI ballI)
    show "mset (map ndId (network_nodes ns cs)) = mset (map (\<lambda>n. instance_id KindNetwork (nwId n)) ns)"
      using networks.nodes_ids [of ns cs] by simp
    show "sorted (map ndLabel (network_nodes ns cs))" by (rule networks.nodes_sorted)
    fix r assume "r \<in> set (network_nodes ns cs)"
    then obtain n where n: "n \<in> set ns" "r = network_row n (count_uses (network_uses cs) (nwName n))"
      by (auto simp: networks.nodes_members)
    show "\<exists>n \<in> set ns. \<exists>s. ndLabel r = nwName n \<and> ndStatus r = Some s
        \<and> Tone s = (if nwName n \<in> {''bridge'', ''host'', ''none''} then ToneNeutral
                    else if \<exists>c \<in> set cs. nwName n \<in> set (ctNetworks c) then ToneOK else ToneWarn)
        \<and> (ActionNetworkRemove \<in> acId ` set (ndActions r) \<longleftrightarrow> nwName n \<notin> {''bridge'', ''host'', ''none''})"
      by (rule bexI [OF _ n(1)])
        (simp add: n(2) network_tone builtin_network_def count_uses_pos network_uses_set acts [unfolded image_iff] image_iff)
  qed
qed

lemma network_rows_tell_use_witness:
  "\<exists>n s. network_nodes [zero_network\<lparr>nwName := ''host''\<rparr>] [] = [n] \<and> ndStatus n = Some s
     \<and> Tone s = ToneNeutral \<and> ActionNetworkRemove \<notin> acId ` set (ndActions n)"
proof -
  let ?v = "zero_network\<lparr>nwName := ''host''\<rparr>"
  obtain n where n: "network_nodes [?v] [] = [n]" by (simp add: network_nodes_def Let_def)
  have "nwName ?v \<in> {''bridge'', ''host'', ''none''}" by simp
  with network_rows_tell_use [of "[?v]" "[]"] n
  obtain s where "ndStatus n = Some s \<and> Tone s = ToneNeutral \<and> ActionNetworkRemove \<notin> acId ` set (ndActions n)"
    by (auto simp del: insert_iff)
  with n show ?thesis by blast
qed

text \<open>
  The marks depend on which containers there are, not on the order the daemon lists them in; and when the
  container list is missing only the marks are lost: the rows and their order are the same.
\<close>

theorem usage_marks_stable:
  assumes "mset cs = mset ds"
  shows "image_nodes ims cs = image_nodes ims ds \<and> volume_nodes vs cs = volume_nodes vs ds
    \<and> network_nodes ns cs = network_nodes ns ds
    \<and> map ndLabel (image_nodes ims []) = map ndLabel (image_nodes ims cs)
    \<and> map ndLabel (volume_nodes vs []) = map ndLabel (volume_nodes vs cs)
    \<and> map ndLabel (network_nodes ns []) = map ndLabel (network_nodes ns cs)"
  using images.nodes_perm [OF assms] volumes.nodes_perm [OF assms] networks.nodes_perm [OF assms]
    images.nodes_without volumes.nodes_without networks.nodes_without by blast

lemma usage_marks_stable_witness:
  "image_nodes [] [zero_container, zero_container\<lparr>ctId := ''a''\<rparr>] = image_nodes [] [zero_container\<lparr>ctId := ''a''\<rparr>, zero_container]"
  using usage_marks_stable [of "[zero_container, zero_container\<lparr>ctId := ''a''\<rparr>]" "[zero_container\<lparr>ctId := ''a''\<rparr>, zero_container]"]
  by (simp add: add_mset_commute)

text \<open>
  A container's menu offers what its state allows and nothing else: start exactly when it neither runs nor
  is paused, stop and pause exactly when it runs, resume exactly when it is paused, restart and kill in
  either; always logs, console, inspect and remove; no entry twice; and exactly one entry, the removal, answers
  the delete key.
\<close>

theorem container_menu:
  "(let r = equal_fold state ''running''; p = equal_fold state ''paused'';
        ids = map acId (container_actions state) in
     distinct ids \<and> (ActionContainerStart \<in> set ids \<longleftrightarrow> \<not> r \<and> \<not> p)
     \<and> (ActionContainerStop \<in> set ids \<longleftrightarrow> r) \<and> (ActionContainerPause \<in> set ids \<longleftrightarrow> r)
     \<and> (ActionContainerResume \<in> set ids \<longleftrightarrow> p) \<and> (ActionContainerRestart \<in> set ids \<longleftrightarrow> r \<or> p)
     \<and> (ActionContainerKill \<in> set ids \<longleftrightarrow> r \<or> p)
     \<and> {ActionContainerLogs, ActionContainerConsole, ActionContainerInspect, ActionContainerRemove} \<subseteq> set ids
     \<and> map acId (filter (\<lambda>a. acRole a \<noteq> []) (container_actions state)) = [ActionContainerRemove])"
proof -
  have "\<not> (equal_fold state ''running'' \<and> equal_fold state ''paused'')"
    by (simp add: equal_fold_def lower_char_def)
  then show ?thesis
    by (cases "equal_fold state ''running''"; cases "equal_fold state ''paused''")
      (simp_all add: container_actions_def plain_action_def action_ids RoleDelete_def Let_def)
qed

lemma container_rows_spec:
  assumes "version_plain d"
  shows "wTrace (snd (container_rows d cs w)) = wTrace w @
      map (\<lambda>c. EvHttp (dkStream d) ''GET'' (object_path d ''/containers/'' (ctId c) ''/json'') None)
        (filter (\<lambda>c. needs_detail (ctState c)) cs)
    \<and> map ndId (fst (container_rows d cs w)) = map (\<lambda>c. instance_id KindContainer (ctId c)) cs
    \<and> map ndLabel (fst (container_rows d cs w)) = map container_display_name cs
    \<and> map ndActions (fst (container_rows d cs w)) = map (\<lambda>c. container_actions (ctState c)) cs"
proof (induction cs arbitrary: w)
  case (Cons c cs)
  show ?case
  proof (cases "needs_detail (ctState c)")
    case False
    then show ?thesis using Cons [of w] by (simp add: split_beta Let_def)
  next
    case True
    obtain r w1 where r: "inspect_container d (ctId c) w = (r, w1)" by (cases "inspect_container d (ctId c) w")
    have "asks d ''GET'' ''/containers/'' (ctId c) ''/json'' [] (inspect_container d (ctId c) w) w"
      using operations_address_one_object [OF assms] by blast
    then have t: "wTrace w1 = wTrace w @ [EvHttp (dkStream d) ''GET'' (object_path d ''/containers/'' (ctId c) ''/json'') None]"
      by (simp add: asks_def r request_target_def)
    show ?thesis using True Cons [of w1] t r by (cases r) (simp_all add: split_beta Let_def)
  qed
qed simp

text \<open>
  C40. The container list costs one look at each container whose dot can hide something: enumerating sends
  exactly one inspect request for every container that is running or exited, in the order of the rows, and
  none for the others; there is one row for every container, sorted by name, with the menu of its state.
\<close>

theorem container_list_costs:
  assumes "version_plain d"
  shows "wTrace (snd (container_nodes d cs w)) = wTrace w @
      map (\<lambda>c. EvHttp (dkStream d) ''GET'' (object_path d ''/containers/'' (ctId c) ''/json'') None)
        (filter (\<lambda>c. needs_detail (ctState c)) (sort_key container_display_name cs))
    \<and> mset (map ndId (fst (container_nodes d cs w))) = mset (map (\<lambda>c. instance_id KindContainer (ctId c)) cs)
    \<and> sorted (map ndLabel (fst (container_nodes d cs w)))
    \<and> map ndActions (fst (container_nodes d cs w))
        = map (\<lambda>c. container_actions (ctState c)) (sort_key container_display_name cs)"
  unfolding container_nodes_def using container_rows_spec [OF assms, of "sort_key container_display_name cs" w]
  by (simp add: mset_map [symmetric] del: mset_map) (simp add: mset_map)

lemma container_list_costs_witness:
  "wTrace (snd (container_nodes (new_client 0) [zero_container\<lparr>ctId := ''b'', ctState := ''running''\<rparr>,
       zero_container\<lparr>ctId := ''a'', ctState := ''created''\<rparr>] quiet_world))
     = [EvHttp 0 ''GET'' ''/v1.45/containers/b/json'' None]"
proof -
  let ?cs = "[zero_container\<lparr>ctId := ''b'', ctState := ''running''\<rparr>, zero_container\<lparr>ctId := ''a'', ctState := ''created''\<rparr>]"
  have "version_plain (new_client 0)" by code_simp
  from container_list_costs [OF this, of ?cs quiet_world]
  have t: "wTrace (snd (container_nodes (new_client 0) ?cs quiet_world)) = wTrace quiet_world @
      map (\<lambda>c. EvHttp (dkStream (new_client 0)) ''GET'' (object_path (new_client 0) ''/containers/'' (ctId c) ''/json'') None)
        (filter (\<lambda>c. needs_detail (ctState c)) (sort_key container_display_name ?cs))"
    by (rule conjunct1)
  have "filter (\<lambda>c. needs_detail (ctState c)) (sort_key container_display_name ?cs)
      = [zero_container\<lparr>ctId := ''b'', ctState := ''running''\<rparr>]" by code_simp
  moreover have "object_path (new_client 0) ''/containers/'' ''b'' ''/json'' = ''/v1.45/containers/b/json''" by code_simp
  moreover have "dkStream (new_client 0) = 0" "wTrace quiet_world = []" by (simp_all add: new_client_def quiet_world_def)
  ultimately show ?thesis unfolding t by simp
qed

lemma round_div_near: "0 < b \<Longrightarrow> 2 * \<bar>int (round_div a b * b) - int a\<bar> \<le> int b"
proof -
  assume b: "0 < b"
  have a: "int a = int (a div b) * int b + int (a mod b)"
    by (metis div_mult_mod_eq of_nat_add of_nat_mult)
  have "a mod b < b" using b by simp
  then show ?thesis
    by (auto simp: round_div_def Let_def a algebra_simps)
qed

lemma unit_loop_inv:
  assumes "unit_loop s dv e = (divisor, e')" and "s = n div dv" and "dv = 1024 ^ (e + 1)" and "e \<le> 3" and "dv \<le> n"
  shows "divisor = 1024 ^ (e' + 1) \<and> e' \<le> 3 \<and> divisor \<le> n \<and> (e' < 3 \<longrightarrow> n < 1024 * divisor)"
  using assms
proof (induction s dv e rule: unit_loop.induct)
  case (1 s dv e)
  show ?case
  proof (cases "1024 \<le> s \<and> e < 3")
    case True
    have "1024 * dv \<le> n" using True 1(3,4) by (metis less_eq_div_iff_mult_less_eq nat_less_le not_le mult.commute zero_less_power zero_less_numeral)
    have step: "unit_loop (s div 1024) (dv * 1024) (e + 1) = (divisor, e')"
      using 1(2) True by (simp add: unit_loop.simps [of s])
    have "s div 1024 = n div (dv * 1024)" by (simp only: 1(3) div_mult2_eq)
    moreover have "dv * 1024 = 1024 ^ (e + 1 + 1)" "e + 1 \<le> 3" using 1(4) True by simp_all
    ultimately have "s div 1024 = n div (dv * 1024)" "dv * 1024 = 1024 ^ (e + 1 + 1)" "e + 1 \<le> 3" by blast+
    moreover have "dv * 1024 \<le> n" using \<open>1024 * dv \<le> n\<close> by (simp add: mult.commute)
    ultimately show ?thesis by (intro 1(1) [OF True step])
  next
    case False
    have pos: "0 < dv" using 1(4) by simp
    have "n < 1024 * dv" if "s < 1024" using that 1(3) pos by (simp add: div_less_iff_less_mult mult.commute)
    moreover have "divisor = dv" "e' = e" using 1(2) False by (simp_all add: unit_loop.simps [of s dv e])
    moreover have "e < 3 \<longrightarrow> s < 1024" using False by linarith
    ultimately show ?thesis using 1(4,5,6) by simp
  qed
qed

text \<open>
  A size is shown rounded to the nearest tenth of the right unit: for every size from a KiB up to 2^53
  bytes the unit is the largest of K, M, G and T that does not exceed it, and the number printed is within
  half a tenth of that unit of the exact value.
\<close>

theorem human_bytes_rounded:
  assumes "1024 \<le> n" and "n < 2 ^ 53"
  shows "\<exists>divisor e t. e \<le> 3 \<and> divisor = 1024 ^ (e + 1) \<and> divisor \<le> n \<and> (e < 3 \<longrightarrow> n < 1024 * divisor)
    \<and> human_bytes (int n) = dec_nat (t div 10) @ ''.'' @ dec_nat (t mod 10) @ '' '' @ [''KMGT'' ! e] @ ''B''
    \<and> 2 * \<bar>int (t * divisor) - int (10 * n)\<bar> \<le> int divisor"
proof -
  obtain divisor e where loop: "unit_loop (n div 1024) 1024 0 = (divisor, e)" by (cases "unit_loop (n div 1024) 1024 0")
  have inv: "divisor = 1024 ^ (e + 1) \<and> e \<le> 3 \<and> divisor \<le> n \<and> (e < 3 \<longrightarrow> n < 1024 * divisor)"
    by (rule unit_loop_inv [OF loop refl]) (use assms(1) in simp_all)
  have exact: "float64_of n = n" using assms(2) by (simp add: float64_of_def excess_bits.simps)
  have "0 < divisor" using inv by simp
  from round_div_near [OF this, of "10 * n"]
  have near: "2 * \<bar>int (round_div (10 * n) divisor * divisor) - int (10 * n)\<bar> \<le> int divisor" .
  have "human_bytes (int n) = dec_nat (round_div (10 * n) divisor div 10) @ ''.''
      @ dec_nat (round_div (10 * n) divisor mod 10) @ '' '' @ [''KMGT'' ! e] @ ''B''"
    using assms(1) loop exact by (simp add: human_bytes_def one_decimal_def Let_def)
  with near inv show ?thesis by blast
qed

lemma human_bytes_rounded_witness: "\<exists>t e. human_bytes 1536 = dec_nat (t div 10) @ ''.'' @ dec_nat (t mod 10) @ '' '' @ [''KMGT'' ! e] @ ''B''"
  using human_bytes_rounded [of 1536] by auto

lemma port_parts_spec:
  "distinct (port_parts seen ps) \<and> set (port_parts seen ps) = port_text ` set ps - set seen"
  by (induction seen ps rule: port_parts.induct) auto

text \<open>
  A port that reaches several stacks is shown once: the texts are those of the ports, each exactly once,
  in the order of their first appearance.
\<close>

theorem ports_shown_once:
  "\<exists>texts. format_ports ps = join '', '' texts \<and> distinct texts \<and> set texts = port_text ` set ps"
  using port_parts_spec [of "[]" ps]
  by (intro exI [of _ "port_parts [] ps"]) (auto simp: format_ports_def)



end
