(* ===== verification/Values.thy ===== *)
theory Values
  imports Forms Tree
begin

text \<open>
  Documents decoded without a type (\<open>map[string]any\<close>), as the inspect views of \<open>internal/usecase/dialogs.go\<close>
  use them: what Go's \<open>encoding/json\<close> makes of a number is a \<open>float64\<close>, what it prints of one is the shortest
  decimal that reads back as it (package strconv). A float is a sign and a mantissa of at most 53 bits with
  a power of two.
\<close>

subsection \<open>Numbers\<close>

record float64 =
  flNeg :: bool
  flMant :: nat
  flExp :: int

fun bit_length :: "nat \<Rightarrow> nat" where
  "bit_length n = (if n = 0 then 0 else Suc (bit_length (n div 2)))"

declare bit_length.simps [simp del]

text \<open>\<open>a / b\<close> over \<open>base ^ e\<close>, again as a ratio.\<close>

definition scaled :: "nat \<Rightarrow> nat \<Rightarrow> nat \<Rightarrow> int \<Rightarrow> nat \<times> nat" where
  "scaled base a b e = (if e \<ge> 0 then (a, b * base ^ nat e) else (a * base ^ nat (- e), b))"

text \<open>The float nearest to \<open>a / b\<close>, which is not zero: mantissa and exponent, \<open>None\<close> beyond the greatest float.\<close>

definition float_of_ratio :: "nat \<Rightarrow> nat \<Rightarrow> (nat \<times> int) option" where
  "float_of_ratio a b =
     (let e0 = int (bit_length a) - int (bit_length b) - 53;
          e1 = (case scaled 2 a b e0 of (x, y) \<Rightarrow> if x div y < 2 ^ 53 then e0 else e0 + 1);
          e2 = max e1 (- 1074);
          m = (case scaled 2 a b e2 of (x, y) \<Rightarrow> round_div x y);
          (m', e') = (if m = 2 ^ 53 then (2 ^ 52, e2 + 1) else (m, e2))
      in if e' > 971 then None else Some (m', e'))"

text \<open>A literal: its sign, its digits without the point, and the power of ten.\<close>

definition literal_parts :: "string \<Rightarrow> bool \<times> nat \<times> int" where
  "literal_parts s =
     (let neg = has_prefix s ''-''; t = trim_prefix s ''-'';
          whole = takeWhile is_digit t; r = dropWhile is_digit t;
          part = (if has_prefix r ''.'' then takeWhile is_digit (drop 1 r) else []);
          q = (if has_prefix r ''.'' then dropWhile is_digit (drop 1 r) else r);
          u = drop 1 q;
          ex = (if has_prefix u ''-'' then - int (digits_val (drop 1 u))
                else if has_prefix u ''+'' then int (digits_val (drop 1 u)) else int (digits_val u))
      in (neg, digits_val (whole @ part), ex - int (length part)))"

text \<open>\<open>strconv.ParseFloat\<close>; the first two tests only keep the powers of ten small.\<close>

definition parse_float :: "string \<Rightarrow> float64 option" where
  "parse_float s =
     (case literal_parts s of (neg, n, e) \<Rightarrow>
        if n = 0 \<or> e + int (length (dec_nat n)) < - 330 then Some \<lparr>flNeg = neg, flMant = 0, flExp = 0\<rparr>
        else if e > 310 then None
        else (case scaled 10 n 1 (- e) of (a, b) \<Rightarrow>
                map_option (\<lambda>(m, x). \<lparr>flNeg = neg, flMant = m, flExp = x\<rparr>) (float_of_ratio a b)))"

fun zeros_after_point :: "nat \<Rightarrow> nat \<Rightarrow> nat \<Rightarrow> nat" where
  "zeros_after_point 0 a b = 0"
| "zeros_after_point (Suc fuel) a b = (if 10 * a \<ge> b then 0 else Suc (zeros_after_point fuel (10 * a) b))"

text \<open>
  The decimals of \<open>k\<close> digits on both sides of the value, where the point is \<open>p\<close> digits into it: the one that
  reads back as the float, the nearer one if both do.
\<close>

definition try_digits :: "nat \<times> int \<Rightarrow> nat \<Rightarrow> nat \<Rightarrow> int \<Rightarrow> nat \<Rightarrow> nat option" where
  "try_digits x a b p k =
     (case scaled 10 a b (p - int k) of (c, d) \<Rightarrow>
        (let back = (\<lambda>q. case scaled 10 q 1 (int k - p) of (u, v) \<Rightarrow> q \<noteq> 0 \<and> float_of_ratio u v = Some x);
             lo = c div d; hi = lo + 1
         in if back lo \<and> back hi then Some (round_div c d)
            else if back lo then Some lo
            else if back hi then Some hi
            else None))"

fun first_digits :: "nat \<Rightarrow> (nat \<Rightarrow> nat option) \<Rightarrow> nat \<Rightarrow> nat \<times> nat" where
  "first_digits 0 f k = (0, k)"
| "first_digits (Suc fuel) f k = (case f k of Some d \<Rightarrow> (d, k) | None \<Rightarrow> first_digits fuel f (k + 1))"

text \<open>
  The digits of the shortest decimal, without zeros at the end, and where its point is. Seventeen digits always
  read back.
\<close>

definition shortest :: "nat \<times> int \<Rightarrow> string \<times> int" where
  "shortest x =
     (case scaled 2 (fst x) 1 (- snd x) of (a, b) \<Rightarrow>
        (let p = (if a \<ge> b then int (length (dec_nat (a div b))) else - int (zeros_after_point 400 a b));
             (d, k) = first_digits 17 (try_digits x a b p) 1;
             ds = dec_nat d
         in (rev (dropWhile (\<lambda>c. c = CHR ''0'') (rev ds)), p + int (length ds) - int k)))"

text \<open>The format \<open>'f'\<close> and the format \<open>'e'\<close> as JSON uses it, for digits with the point after \<open>p\<close> of them.\<close>

definition plain_text :: "string \<times> int \<Rightarrow> string" where
  "plain_text dp =
     (case dp of (ds, p) \<Rightarrow>
        if p \<le> 0 then ''0.'' @ replicate (nat (- p)) (CHR ''0'') @ ds
        else if int (length ds) \<le> p then ds @ replicate (nat p - length ds) (CHR ''0'')
        else take (nat p) ds @ ''.'' @ drop (nat p) ds)"

definition exponent_text :: "string \<times> int \<Rightarrow> string" where
  "exponent_text dp =
     (case dp of (ds, p) \<Rightarrow>
        take 1 ds @ (if length ds = 1 then [] else ''.'' @ drop 1 ds) @ ''e''
          @ (if p - 1 < 0 then ''-'' @ dec_nat (nat (1 - p)) else ''+'' @ dec_nat (nat (p - 1))))"

definition sign_text :: "float64 \<Rightarrow> string" where
  "sign_text f = (if flNeg f then ''-'' else [])"

text \<open>\<open>strconv.FormatFloat(f, 'f', -1, 64)\<close>\<close>

definition float_text :: "float64 \<Rightarrow> string" where
  "float_text f =
     sign_text f @ (if flMant f = 0 then ''0'' else plain_text (shortest (flMant f, flExp f)))"

text \<open>A number as JSON prints it: with an exponent below \<open>1e-6\<close> and from \<open>1e21\<close>.\<close>

definition float_json :: "float64 \<Rightarrow> string" where
  "float_json f =
     sign_text f @
       (if flMant f = 0 then ''0''
        else (let dp = shortest (flMant f, flExp f) in
              if snd dp < - 5 \<or> snd dp > 21 then exponent_text dp else plain_text dp))"

subsection \<open>Values\<close>

datatype go_any =
    ANil
  | ABool bool
  | ANum float64
  | AStr string
  | AList "go_any list"
  | AMap "(string \<times> go_any) list"

text \<open>\<open>None\<close> where a number is beyond the floats.\<close>

fun any_of :: "json \<Rightarrow> go_any option"
and any_elems :: "json list \<Rightarrow> go_any list option"
and any_members :: "(string \<times> json) list \<Rightarrow> (string \<times> go_any) list \<Rightarrow> (string \<times> go_any) list option" where
  "any_of JNull = Some ANil"
| "any_of (JBool b) = Some (ABool b)"
| "any_of (JNum n) = map_option ANum (parse_float n)"
| "any_of (JStr r) = Some (AStr (unquote r))"
| "any_of (JArr vs) = map_option AList (any_elems vs)"
| "any_of (JObj ms) = map_option AMap (any_members ms [])"
| "any_elems [] = Some []"
| "any_elems (v # vs) =
     (case any_of v of None \<Rightarrow> None | Some x \<Rightarrow> map_option (\<lambda>xs. x # xs) (any_elems vs))"
| "any_members [] m = Some m"
| "any_members ((k, v) # ms) m =
     (case any_of v of None \<Rightarrow> None | Some x \<Rightarrow> any_members ms (assoc_set (unquote k) x m))"

fun any_json :: "go_any \<Rightarrow> json" where
  "any_json ANil = JNull"
| "any_json (ABool b) = JBool b"
| "any_json (ANum f) = JNum (float_json f)"
| "any_json (AStr s) = json_str s"
| "any_json (AList xs) = JArr (map any_json xs)"
| "any_json (AMap m) = JObj (map (\<lambda>(k, j). (quote k, j)) (sort_key fst (map (\<lambda>(k, x). (k, any_json x)) m)))"

subsection \<open>The inspect views\<close>

definition pretty_json :: "string \<Rightarrow> string" where
  "pretty_json raw =
     (case parse_all raw of
        None \<Rightarrow> raw
      | Some j \<Rightarrow> (case any_of j of None \<Rightarrow> raw | Some x \<Rightarrow> print_indent 0 (any_json x) @ [CHR 0x0A]))"

fun to_text :: "go_any \<Rightarrow> string" where
  "to_text (AStr s) = s"
| "to_text (ANum f) = float_text f"
| "to_text (ABool b) = (if b then ''true'' else ''false'')"
| "to_text (AList xs) = join '' '' (map to_text xs)"
| "to_text (AMap m) = []"
| "to_text ANil = []"

text \<open>A missing key reads as \<open>nil\<close>.\<close>

definition entry :: "string \<Rightarrow> (string \<times> go_any) list \<Rightarrow> go_any" where
  "entry k m = (case map_of m k of None \<Rightarrow> ANil | Some x \<Rightarrow> x)"

definition sub_map :: "string \<Rightarrow> (string \<times> go_any) list \<Rightarrow> (string \<times> go_any) list option" where
  "sub_map k m = (case entry k m of AMap x \<Rightarrow> Some x | _ \<Rightarrow> None)"

definition summary_line :: "string \<Rightarrow> go_any \<Rightarrow> string list" where
  "summary_line label x =
     (if x = ANil then []
      else (let text' = trim_space (to_text x) in
            if text' \<noteq> [] \<and> text' \<noteq> ''<nil>'' then [label @ '': '' @ text'] else []))"

definition summary_lines :: "(string \<times> go_any) list \<Rightarrow> string list" where
  "summary_lines doc =
     summary_line ''Name'' (entry ''Name'' doc)
     @ (case sub_map ''Config'' doc of None \<Rightarrow> []
        | Some config \<Rightarrow> summary_line ''Image'' (entry ''Image'' config) @ summary_line ''Command'' (entry ''Cmd'' config)
            @ summary_line ''Working dir'' (entry ''WorkingDir'' config))
     @ (case sub_map ''State'' doc of None \<Rightarrow> []
        | Some state \<Rightarrow> summary_line ''State'' (entry ''Status'' state) @ summary_line ''Started'' (entry ''StartedAt'' state)
            @ summary_line ''Finished'' (entry ''FinishedAt'' state) @ summary_line ''Exit code'' (entry ''ExitCode'' state))
     @ summary_line ''Driver'' (entry ''Driver'' doc) @ summary_line ''Mountpoint'' (entry ''Mountpoint'' doc)
     @ summary_line ''Scope'' (entry ''Scope'' doc) @ summary_line ''Created'' (entry ''Created'' doc)
     @ summary_line ''Size'' (entry ''Size'' doc)"

definition summarize :: "string \<Rightarrow> string" where
  "summarize raw =
     (case parse_all raw of
        Some (JObj ms) \<Rightarrow>
          (case any_members ms [] of None \<Rightarrow> [] | Some doc \<Rightarrow> join [CHR 0x0A] (summary_lines doc))
      | _ \<Rightarrow> [])"

end
