(* ===== verification/Publish.thy ===== *)
theory Publish
  imports Tree Connection
begin

text \<open>
  Drawing the tree (\<open>internal/usecase/publish.go\<close>): one branch is enumerated and sent to the host as one
  snapshot, and the ids of its rows are recorded. The wire form of a row is that of the JSON tags in
  \<open>usecase/tree.go\<close>. An operation gets the connection and the world and gives back both. The host's answer
  to a snapshot is only logged, so it is dropped here; logging itself is not modelled.
\<close>

subsection \<open>The wire form of a row\<close>

fun tone_text :: "tone \<Rightarrow> string" where
  "tone_text ToneOK = ''ok''"
| "tone_text ToneWarn = ''warn''"
| "tone_text ToneError = ''error''"
| "tone_text ToneBusy = ''busy''"
| "tone_text ToneNeutral = ''neutral''"
| "tone_text ToneUnknown = ''unknown''"

definition status_json :: "status \<Rightarrow> json" where
  "status_json s = JObj ((''tone'', json_str (tone_text (Tone s))) # str_field ''tooltip'' (Tooltip s))"

definition action_json :: "action \<Rightarrow> json" where
  "action_json a =
     JObj ((''id'', json_str (acId a)) # (''label'', json_str (acLabel a)) # bool_field ''danger'' (acDanger a)
       @ str_field ''confirm'' (acConfirm a) @ bool_field ''multi'' (acMulti a) @ str_field ''role'' (acRole a))"

definition node_json :: "tree_node \<Rightarrow> json" where
  "node_json n =
     JObj ((''id'', json_str (ndId n)) # (''kind'', json_str (ndKind n)) # (''label'', json_str (ndLabel n))
       # str_field ''iconId'' (ndIcon n) @ (if ndOrder n = 0 then [] else [(''order'', json_int (ndOrder n))])
       @ (case ndStatus n of None \<Rightarrow> [] | Some s \<Rightarrow> [(''status'', status_json s)])
       @ (if ndActions n = [] then [] else [(''actions'', JArr (map action_json (ndActions n)))])
       @ str_field ''defaultActionId'' (ndDefault n))"

text \<open>A nil slice of rows is \<open>null\<close> on the wire. The keys of a Go map are sent sorted.\<close>

definition children_json :: "tree_node list option \<Rightarrow> json" where
  "children_json ch = (case ch of None \<Rightarrow> JNull | Some ns \<Rightarrow> JArr (map node_json ns))"

definition publish_payload :: "string \<Rightarrow> string \<Rightarrow> tree_node list option \<Rightarrow> string \<Rightarrow> string \<Rightarrow> json" where
  "publish_payload session node ch state msg =
     JObj ([(''children'', children_json ch)] @ (if msg = [] then [] else [(''error'', json_str msg)])
       @ [(''nodeId'', json_str node), (''sessionId'', json_str session), (''state'', json_str state)])"

subsection \<open>One branch\<close>

definition remember_row :: "tree_node \<Rightarrow> connection \<Rightarrow> connection" where
  "remember_row n c =
     (if ndKind n = ''instance'' then
        (case parse_instance_id (ndId n) of Inr (k, i) \<Rightarrow> remember (ndId n) i c | Inl _ \<Rightarrow> c)
      else c)"

definition rows_of :: "tree_node list option \<Rightarrow> tree_node list" where
  "rows_of ch = (case ch of None \<Rightarrow> [] | Some ns \<Rightarrow> ns)"

definition publish ::
  "string \<Rightarrow> tree_node list option \<Rightarrow> string \<Rightarrow> string \<Rightarrow> connection \<times> world \<Rightarrow> connection \<times> world" where
  "publish node ch state msg cw =
     (case cw of (c, w) \<Rightarrow>
        (fold remember_row (rows_of ch) c,
         snd (host_call ''discovery.publish'' (publish_payload (cxSession c) node ch state msg) w)))"

definition publish_error :: "string \<Rightarrow> go_error \<Rightarrow> connection \<times> world \<Rightarrow> connection \<times> world" where
  "publish_error node e = publish node None ''error'' (user_message (Some e))"

definition publish_ready :: "string \<Rightarrow> tree_node list \<Rightarrow> connection \<times> world \<Rightarrow> connection \<times> world" where
  "publish_ready node ns = publish node (Some ns) ''ready'' []"

definition docker_node :: "status option \<Rightarrow> tree_node" where
  "docker_node s = (plain_node NodeRoot ''group'' ''Docker'')\<lparr>ndIcon := IconDocker, ndStatus := s\<rparr>"

definition docker_error_node :: "go_error \<Rightarrow> tree_node" where
  "docker_error_node e = docker_node (Some \<lparr>Tone = ToneError, Tooltip = user_message (Some e)\<rparr>)"

text \<open>A client shared through the connection was changed in place.\<close>

definition store_client :: "docker \<Rightarrow> connection \<Rightarrow> connection" where
  "store_client d c =
     (case cxControl c of
        Some x \<Rightarrow> if dkStream x = dkStream d then c\<lparr>cxControl := Some d\<rparr> else c
      | None \<Rightarrow> c)"

definition refresh_root :: "connection \<times> world \<Rightarrow> connection \<times> world" where
  "refresh_root cw =
     (case cw of (c, w) \<Rightarrow>
      case control c w of
        (Inl e, c1, w1) \<Rightarrow> publish_ready [] [docker_error_node e] (c1, w1)
      | (Inr d, c1, w1) \<Rightarrow>
          (case negotiate d w1 of
             (Inl e, d1, w2) \<Rightarrow> publish_ready [] [docker_error_node e] (store_client d1 c1, w2)
           | (Inr _, d1, w2) \<Rightarrow> publish_ready [] [docker_node None] (store_client d1 c1, w2)))"

text \<open>The length of a list that could be had.\<close>

definition count_list :: "(go_error + 'a list) \<times> world \<Rightarrow> int \<times> world" where
  "count_list r = (case r of (Inr xs, w) \<Rightarrow> (int (length xs), w) | (Inl _, w) \<Rightarrow> (0, w))"

definition count_groups :: "docker \<Rightarrow> world \<Rightarrow> (string \<Rightarrow> int) \<times> world" where
  "count_groups d w =
     (let (containers, w1) = count_list (list_containers d w);
          (images, w2) = count_list (list_images d w1);
          (volumes, w3) = count_list (list_volumes d w2);
          (networks, w4) = count_list (list_networks d w3)
      in ((\<lambda>_. 0)(NodeContainers := containers, NodeImages := images, NodeVolumes := volumes, NodeNetworks := networks), w4))"

definition publish_root_groups :: "connection \<times> world \<Rightarrow> connection \<times> world" where
  "publish_root_groups cw =
     (case cw of (c, w) \<Rightarrow>
      case control c w of
        (Inl e, c1, w1) \<Rightarrow> publish_error NodeRoot e (c1, w1)
      | (Inr d, c1, w1) \<Rightarrow>
          (let (counts, w2) = count_groups d w1 in publish_ready NodeRoot (build_root counts) (c1, w2)))"

text \<open>The containers for the usage marks; without them the marks are lost and not the list.\<close>

definition usage_containers :: "docker \<Rightarrow> world \<Rightarrow> container list \<times> world" where
  "usage_containers d w = (case list_containers d w of (Inr cs, w1) \<Rightarrow> (cs, w1) | (Inl _, w1) \<Rightarrow> ([], w1))"

definition refresh_containers :: "docker \<Rightarrow> connection \<times> world \<Rightarrow> connection \<times> world" where
  "refresh_containers d cw =
     (case cw of (c, w) \<Rightarrow>
      case list_containers d w of
        (Inl e, w1) \<Rightarrow> publish_error NodeContainers e (c, w1)
      | (Inr cs, w1) \<Rightarrow> (let (rows, w2) = container_nodes d cs w1 in publish_ready NodeContainers rows (c, w2)))"

text \<open>The branches of images, volumes and networks have one shape: the list, then the containers.\<close>

definition refresh_used ::
  "string \<Rightarrow> (docker \<Rightarrow> world \<Rightarrow> (go_error + 'a list) \<times> world) \<Rightarrow> ('a list \<Rightarrow> container list \<Rightarrow> tree_node list)
    \<Rightarrow> docker \<Rightarrow> connection \<times> world \<Rightarrow> connection \<times> world" where
  "refresh_used node listing rows d cw =
     (case cw of (c, w) \<Rightarrow>
      case listing d w of
        (Inl e, w1) \<Rightarrow> publish_error node e (c, w1)
      | (Inr xs, w1) \<Rightarrow> (let (cs, w2) = usage_containers d w1 in publish_ready node (rows xs cs) (c, w2)))"

definition refresh_branch :: "string \<Rightarrow> connection \<times> world \<Rightarrow> connection \<times> world" where
  "refresh_branch node cw =
     (case cw of (c, w) \<Rightarrow>
      if \<not> observes node c then (c, w)
      else
        (case control c w of
           (Inl e, c1, w1) \<Rightarrow> publish_error node e (c1, w1)
         | (Inr d, c1, w1) \<Rightarrow>
             (if node = [] then refresh_root (c1, w1)
              else if node = NodeRoot then publish_root_groups (c1, w1)
              else if node = NodeContainers then refresh_containers d (c1, w1)
              else if node = NodeImages then refresh_used NodeImages list_images image_nodes d (c1, w1)
              else if node = NodeVolumes then refresh_used NodeVolumes list_volumes volume_nodes d (c1, w1)
              else if node = NodeNetworks then refresh_used NodeNetworks list_networks network_nodes d (c1, w1)
              else (c1, w1))))"

subsection \<open>Every open branch, parents first\<close>

definition branch_rank :: "string \<Rightarrow> nat" where
  "branch_rank node =
     (if node = [] then 0
      else if node = NodeRoot then 1
      else if node \<in> {NodeContainers, NodeImages, NodeVolumes, NodeNetworks} then 2
      else 3)"

definition ordered_branches :: "string list \<Rightarrow> string list" where
  "ordered_branches nodes = sort_key branch_rank nodes"

fun refresh_each :: "string list \<Rightarrow> connection \<times> world \<Rightarrow> connection \<times> world" where
  "refresh_each [] cw = cw"
| "refresh_each (node # nodes) cw =
     (if gone (fst cw) then cw else refresh_each nodes (refresh_branch node cw))"

definition refresh_all :: "string list \<Rightarrow> connection \<times> world \<Rightarrow> connection \<times> world" where
  "refresh_all order cw = refresh_each (ordered_branches order) cw"

subsection \<open>What a refresh leaves behind\<close>

text \<open>Everything but the shared client, the end of the session and the recorded ids stays.\<close>

definition same_view :: "connection \<Rightarrow> connection \<Rightarrow> bool" where
  "same_view c c' = (cxSession c' = cxSession c \<and> cxObserved c' = cxObserved c \<and> cxSettings c' = cxSettings c)"

lemma same_view_refl [simp, intro]: "same_view c c" by (simp add: same_view_def)

lemma same_view_trans [trans]: "same_view a b \<Longrightarrow> same_view b c \<Longrightarrow> same_view a c" by (simp add: same_view_def)

lemma remember_row_keeps [simp]:
  "cxSession (remember_row n c) = cxSession c" "cxObserved (remember_row n c) = cxObserved c"
  "cxSettings (remember_row n c) = cxSettings c" "cxControl (remember_row n c) = cxControl c"
  "cxClosed (remember_row n c) = cxClosed c"
  by (auto simp: remember_row_def remember_def split: sum.splits)

lemma fold_remember_keeps [simp]:
  "cxSession (fold remember_row ns c) = cxSession c" "cxObserved (fold remember_row ns c) = cxObserved c"
  "cxSettings (fold remember_row ns c) = cxSettings c" "cxControl (fold remember_row ns c) = cxControl c"
  "cxClosed (fold remember_row ns c) = cxClosed c"
  by (induction ns arbitrary: c) auto

lemma store_client_keeps [simp]:
  "cxSession (store_client d c) = cxSession c" "cxObserved (store_client d c) = cxObserved c"
  "cxSettings (store_client d c) = cxSettings c" "cxResolved (store_client d c) = cxResolved c"
  "cxClosed (store_client d c) = cxClosed c"
  by (auto simp: store_client_def split: option.splits)

lemma remember_row_resolved:
  "cxResolved (remember_row n c) x =
     (if x = ndId n \<and> ndKind n = ''instance'' then
        (case parse_instance_id x of Inr (k, i) \<Rightarrow> Some i | Inl _ \<Rightarrow> cxResolved c x)
      else cxResolved c x)"
  by (auto simp: remember_row_def remember_def split: sum.splits)

lemma fold_remember_resolved:
  "cxResolved (fold remember_row ns c) x =
     (if \<exists>n \<in> set ns. x = ndId n \<and> ndKind n = ''instance'' then
        (case parse_instance_id x of Inr (k, i) \<Rightarrow> Some i | Inl _ \<Rightarrow> cxResolved c x)
      else cxResolved c x)"
proof (induction ns arbitrary: c)
  case (Cons n ns)
  show ?case
    by (cases "parse_instance_id x") (auto simp: Cons remember_row_resolved)
qed simp

text \<open>The recorded ids are those the node ids name.\<close>

definition resolved_ok :: "connection \<Rightarrow> bool" where
  "resolved_ok c = (\<forall>x i. cxResolved c x = Some i \<longrightarrow> (\<exists>k. parse_instance_id x = Inr (k, i)))"

lemma resolved_ok_new: "resolved_ok (new_connection s)"
  by (simp add: resolved_ok_def new_connection_def)

lemma resolved_ok_remember: "resolved_ok c \<Longrightarrow> resolved_ok (fold remember_row ns c)"
  unfolding resolved_ok_def fold_remember_resolved 
proof (intro allI impI)
  fix x i
  assume ok: "\<forall>x i. cxResolved c x = Some i \<longrightarrow> (\<exists>k. parse_instance_id x = Inr (k, i))"
    and "(if \<exists>n\<in>set ns. x = ndId n \<and> ndKind n = ''instance''
      then case parse_instance_id x of Inl e \<Rightarrow> cxResolved c x | Inr (k, i) \<Rightarrow> Some i else cxResolved c x) = Some i"
  then show "\<exists>k. parse_instance_id x = Inr (k, i)"
    using spec [OF spec [OF ok, of x], of i] by (cases "parse_instance_id x") (auto split: if_splits)
qed

text \<open>Under it, exactly the recorded node ids resolve.\<close>

lemma resolve_recorded:
  assumes "resolved_ok c"
  shows "(\<exists>k i. resolve x c = Inr (k, i)) \<longleftrightarrow> x \<in> dom (cxResolved c)"
  using assms parse_instance_id_iff
  by (fastforce simp: resolved_ok_def resolve_iff dom_def)

lemma publish_parts:
  "fst (publish node ch state msg (c, w)) = fold remember_row (rows_of ch) c"
  "snd (publish node ch state msg (c, w))
     = happen (EvCall ''discovery.publish'' (publish_payload (cxSession c) node ch state msg)) w"
  by (simp_all add: publish_def host_call_def)

lemma user_message_shown: "user_message (Some e) \<noteq> []"
proof (cases "as_api e")
  case (Some a)
  then obtain s m where "a = EApi s m" by (cases a) (auto dest: as_api_is_api)
  with Some show ?thesis by (simp add: api_error_text_def)
qed (simp add: msg_unreachable_def msg_not_permitted_def msg_no_contact_def)

lemma control_same_view: "same_view c (fst (snd (control c w)))"
  by (cases "control c w"; cases "snd (control c w)") (auto simp: same_view_def dest: control_keeps)

lemma control_resolved [simp]: "cxResolved (fst (snd (control c w))) = cxResolved c"
  by (cases "control c w"; cases "snd (control c w)") (auto dest: control_keeps)

text \<open>
  What refreshing an open branch comes to: some traffic that calls no one, then one snapshot of that branch,
  either complete or an error with a message.
\<close>

definition one_snapshot :: "string \<Rightarrow> connection \<times> world \<Rightarrow> connection \<times> world \<Rightarrow> bool" where
  "one_snapshot node cw cw' =
     (\<exists>c1 w1 ch state msg. same_view (fst cw) c1 \<and> cxResolved c1 = cxResolved (fst cw) \<and> uncalled (snd cw) w1
        \<and> cw' = publish node ch state msg (c1, w1)
        \<and> (state = ''ready'' \<and> msg = [] \<and> ch \<noteq> None \<or> state = ''error'' \<and> ch = None \<and> msg \<noteq> []))"

lemma one_snapshotI:
  assumes "same_view c c1" "cxResolved c1 = cxResolved c" "uncalled w w1"
    and "state = ''ready'' \<and> msg = [] \<and> ch \<noteq> None \<or> state = ''error'' \<and> ch = None \<and> msg \<noteq> []"
  shows "one_snapshot node (c, w) (publish node ch state msg (c1, w1))"
  unfolding one_snapshot_def fst_conv snd_conv using assms by blast

lemma one_snapshot_ready:
  assumes "same_view c c1" "cxResolved c1 = cxResolved c" "uncalled w w1"
  shows "one_snapshot node (c, w) (publish_ready node ns (c1, w1))"
  unfolding publish_ready_def by (rule one_snapshotI [OF assms]) simp

lemma one_snapshot_error:
  assumes "same_view c c1" "cxResolved c1 = cxResolved c" "uncalled w w1"
  shows "one_snapshot node (c, w) (publish_error node e (c1, w1))"
  unfolding publish_error_def by (rule one_snapshotI [OF assms]) (simp add: user_message_shown del: user_message.simps)

lemma one_snapshotE:
  assumes "one_snapshot node (c, w) cw'"
  obtains c1 w1 ch state msg where "same_view c c1" "cxResolved c1 = cxResolved c" "uncalled w w1"
    "cw' = publish node ch state msg (c1, w1)"
    "state = ''ready'' \<and> msg = [] \<and> ch \<noteq> None \<or> state = ''error'' \<and> ch = None \<and> msg \<noteq> []"
  using assms unfolding one_snapshot_def fst_conv snd_conv by blast

lemma one_snapshot_after:
  assumes "one_snapshot node (c1, w1) cw'" "same_view c c1" "cxResolved c1 = cxResolved c" "uncalled w w1"
  shows "one_snapshot node (c, w) cw'"
  using assms(1)
proof (rule one_snapshotE)
  fix c2 w2 ch state msg
  assume "same_view c1 c2" "cxResolved c2 = cxResolved c1" "uncalled w1 w2" and cw': "cw' = publish node ch state msg (c2, w2)"
    and kind: "state = ''ready'' \<and> msg = [] \<and> ch \<noteq> None \<or> state = ''error'' \<and> ch = None \<and> msg \<noteq> []"
  then have "same_view c c2" "cxResolved c2 = cxResolved c" "uncalled w w2"
    using assms by (auto intro: same_view_trans uncalled_trans)
  then show "one_snapshot node (c, w) cw'" unfolding cw' using kind by (rule one_snapshotI)
qed

lemma asked_lists:
  "asked w (snd (list_containers d w))" "asked w (snd (list_images d w))"
  "asked w (snd (list_volumes d w))" "asked w (snd (list_networks d w))" "asked w (snd (inspect_container d i w))"
  by (simp_all add: list_containers_def list_images_def list_volumes_def list_networks_def inspect_container_def asked_get_json)

lemma asked_container_rows: "asked w (snd (container_rows d cs w))"
proof (induction cs arbitrary: w)
  case (Cons c cs)
  have "asked w (snd (if needs_detail (ctState c)
      then (case inspect_container d (ctId c) w of (Inr detail, w') \<Rightarrow> (add_detail detail (base_state c), w') | (Inl e, w') \<Rightarrow> (base_state c, w'))
      else (base_state c, w)))"
    using asked_lists(5) [of w d "ctId c"] by (auto split: prod.splits sum.splits)
  then show ?case
    using asked_trans [OF _ Cons] by (simp add: Let_def split_beta)
qed simp

lemma asked_count_list: "asked w (snd r) \<Longrightarrow> asked w (snd (count_list r))"
  by (auto simp: count_list_def split: prod.splits sum.splits)

lemma asked_count_groups: "asked w (snd (count_groups d w))"
proof -
  have step: "asked w (snd (count_list (l d w')))" if "asked w w'" "\<And>v. asked v (snd (l d v))"
    for w' and l :: "docker \<Rightarrow> world \<Rightarrow> (go_error + 'x list) \<times> world"
    using that asked_trans asked_count_list by blast
  show ?thesis
    unfolding count_groups_def
    by (simp add: Let_def split_beta step asked_lists)
qed

lemma asked_usage: "asked w (snd (usage_containers d w))"
  using asked_lists(1) [of w d] by (auto simp: usage_containers_def split: prod.splits sum.splits)

lemma snapshot_root: "one_snapshot [] (c, w) (refresh_root (c, w))"
proof -
  obtain r c1 w1 where cr: "control c w = (r, c1, w1)" by (rule prod_cases3)
  have 1: "same_view c c1" "cxResolved c1 = cxResolved c" "uncalled w w1"
    using control_same_view [of c w] control_resolved [of c w] uncalled_control [of w c] by (simp_all add: cr)
  show ?thesis
  proof (cases r)
    case (Inl e)
    then show ?thesis using one_snapshot_ready [OF 1] by (simp add: refresh_root_def cr)
  next
    case (Inr d)
    obtain q d1 w2 where n: "negotiate d w1 = (q, d1, w2)" by (rule prod_cases3)
    have "same_view c (store_client d1 c1)" "cxResolved (store_client d1 c1) = cxResolved c" "uncalled w w2"
      using 1 uncalled_negotiate [of w1 d] uncalled_trans by (auto simp: same_view_def n)
    from one_snapshot_ready [OF this] show ?thesis
      by (cases q) (simp_all add: refresh_root_def cr Inr n)
  qed
qed

lemma snapshot_root_groups: "one_snapshot NodeRoot (c, w) (publish_root_groups (c, w))"
proof -
  obtain r c1 w1 where cr: "control c w = (r, c1, w1)" by (rule prod_cases3)
  have 1: "same_view c c1" "cxResolved c1 = cxResolved c" "uncalled w w1"
    using control_same_view [of c w] control_resolved [of c w] uncalled_control [of w c] by (simp_all add: cr)
  show ?thesis
  proof (cases r)
    case (Inl e)
    then show ?thesis using one_snapshot_error [OF 1] by (simp add: publish_root_groups_def cr)
  next
    case (Inr d)
    from one_snapshot_ready [OF 1(1,2) uncalled_trans [OF 1(3) asked_uncalled [OF asked_count_groups]]] show ?thesis
      by (simp add: publish_root_groups_def cr Inr Let_def split_beta)
  qed
qed

lemma snapshot_containers: "one_snapshot NodeContainers (c, w) (refresh_containers d (c, w))"
proof -
  obtain r w1 where l: "list_containers d w = (r, w1)" by (rule prod.exhaust)
  have 1: "uncalled w w1" using asked_lists(1) [of w d, THEN asked_uncalled] by (simp add: l)
  show ?thesis
  proof (cases r)
    case (Inl e)
    then show ?thesis using one_snapshot_error [OF same_view_refl refl 1] by (simp add: refresh_containers_def l)
  next
    case (Inr cs)
    from one_snapshot_ready [OF same_view_refl refl uncalled_trans [OF 1 asked_uncalled [OF asked_container_rows]]] show ?thesis
      by (simp add: refresh_containers_def l Inr Let_def split_beta container_nodes_def)
  qed
qed

lemma snapshot_used:
  assumes "\<And>w. asked w (snd (listing d w))"
  shows "one_snapshot node (c, w) (refresh_used node listing rows d (c, w))"
proof -
  obtain r w1 where l: "listing d w = (r, w1)" by (rule prod.exhaust)
  have 1: "uncalled w w1" using assms [of w, THEN asked_uncalled] by (simp add: l)
  show ?thesis
  proof (cases r)
    case (Inl e)
    then show ?thesis using one_snapshot_error [OF same_view_refl refl 1] by (simp add: refresh_used_def l)
  next
    case (Inr cs)
    from one_snapshot_ready [OF same_view_refl refl uncalled_trans [OF 1 asked_uncalled [OF asked_usage]]] show ?thesis
      by (simp add: refresh_used_def l Inr Let_def split_beta)
  qed
qed

lemma branch_rank_known:
  "branch_rank node < 3 \<longleftrightarrow> node \<in> {[], NodeRoot, NodeContainers, NodeImages, NodeVolumes, NodeNetworks}"
  by (simp add: branch_rank_def)

lemma refresh_branch_open:
  assumes "observes node c"
  shows "branch_rank node < 3 \<Longrightarrow> one_snapshot node (c, w) (refresh_branch node (c, w))"
    and "one_snapshot node (c, w) (refresh_branch node (c, w))
      \<or> (same_view c (fst (refresh_branch node (c, w))) \<and> cxResolved (fst (refresh_branch node (c, w))) = cxResolved c
          \<and> uncalled w (snd (refresh_branch node (c, w))))"
proof -
  obtain r c1 w1 where cr: "control c w = (r, c1, w1)" by (rule prod_cases3)
  have 1: "same_view c c1" "cxResolved c1 = cxResolved c" "uncalled w w1"
    using control_same_view [of c w] control_resolved [of c w] uncalled_control [of w c] by (simp_all add: cr)
  have known: "one_snapshot node (c, w) (refresh_branch node (c, w))" if "branch_rank node < 3"
  proof (cases r)
    case (Inl e)
    then show ?thesis using one_snapshot_error [OF 1] assms by (simp add: refresh_branch_def cr)
  next
    case (Inr d)
    have "node \<in> {[], NodeRoot, NodeContainers, NodeImages, NodeVolumes, NodeNetworks}"
      using that by (simp add: branch_rank_known)
    then have "one_snapshot node (c1, w1) (refresh_branch node (c, w))"
      using assms snapshot_root [of c1 w1] snapshot_root_groups [of c1 w1] snapshot_containers [of c1 w1 d]
        snapshot_used [of list_images d NodeImages c1 w1 image_nodes, OF asked_lists(2)]
        snapshot_used [of list_volumes d NodeVolumes c1 w1 volume_nodes, OF asked_lists(3)]
        snapshot_used [of list_networks d NodeNetworks c1 w1 network_nodes, OF asked_lists(4)]
      by (auto simp: refresh_branch_def cr Inr node_ids)
    from one_snapshot_after [OF this 1] show ?thesis .
  qed
  then show "branch_rank node < 3 \<Longrightarrow> one_snapshot node (c, w) (refresh_branch node (c, w))" .
  show "one_snapshot node (c, w) (refresh_branch node (c, w))
      \<or> (same_view c (fst (refresh_branch node (c, w))) \<and> cxResolved (fst (refresh_branch node (c, w))) = cxResolved c
          \<and> uncalled w (snd (refresh_branch node (c, w))))"
  proof (cases "branch_rank node < 3")
    case False
    then have "node \<notin> {[], NodeRoot, NodeContainers, NodeImages, NodeVolumes, NodeNetworks}"
      by (simp add: branch_rank_known)
    then show ?thesis
      using assms one_snapshot_error [OF 1, of node] 1 by (cases r) (simp_all add: refresh_branch_def cr)
  qed (use known in blast)
qed

text \<open>
  C18. One observed branch, one snapshot: a branch the user has not open causes no traffic and no change at
  all; a branch of the tree that is open is sent exactly once, after everything that was asked of the daemon,
  under this session's id, and either complete or as an error with a message and no rows, so that no empty
  snapshot ever goes before the real one; and every resource row that was sent resolves afterwards to the kind
  and the id its node id names.
\<close>

theorem branch_sent_once:
  "(\<not> observes node c \<longrightarrow> refresh_branch node (c, w) = (c, w))
   \<and> (observes node c \<and> branch_rank node < 3 \<longrightarrow>
       (\<exists>es ch state msg.
          wTrace (snd (refresh_branch node (c, w)))
            = wTrace w @ es @ [EvCall ''discovery.publish'' (publish_payload (cxSession c) node ch state msg)]
          \<and> \<not> list_ex is_call es
          \<and> (state = ''ready'' \<and> msg = [] \<and> ch \<noteq> None \<or> state = ''error'' \<and> ch = None \<and> msg \<noteq> [])
          \<and> (\<forall>n k i. n \<in> set (rows_of ch) \<and> ndKind n = ''instance'' \<and> parse_instance_id (ndId n) = Inr (k, i)
                \<longrightarrow> resolve (ndId n) (fst (refresh_branch node (c, w))) = Inr (k, i))))"
proof (intro conjI impI)
  show "\<not> observes node c \<Longrightarrow> refresh_branch node (c, w) = (c, w)" by (simp add: refresh_branch_def)
  assume "observes node c \<and> branch_rank node < 3"
  then have "one_snapshot node (c, w) (refresh_branch node (c, w))" using refresh_branch_open(1) by blast
  then obtain c1 w1 ch state msg where v: "same_view c c1" and u: "uncalled w w1"
    and r: "refresh_branch node (c, w) = publish node ch state msg (c1, w1)"
    and kind: "state = ''ready'' \<and> msg = [] \<and> ch \<noteq> None \<or> state = ''error'' \<and> ch = None \<and> msg \<noteq> []"
    by (rule one_snapshotE)
  obtain es where es: "w1 = w\<lparr>wTrace := wTrace w @ es\<rparr>" "\<not> list_ex is_call es" using u by (auto simp: uncalled_def)
  have "wTrace (snd (refresh_branch node (c, w)))
      = wTrace w @ es @ [EvCall ''discovery.publish'' (publish_payload (cxSession c) node ch state msg)]"
    using v by (simp add: r publish_parts es(1) happen_def same_view_def)
  moreover have "resolve (ndId n) (fst (refresh_branch node (c, w))) = Inr (k, i)"
    if "n \<in> set (rows_of ch) \<and> ndKind n = ''instance'' \<and> parse_instance_id (ndId n) = Inr (k, i)" for n k i
  proof -
    have "valid_docker_id i" using that parse_instance_id_iff by blast
    moreover have "cxResolved (fold remember_row (rows_of ch) c1) (ndId n) = Some i"
      using that by (auto simp: fold_remember_resolved)
    ultimately show ?thesis using that by (simp add: r publish_parts resolve_iff)
  qed
  ultimately show "\<exists>es ch state msg.
      wTrace (snd (refresh_branch node (c, w)))
        = wTrace w @ es @ [EvCall ''discovery.publish'' (publish_payload (cxSession c) node ch state msg)]
      \<and> \<not> list_ex is_call es
      \<and> (state = ''ready'' \<and> msg = [] \<and> ch \<noteq> None \<or> state = ''error'' \<and> ch = None \<and> msg \<noteq> [])
      \<and> (\<forall>n k i. n \<in> set (rows_of ch) \<and> ndKind n = ''instance'' \<and> parse_instance_id (ndId n) = Inr (k, i)
            \<longrightarrow> resolve (ndId n) (fst (refresh_branch node (c, w))) = Inr (k, i))"
    using es(2) kind by blast
qed

lemma branch_sent_once_witness:
  "\<exists>es ch state msg.
     wTrace (snd (refresh_branch NodeImages (set_observed [NodeImages] (new_connection ''a''), greeting_world)))
       = es @ [EvCall ''discovery.publish'' (publish_payload ''a'' NodeImages ch state msg)]
     \<and> \<not> list_ex is_call es"
  using branch_sent_once [of NodeImages "set_observed [NodeImages] (new_connection ''a'')" greeting_world]
  by (auto simp: observes_def set_observed_def branch_rank_def new_connection_def node_ids)

subsection \<open>The order of a full refresh\<close>

text \<open>The branches that were sent, read off a trace.\<close>

fun branch_of :: "event \<Rightarrow> json option" where
  "branch_of (EvCall m (JObj ms)) = (if m = ''discovery.publish'' then map_of ms ''nodeId'' else None)"
| "branch_of _ = None"

definition snapshots :: "event list \<Rightarrow> json list" where
  "snapshots es = map the (filter (\<lambda>j. j \<noteq> None) (map branch_of es))"

lemma snapshots_append [simp]: "snapshots (es @ fs) = snapshots es @ snapshots fs"
  by (simp add: snapshots_def)

lemma snapshots_Nil [simp]: "snapshots [] = []"
  by (simp add: snapshots_def)

lemma snapshots_none: "\<not> list_ex is_call es \<Longrightarrow> snapshots es = []"
proof (induction es)
  case (Cons e es)
  then show ?case by (cases e) (auto simp: snapshots_def)
qed simp

lemma snapshots_publish:
  "snapshots [EvCall ''discovery.publish'' (publish_payload s node ch state msg)] = [json_str node]"
  by (simp add: snapshots_def publish_payload_def)

lemma one_snapshot_trace:
  assumes "one_snapshot node (c, w) cw'"
  obtains es where "wTrace (snd cw') = wTrace w @ es" "snapshots es = [json_str node]"
    "same_view c (fst cw')"
  using assms
proof (rule one_snapshotE)
  fix c1 w1 ch state msg
  assume v: "same_view c c1" and "uncalled w w1" and cw': "cw' = publish node ch state msg (c1, w1)"
  then obtain es where es: "w1 = w\<lparr>wTrace := wTrace w @ es\<rparr>" "\<not> list_ex is_call es" by (auto simp: uncalled_def)
  show thesis
    by (rule that [of "es @ [EvCall ''discovery.publish'' (publish_payload (cxSession c1) node ch state msg)]"])
      (use v in \<open>simp_all add: cw' publish_parts es(1) happen_def snapshots_none [OF es(2)] snapshots_publish same_view_def\<close>)
qed

lemma refresh_branch_trace:
  obtains es where "wTrace (snd (refresh_branch node (c, w))) = wTrace w @ es"
    "snapshots es = (if observes node c \<and> branch_rank node < 3 then [json_str node] else [])
      \<or> observes node c \<and> snapshots es = [json_str node]"
    "same_view c (fst (refresh_branch node (c, w)))"
proof (cases "observes node c \<and> one_snapshot node (c, w) (refresh_branch node (c, w))")
  case True
  then obtain es where "wTrace (snd (refresh_branch node (c, w))) = wTrace w @ es" "snapshots es = [json_str node]"
    "same_view c (fst (refresh_branch node (c, w)))"
    by (blast elim: one_snapshot_trace)
  then show thesis using True that by blast
next
  case False
  have "same_view c (fst (refresh_branch node (c, w))) \<and> uncalled w (snd (refresh_branch node (c, w)))
      \<and> \<not> (observes node c \<and> branch_rank node < 3)"
    using False refresh_branch_open [of node c w] by (cases "observes node c") (auto simp: refresh_branch_def)
  then show thesis
    using snapshots_none that by (auto simp: uncalled_def)
qed

lemma refresh_each_order:
  assumes "sorted (map branch_rank nodes)" and "distinct nodes" and "\<forall>n \<in> set nodes. observes n (fst cw)"
  shows "\<exists>es shown. wTrace (snd (refresh_each nodes cw)) = wTrace (snd cw) @ es \<and> snapshots es = map json_str shown
    \<and> sorted (map branch_rank shown) \<and> distinct shown \<and> set shown \<subseteq> set nodes
    \<and> (gone (fst (refresh_each nodes cw)) \<or> {n \<in> set nodes. branch_rank n < 3} \<subseteq> set shown)"
  using assms
proof (induction nodes arbitrary: cw)
  case (Cons n ns)
  show ?case
  proof (cases "gone (fst cw)")
    case False
    obtain c w where cw: "cw = (c, w)" by (cases cw)
    obtain es where es: "wTrace (snd (refresh_branch n (c, w))) = wTrace w @ es"
      "snapshots es = (if observes n c \<and> branch_rank n < 3 then [json_str n] else [])
        \<or> observes n c \<and> snapshots es = [json_str n]"
      and v: "same_view c (fst (refresh_branch n (c, w)))"
      by (rule refresh_branch_trace [of n c w])
    have obs: "\<forall>m \<in> set ns. observes m (fst (refresh_branch n (c, w)))"
      using Cons.prems(3) v by (simp add: cw observes_def same_view_def)
    obtain es' shown where IH: "wTrace (snd (refresh_each ns (refresh_branch n (c, w)))) = wTrace (snd (refresh_branch n (c, w))) @ es'"
      "snapshots es' = map json_str shown" "sorted (map branch_rank shown)" "distinct shown" "set shown \<subseteq> set ns"
      "gone (fst (refresh_each ns (refresh_branch n (c, w)))) \<or> {m \<in> set ns. branch_rank m < 3} \<subseteq> set shown"
      using Cons.IH [OF _ _ obs] Cons.prems(1,2) by auto
    define now where "now = (if snapshots es = [] then [] else [n])"
    have now: "snapshots es = map json_str now" "observes n c \<and> branch_rank n < 3 \<longrightarrow> now = [n]"
      using es(2) by (auto simp: now_def split: if_splits)
    show ?thesis
    proof (intro exI [of _ "es @ es'"] exI [of _ "now @ shown"] conjI)
      show "sorted (map branch_rank (now @ shown))"
        using Cons.prems(1) IH(3,5) by (auto simp: now_def)
      show "distinct (now @ shown)" using Cons.prems(2) IH(4,5) by (auto simp: now_def)
      show "gone (fst (refresh_each (n # ns) cw)) \<or> {m \<in> set (n # ns). branch_rank m < 3} \<subseteq> set (now @ shown)"
        using IH(6) now(2) Cons.prems(3) False by (auto simp: cw)
      show "wTrace (snd (refresh_each (n # ns) cw)) = wTrace (snd cw) @ es @ es'"
        using False by (simp add: cw IH(1) es(1))
      show "snapshots (es @ es') = map json_str (now @ shown)" by (simp add: now(1) IH(2))
      show "set (now @ shown) \<subseteq> set (n # ns)" using IH(5) by (auto simp: now_def)
    qed
  qed (auto simp: intro!: exI [of _ "[]"])
qed (auto intro!: exI [of _ "[]"])

text \<open>
  C19. Parents are drawn before their children: whatever order the map of open nodes is walked in, a full
  refresh sends the snapshots in the order connection root, Docker node, groups; it sends none twice and none
  that is not open, and, unless the session ended on the way, every open branch of the tree is sent.
\<close>

theorem refresh_all_parents_first:
  assumes "lists_observed order c"
  shows "\<exists>es shown. wTrace (snd (refresh_all order (c, w))) = wTrace w @ es \<and> snapshots es = map json_str shown
    \<and> sorted (map branch_rank shown) \<and> distinct shown \<and> set shown \<subseteq> cxObserved c
    \<and> (gone (fst (refresh_all order (c, w))) \<or> {n \<in> cxObserved c. branch_rank n < 3} \<subseteq> set shown)"
  using refresh_each_order [of "ordered_branches order" "(c, w)"] assms
  by (simp add: refresh_all_def ordered_branches_def lists_observed_def observes_def)

lemma refresh_all_parents_first_witness:
  "\<exists>es shown. wTrace (snd (refresh_all [NodeImages, NodeRoot, []] (set_observed [[], NodeRoot, NodeImages] (new_connection ''a''), greeting_world))) = es
     \<and> snapshots es = map json_str shown \<and> sorted (map branch_rank shown) \<and> distinct shown"
proof -
  have "lists_observed [NodeImages, NodeRoot, []] (set_observed [[], NodeRoot, NodeImages] (new_connection ''a''))"
    by (auto simp: lists_observed_def set_observed_def node_ids)
  from refresh_all_parents_first [OF this, of greeting_world] show ?thesis by auto
qed

subsection \<open>A host that cannot be reached\<close>

text \<open>
  What the user sees of a host that cannot be reached: with the connection root open and no client to be
  had, the root is sent empty, as an error with a message; the row of \<open>refreshRoot\<close> that would carry the
  reason is never sent for it.
\<close>

theorem unreachable_root_is_empty:
  assumes "observes [] c" and "control c w = (Inl e, c1, w1)"
  shows "refresh_branch [] (c, w)
    = (c1, happen (EvCall ''discovery.publish'' (publish_payload (cxSession c1) [] None ''error'' (user_message (Some e)))) w1)"
  using assms by (simp add: refresh_branch_def publish_error_def publish_def host_call_def rows_of_def)

lemma unreachable_root_is_empty_witness:
  "\<exists>w1. refresh_branch [] ((set_observed [[]] (new_connection ''a''))\<lparr>cxClosed := True\<rparr>, quiet_world)
     = ((set_observed [[]] (new_connection ''a''))\<lparr>cxClosed := True\<rparr>,
        happen (EvCall ''discovery.publish'' (publish_payload ''a'' [] None ''error'' msg_unreachable)) w1)"
proof -
  let ?c = "(set_observed [[]] (new_connection ''a''))\<lparr>cxClosed := True\<rparr>"
  have "observes [] ?c" "control ?c quiet_world = (Inl ErrNoDocker, ?c, quiet_world)"
    by (simp_all add: observes_def set_observed_def control_closed)
  from unreachable_root_is_empty [OF this] show ?thesis
    by (auto simp: set_observed_def new_connection_def as_api_def errors_is_def)
qed

text \<open>Nothing replaces the shared client of a session that lasts.\<close>

lemma store_client_stream:
  "cxControl c = Some d \<Longrightarrow> \<exists>d1. cxControl (store_client x c) = Some d1 \<and> dkStream d1 = dkStream d"
  by (auto simp: store_client_def)

lemma publish_control [simp]:
  "cxControl (fst (publish node ch state msg cw)) = cxControl (fst cw)" "cxClosed (fst (publish node ch state msg cw)) = cxClosed (fst cw)"
  by (cases cw; simp add: publish_def)+

definition still_shared :: "docker \<Rightarrow> connection \<Rightarrow> bool" where
  "still_shared d c = (\<not> cxClosed c \<and> (\<exists>d1. cxControl c = Some d1 \<and> dkStream d1 = dkStream d))"

lemma still_shared_publish [simp]:
  "still_shared d (fst (publish node ch state msg cw)) = still_shared d (fst cw)"
  "still_shared d (fst (publish_ready node ns cw)) = still_shared d (fst cw)"
  "still_shared d (fst (publish_error node e cw)) = still_shared d (fst cw)"
  by (simp_all add: still_shared_def publish_ready_def publish_error_def)

lemma still_shared_store [simp]: "still_shared d c \<Longrightarrow> still_shared d (store_client x c)"
  by (auto simp: still_shared_def store_client_def split: if_splits)

lemma still_shared_used: "still_shared d c \<Longrightarrow> still_shared d (fst (refresh_used n l r x (c, w)))"
  by (simp add: refresh_used_def Let_def split: prod.split sum.split)

lemma still_shared_containers: "still_shared d c \<Longrightarrow> still_shared d (fst (refresh_containers x (c, w)))"
  by (simp add: refresh_containers_def Let_def split: prod.split sum.split)

lemma still_shared_control:
  assumes "still_shared d c"
  obtains d1 where "control c w = (Inr d1, c, w)" "dkStream d1 = dkStream d"
  using assms control_open by (auto simp: still_shared_def)

lemma still_shared_root:
  assumes "still_shared d c"
  shows "still_shared d (fst (refresh_root (c, w)))"
  by (rule still_shared_control [OF assms, of w]) (simp add: refresh_root_def assms split: prod.split sum.split)

lemma still_shared_groups:
  assumes "still_shared d c"
  shows "still_shared d (fst (publish_root_groups (c, w)))"
  by (rule still_shared_control [OF assms, of w]) (simp add: publish_root_groups_def Let_def assms split: prod.split sum.split)

lemma refresh_keeps_client:
  assumes "still_shared d c"
  shows "still_shared d (fst (refresh_branch node (c, w)))"
proof -
  obtain d1 where "control c w = (Inr d1, c, w)" by (rule still_shared_control [OF assms])
  then show ?thesis
    by (simp add: refresh_branch_def assms still_shared_used [OF assms] still_shared_containers [OF assms]
        still_shared_root [OF assms] still_shared_groups [OF assms])
qed

lemma publish_opens [simp]:
  "opened (wTrace (snd (publish node ch state msg cw))) = opened (wTrace (snd cw))"
  "opened (wTrace (snd (publish_ready node ns cw))) = opened (wTrace (snd cw))"
  "opened (wTrace (snd (publish_error node e cw))) = opened (wTrace (snd cw))"
  by (cases cw; simp add: publish_ready_def publish_error_def publish_parts)+

lemma opens_nothing:
  "opened (wTrace (snd (snd (negotiate d w)))) = opened (wTrace w)" "opened (wTrace (snd (count_groups d w))) = opened (wTrace w)"
  "opened (wTrace (snd (usage_containers d w))) = opened (wTrace w)" "opened (wTrace (snd (container_nodes d cs w))) = opened (wTrace w)"
  "opened (wTrace (snd (list_containers d w))) = opened (wTrace w)" "opened (wTrace (snd (list_images d w))) = opened (wTrace w)"
  "opened (wTrace (snd (list_volumes d w))) = opened (wTrace w)" "opened (wTrace (snd (list_networks d w))) = opened (wTrace w)"
  unfolding container_nodes_def
  by (intro asked_opened asked_negotiate asked_count_groups asked_usage asked_container_rows asked_lists)+

lemma opens_nothing_used:
  assumes "\<And>v. opened (wTrace (snd (l x v))) = opened (wTrace v)"
  shows "opened (wTrace (snd (refresh_used n l r x (c, w)))) = opened (wTrace w)"
  using assms [of w]
  by (cases "l x w"; cases "fst (l x w)") (simp_all add: refresh_used_def Let_def split_beta opens_nothing)

lemma opens_nothing_containers: "opened (wTrace (snd (refresh_containers x (c, w)))) = opened (wTrace w)"
  using opens_nothing(5) [of x w]
  by (cases "list_containers x w"; cases "fst (list_containers x w)") (simp_all add: refresh_containers_def Let_def split_beta opens_nothing)

lemma opens_nothing_shared:
  assumes "still_shared d c"
  shows "opened (wTrace (snd (refresh_branch node (c, w)))) = opened (wTrace w)"
proof -
  obtain d1 where cr: "control c w = (Inr d1, c, w)" by (rule still_shared_control [OF assms])
  have root: "opened (wTrace (snd (refresh_root (c, w)))) = opened (wTrace w)"
    using opens_nothing(1) [of d1 w]
    by (cases "negotiate d1 w"; cases "fst (negotiate d1 w)") (auto simp: refresh_root_def cr)
  have groups: "opened (wTrace (snd (publish_root_groups (c, w)))) = opened (wTrace w)"
    by (simp add: publish_root_groups_def cr Let_def split_beta opens_nothing)
  show ?thesis
    by (simp add: refresh_branch_def cr root groups opens_nothing_containers opens_nothing_used opens_nothing)
qed

text \<open>
  The shared client is never replaced while its session lasts: whatever branches are refreshed, in
  whatever order, and whatever the daemon answers - failures to send or to read included - the client stays
  the one on the same stream and no stream is opened, so a client whose stream has died stays in use.
\<close>

theorem shared_client_never_replaced:
  assumes "still_shared d c"
  shows "still_shared d (fst (fold refresh_branch nodes (c, w)))
    \<and> opened (wTrace (snd (fold refresh_branch nodes (c, w)))) = opened (wTrace w)"
  using assms
proof (induction nodes arbitrary: c w)
  case (Cons n ns)
  obtain c1 w1 where r: "refresh_branch n (c, w) = (c1, w1)" by (rule prod.exhaust)
  from refresh_keeps_client [OF Cons.prems, of n w] opens_nothing_shared [OF Cons.prems, of n w] Cons.IH [of c1 w1]
  show ?case by (simp add: r)
qed simp

lemma shared_client_never_replaced_witness:
  "opened (wTrace (snd (fold refresh_branch [NodeImages, NodeVolumes]
     ((set_observed [NodeImages, NodeVolumes] (new_connection ''a''))\<lparr>cxControl := Some (new_client 0)\<rparr>,
      quiet_world\<lparr>wHttp := (\<lambda>es n m t b. SendFailed ''broken pipe'')\<rparr>)))) = 0"
proof -
  let ?c = "(set_observed [NodeImages, NodeVolumes] (new_connection ''a''))\<lparr>cxControl := Some (new_client 0)\<rparr>"
  have "still_shared (new_client 0) ?c" by (simp add: still_shared_def set_observed_def new_connection_def)
  from shared_client_never_replaced [OF this, of "[NodeImages, NodeVolumes]"] show ?thesis
    by (simp add: quiet_world_def)
qed

end
