(* ===== verification/Events.thy ===== *)
theory Events
  imports Publish
begin

text \<open>
  Following the daemon's events (\<open>internal/usecase/events.go\<close>): which branch an event changes, the decoding
  of the event stream, the window that collects a burst of events into one refresh, and the loop that
  follows the stream and decides what its end means. The collecting window is a state machine, since its
  timer runs beside the reader. The body of a response is given whole; a read error in the middle of it is a
  body that ends inside a value.
\<close>

definition branch_for_event_type :: "string \<Rightarrow> string" where
  "branch_for_event_type ty =
     (if ty = ''container'' then NodeContainers
      else if ty = ''image'' then NodeImages
      else if ty = ''volume'' then NodeVolumes
      else if ty = ''network'' then NodeNetworks
      else [])"

record docker_event =
  deType :: string
  deAction :: string

definition dec_event :: "docker_event dec" where
  "dec_event = dec_struct [(''Type'', lens deType deType_update dec_str), (''Action'', lens deAction deAction_update dec_str)]"

lemma parse_one_length: "parse_one s = Some (v, t) \<Longrightarrow> length t < length s"
  unfolding parse_one_def by (rule parse_length(1))

text \<open>
  The decoder's loop over the stream: the events decoded, and whether the stream ended cleanly between two
  values (\<open>io.EOF\<close>) or with an error.
\<close>

function event_stream :: "string \<Rightarrow> docker_event list \<times> bool" where
  "event_stream s =
     (if skip_ws s = [] then ([], True)
      else
        (case parse_one s of
           None \<Rightarrow> ([], False)
         | Some (v, t) \<Rightarrow>
             (case dec_event v \<lparr>deType = [], deAction = []\<rparr> of
                None \<Rightarrow> ([], False)
              | Some e \<Rightarrow> (let (es, ok) = event_stream t in (e # es, ok)))))"
  by pat_completeness auto
termination
  by (relation "measure length") (auto intro: parse_one_length)

declare event_stream.simps [simp del]

subsection \<open>The window\<close>

text \<open>
  The branches waiting, whether the timer is armed, and how many flushes have begun (their timer is gone)
  without having taken the waiting branches yet.
\<close>

record feed =
  fdPending :: "string set"
  fdTimer :: bool
  fdFlushing :: nat

definition new_feed :: feed where "new_feed = \<lparr>fdPending = {}, fdTimer = False, fdFlushing = 0\<rparr>"

definition feed_event :: "string \<Rightarrow> feed \<Rightarrow> feed" where
  "feed_event ty f =
     (let branch = branch_for_event_type ty in
      if branch = [] then f else f\<lparr>fdPending := insert branch (fdPending f), fdTimer := True\<rparr>)"

definition feed_fire :: "feed \<Rightarrow> feed option" where
  "feed_fire f = (if fdTimer f then Some (f\<lparr>fdTimer := False, fdFlushing := fdFlushing f + 1\<rparr>) else None)"

definition feed_take :: "feed \<Rightarrow> (string set \<times> feed) option" where
  "feed_take f =
     (if fdFlushing f > 0 then Some (fdPending f, f\<lparr>fdPending := {}, fdFlushing := fdFlushing f - 1\<rparr>) else None)"

text \<open>What a flush does with the branches it took, in the order the map is walked.\<close>

definition flush_branches :: "string list \<Rightarrow> connection \<times> world \<Rightarrow> connection \<times> world" where
  "flush_branches order cw = refresh_branch NodeRoot (fold refresh_branch order cw)"

datatype feed_label = FEvent string | FFire | FTake "string set"

inductive feed_step :: "feed \<Rightarrow> feed_label \<Rightarrow> feed \<Rightarrow> bool" where
  event: "feed_step f (FEvent ty) (feed_event ty f)"
| fire: "feed_fire f = Some f' \<Longrightarrow> feed_step f FFire f'"
| takes: "feed_take f = Some (bs, f') \<Longrightarrow> feed_step f (FTake bs) f'"

inductive feed_steps :: "feed \<Rightarrow> feed_label list \<Rightarrow> feed \<Rightarrow> bool" where
  none: "feed_steps f [] f"
| snoc: "feed_steps f ls g \<Longrightarrow> feed_step g l h \<Longrightarrow> feed_steps f (ls @ [l]) h"

subsection \<open>The loop\<close>

definition follow_events :: "connection \<times> world \<Rightarrow> (go_error option \<times> docker_event list) \<times> connection \<times> world" where
  "follow_events cw =
     (case cw of (c, w) \<Rightarrow>
      case open_stream c w of
        (Inl e, c1, w1) \<Rightarrow> ((Some e, []), c1, w1)
      | (Inr d, c1, w1) \<Rightarrow>
          (case api_events d w1 of
             (Inl e, w2) \<Rightarrow> ((Some e, []), c1, close_client d w2)
           | (Inr body, w2) \<Rightarrow>
               (let (es, ok) = event_stream body in
                ((if ok then None else Some (EText ''unexpected end of JSON input''), es), c1, close_client d w2))))"

datatype watch_end = WatchForget | WatchStopped | WatchOn

text \<open>\<open>cancelled\<close> is the watcher's context; a round counts as fuel.\<close>

fun watch_events :: "(event list \<Rightarrow> bool) \<Rightarrow> nat \<Rightarrow> connection \<times> world \<Rightarrow> watch_end \<times> connection \<times> world" where
  "watch_events cancelled 0 cw = (WatchOn, cw)"
| "watch_events cancelled (Suc n) cw =
     (if cancelled (wTrace (snd cw)) then (WatchStopped, cw)
      else
        (case follow_events cw of
           ((err, _), c1, w1) \<Rightarrow>
             if (case err of Some e \<Rightarrow> errors_is ErrSessionGone e | None \<Rightarrow> False) \<or> gone c1 then (WatchForget, c1, w1)
             else if err \<noteq> None \<and> \<not> cancelled (wTrace w1) then
               (let w2 = happen EvWait w1 in
                if cancelled (wTrace w2) then (WatchStopped, c1, w2) else watch_events cancelled n (c1, w2))
             else watch_events cancelled n (c1, w1)))"

text \<open>One tick of the timer that lists everything again.\<close>

definition reconcile_tick :: "connection \<times> world \<Rightarrow> connection \<times> world" where
  "reconcile_tick cw =
     (case cw of (c, w) \<Rightarrow> if gone c then (c, w) else refresh_all (wWalk w (wTrace w) (cxObserved c)) (c, w))"

subsection \<open>No event is lost\<close>

inductive_cases feed_eventE: "feed_step f (FEvent ty) g"
inductive_cases feed_fireE: "feed_step f FFire g"
inductive_cases feed_takeE: "feed_step f (FTake bs) g"

text \<open>A branch that waits has a timer or a flush coming.\<close>

definition feed_inv :: "feed \<Rightarrow> bool" where
  "feed_inv f = (fdPending f \<noteq> {} \<longrightarrow> fdTimer f \<or> 0 < fdFlushing f)"

lemma feed_inv_step: "feed_step f l g \<Longrightarrow> feed_inv f \<Longrightarrow> feed_inv g"
  by (cases rule: feed_step.cases)
    (auto simp: feed_inv_def feed_event_def feed_fire_def feed_take_def Let_def split: if_splits)

lemma feed_inv_steps: "feed_steps f ls g \<Longrightarrow> feed_inv f \<Longrightarrow> feed_inv g"
  by (induction rule: feed_steps.induct) (auto intro: feed_inv_step)

text \<open>The branches an event changed that no flush has taken since.\<close>

fun untaken :: "feed_label list \<Rightarrow> string set" where
  "untaken [] = {}"
| "untaken (FEvent ty # ls) = (if branch_for_event_type ty = [] then untaken ls else insert (branch_for_event_type ty) (untaken ls))"
| "untaken (FFire # ls) = untaken ls"
| "untaken (FTake bs # ls) = {}"

definition taken_ok :: "feed_label list \<Rightarrow> bool" where
  "taken_ok ls = (\<forall>a bs b. ls = a @ FTake bs # b \<longrightarrow> bs = untaken (rev a))"

lemma feed_pending:
  assumes "feed_steps f ls g" and "f = new_feed"
  shows "fdPending g = untaken (rev ls) \<and> taken_ok ls"
  using assms
proof (induction rule: feed_steps.induct)
  case (snoc f ls g l h)
  have old: "fdPending g = untaken (rev ls)" "taken_ok ls" using snoc.IH snoc.prems by blast+
  have taken: "bs = untaken (rev ls)" if "l = FTake bs" for bs
    using snoc.hyps(2) unfolding that old(1) [symmetric] by (rule feed_takeE) (auto simp: feed_take_def split: if_splits)
  have "taken_ok (ls @ [l])"
    unfolding taken_ok_def
  proof (intro allI impI)
    fix a bs b assume eq: "ls @ [l] = a @ FTake bs # b"
    show "bs = untaken (rev a)"
    proof (cases b rule: rev_cases)
      case Nil
      then show ?thesis using eq taken by simp
    next
      case (snoc b' l')
      then show ?thesis using eq old(2) unfolding taken_ok_def by (metis append_assoc append_Cons butlast_snoc)
    qed
  qed
  moreover from snoc.hyps(2) have "fdPending h = untaken (rev (ls @ [l]))"
    by (cases rule: feed_step.cases)
      (auto simp: old(1) [symmetric] feed_event_def feed_fire_def feed_take_def Let_def split: if_splits)
  ultimately show ?case by blast
qed (simp add: new_feed_def taken_ok_def)

text \<open>
  C20. A burst is collected and no event of it is lost: in every interleaving of arriving events, the timer
  and the flushes, what a flush takes is exactly the branches changed since the last flush took them, what
  still waits is exactly what changed since then, and whatever waits has an armed timer or a flush on its
  way, so some step that leads to its refresh is always possible; and a flush needs a timer of its own, of
  which a burst arms one.
\<close>

theorem events_collected:
  assumes "feed_steps new_feed ls f"
  shows "fdPending f = untaken (rev ls)
    \<and> (\<forall>a bs b. ls = a @ FTake bs # b \<longrightarrow> bs = untaken (rev a))
    \<and> (fdPending f \<noteq> {} \<longrightarrow> feed_fire f \<noteq> None \<or> (\<exists>f'. feed_take f = Some (fdPending f, f')))
    \<and> length (filter (\<lambda>l. \<exists>bs. l = FTake bs) ls) + fdFlushing f = length (filter (\<lambda>l. l = FFire) ls)
    \<and> length (filter (\<lambda>l. l = FFire) ls) + (if fdTimer f then 1 else 0) \<le> length (filter (\<lambda>l. \<exists>ty. l = FEvent ty) ls)"
proof -
  have inv: "feed_inv f" by (rule feed_inv_steps [OF assms]) (simp add: feed_inv_def new_feed_def)
  have counts: "length (filter (\<lambda>l. \<exists>bs. l = FTake bs) ls) + fdFlushing g = length (filter (\<lambda>l. l = FFire) ls)
    \<and> length (filter (\<lambda>l. l = FFire) ls) + (if fdTimer g then 1 else 0) \<le> length (filter (\<lambda>l. \<exists>ty. l = FEvent ty) ls)"
    if "feed_steps h ls g" "h = new_feed" for g h ls
    using that
  proof (induction rule: feed_steps.induct)
    case (snoc f ls g l h)
    from snoc.hyps(2) snoc.IH [OF snoc.prems] show ?case
      by (cases rule: feed_step.cases)
        (auto simp: feed_event_def feed_fire_def feed_take_def Let_def split: if_splits)
  qed (simp add: new_feed_def)
  have "fdPending f \<noteq> {} \<longrightarrow> feed_fire f \<noteq> None \<or> (\<exists>f'. feed_take f = Some (fdPending f, f'))"
    using inv by (auto simp: feed_inv_def feed_fire_def feed_take_def)
  then show ?thesis
    using feed_pending [OF assms refl] counts [OF assms refl] by (simp add: taken_ok_def)
qed

lemma events_collected_witness:
  "\<exists>f. feed_steps new_feed [FEvent ''container'', FEvent ''image'', FFire, FTake {NodeContainers, NodeImages}] f \<and> fdPending f = {}"
proof -
  have "branch_for_event_type ''container'' = NodeContainers" "branch_for_event_type ''image'' = NodeImages"
    by (simp_all add: branch_for_event_type_def)
  then have b: "feed_event ''image'' (feed_event ''container'' new_feed) = \<lparr>fdPending = {NodeContainers, NodeImages}, fdTimer = True, fdFlushing = 0\<rparr>"
    by (auto simp: feed_event_def new_feed_def node_ids)
  have s2: "feed_steps new_feed [FEvent ''container'', FEvent ''image''] (feed_event ''image'' (feed_event ''container'' new_feed))"
    using feed_steps.snoc [OF feed_steps.snoc [OF feed_steps.none feed_step.event] feed_step.event] by simp
  have s3: "feed_step (feed_event ''image'' (feed_event ''container'' new_feed)) FFire
      \<lparr>fdPending = {NodeContainers, NodeImages}, fdTimer = False, fdFlushing = 1\<rparr>"
    by (rule feed_step.fire) (simp add: b feed_fire_def)
  have s4: "feed_step \<lparr>fdPending = {NodeContainers, NodeImages}, fdTimer = False, fdFlushing = 1\<rparr>
      (FTake {NodeContainers, NodeImages}) new_feed"
    by (rule feed_step.takes) (simp add: feed_take_def new_feed_def)
  have s: "feed_steps new_feed [FEvent ''container'', FEvent ''image'', FFire, FTake {NodeContainers, NodeImages}] new_feed"
    using feed_steps.snoc [OF feed_steps.snoc [OF s2 s3] s4] by simp
  from events_collected [OF s] have "fdPending new_feed = {}" by simp
  with s show ?thesis by blast
qed

subsection \<open>A flush\<close>

lemma fold_refresh_trace:
  assumes "\<forall>n \<in> set order. observes n c \<and> branch_rank n < 3"
  obtains es where "wTrace (snd (fold refresh_branch order (c, w))) = wTrace w @ es" "snapshots es = map json_str order"
    "same_view c (fst (fold refresh_branch order (c, w)))"
  using assms
proof (induction order arbitrary: c w thesis)
  case (Cons n ns)
  obtain es where es: "wTrace (snd (refresh_branch n (c, w))) = wTrace w @ es" "snapshots es = [json_str n]"
    and v: "same_view c (fst (refresh_branch n (c, w)))"
    by (rule refresh_branch_trace [of n c w]) (use Cons.prems(2) in \<open>auto split: if_splits\<close>)
  obtain c1 w1 where r: "refresh_branch n (c, w) = (c1, w1)" by (rule prod.exhaust)
  obtain fs where "wTrace (snd (fold refresh_branch ns (c1, w1))) = wTrace w1 @ fs" "snapshots fs = map json_str ns"
    "same_view c1 (fst (fold refresh_branch ns (c1, w1)))"
    by (rule Cons.IH [of c1 w1]) (use Cons.prems(2) v in \<open>auto simp: r same_view_def observes_def\<close>)
  then show ?case
    using es v by (intro Cons.prems(1) [of "es @ fs"]) (auto simp: r intro: same_view_trans)
qed simp

text \<open>
  A flush sends the parent last: the branches that changed are sent in the order the map is walked and
  then the Docker node above them, with its counts; unlike a full refresh, which sends a parent before its
  children, because a parent's snapshot replaces them.
\<close>

theorem flush_sends_parent_last:
  assumes "\<forall>n \<in> set order. observes n c \<and> branch_rank n = 2" and "order \<noteq> []" and "observes NodeRoot c"
  shows "\<exists>es. wTrace (snd (flush_branches order (c, w))) = wTrace w @ es
    \<and> snapshots es = map json_str (order @ [NodeRoot]) \<and> \<not> sorted (map branch_rank (order @ [NodeRoot]))"
proof -
  obtain es where es: "wTrace (snd (fold refresh_branch order (c, w))) = wTrace w @ es" "snapshots es = map json_str order"
    "same_view c (fst (fold refresh_branch order (c, w)))"
    using fold_refresh_trace [of order c w] assms(1) by auto
  obtain c1 w1 where r: "fold refresh_branch order (c, w) = (c1, w1)" by (rule prod.exhaust)
  have root: "branch_rank NodeRoot = 1" by (simp add: branch_rank_def node_ids)
  obtain fs where fs: "wTrace (snd (refresh_branch NodeRoot (c1, w1))) = wTrace w1 @ fs" "snapshots fs = [json_str NodeRoot]"
    by (rule refresh_branch_trace [of NodeRoot c1 w1])
      (use assms(3) es(3) root in \<open>auto simp: r same_view_def observes_def\<close>)
  obtain n where "n \<in> set order" "branch_rank n = 2" using assms(1,2) by (cases order) auto
  then have "\<not> sorted (map branch_rank (order @ [NodeRoot]))"
    by (auto simp: sorted_append root intro!: bexI [of _ n])
  then show ?thesis
    using es fs by (intro exI [of _ "es @ fs"]) (simp add: flush_branches_def r)
qed

lemma flush_sends_parent_last_witness:
  "\<exists>es. wTrace (snd (flush_branches [NodeContainers] (set_observed [NodeRoot, NodeContainers] (new_connection ''a''), greeting_world))) = es
     \<and> snapshots es = [json_str NodeContainers, json_str NodeRoot]"
  using flush_sends_parent_last [of "[NodeContainers]" "set_observed [NodeRoot, NodeContainers] (new_connection ''a'')" greeting_world]
  by (auto simp: set_observed_def observes_def branch_rank_def node_ids)

subsection \<open>The life of the stream\<close>

lemma asked_api_events: "asked w (snd (api_events d w))"
  by (simp add: api_events_def asked_api_request)

lemma dial_live:
  assumes "dial c w = (r, c1, w1)"
  shows "case r of
      Inr d \<Rightarrow> c1 = c \<and> dkStream d \<notin> live_streams w \<and> live_streams w1 = insert (dkStream d) (live_streams w)
    | Inl e \<Rightarrow> c1 = c \<and> live_streams w1 = live_streams w
        \<or> gone c1 \<and> live_streams w1 = live_streams w - (case cxControl c of None \<Rightarrow> {} | Some d \<Rightarrow> {dkStream d})"
proof -
  obtain q c2 w2 where o: "dial_open c w = (q, c2, w2)" by (rule prod_cases3)
  from o show ?thesis
  proof (cases rule: dial_open_cases)
    case (1 n)
    obtain p w3 where n: "dial_negotiate n w2 = (p, w3)" by (rule prod.exhaust)
    from n show ?thesis
      by (cases rule: dial_negotiate_cases) (use assms 1 in \<open>auto simp: dial_def o n\<close>)
  qed (use assms in \<open>auto simp: dial_def o gone_def\<close>)
qed

text \<open>
  Following the events leaks no stream, however it ends: refused, not answered, broken off or at its
  clean end, the stream opened for it is closed; unless the session ended, exactly the streams that were open
  before are open after.
\<close>

theorem follow_leaks_no_stream:
  "live_streams (snd (snd (follow_events (c, w)))) \<subseteq> live_streams w
   \<and> (\<not> gone (fst (snd (follow_events (c, w)))) \<longrightarrow> live_streams (snd (snd (follow_events (c, w)))) = live_streams w)"
proof -
  obtain r c1 w1 where d: "dial c w = (r, c1, w1)" by (rule prod_cases3)
  show ?thesis
  proof (cases r)
    case (Inl e)
    then show ?thesis using dial_live [OF d] by (auto simp: follow_events_def open_stream_def d split: option.splits)
  next
    case (Inr dk)
    obtain q w2 where a: "api_events dk w1 = (q, w2)" by (rule prod.exhaust)
    have "live_streams w2 = live_streams w1" using asked_live [OF asked_api_events [of w1 dk]] by (simp add: a)
    then show ?thesis
      using dial_live [OF d] Inr
      by (cases q) (auto simp: follow_events_def open_stream_def d a Let_def split_beta)
  qed
qed

lemma follow_leaks_no_stream_witness:
  "live_streams (snd (snd (follow_events (new_connection ''a'', quiet_world)))) = {}"
  using follow_leaks_no_stream [of "new_connection ''a''" quiet_world]
  by (auto simp: live_streams_def quiet_world_def)

text \<open>
  A denial ends the watch at once: if the host refuses the event stream with a denial, the loop returns to
  have the session's state dropped after that one attempt, however long it might have run, with the
  connection gone and its shared client closed.
\<close>

theorem denial_stops_watch:
  assumes "\<not> cancelled (wTrace w)" and "wOpen w (wTrace w) (cxSession c) = Some e" and "errors_is ErrHostDenied e"
  shows "watch_events cancelled (Suc n) (c, w)
    = (WatchForget, c\<lparr>cxClosed := True, cxControl := None\<rparr>, close_control (cxControl c) (happen (EvOpen (cxSession c)) w))"
  using assms
  by (simp add: follow_events_def open_stream_def dial_def dial_open_def open_exec_def mark_gone_def is_session_gone_def
      gone_def)

lemma denial_stops_watch_witness:
  "fst (watch_events (\<lambda>_. False) 1000 (new_connection ''a'',
     quiet_world\<lparr>wOpen := (\<lambda>es s. Some (EWrap2 ErrHostDenied (ERpc (-32001) ''x'')))\<rparr>)) = WatchForget"
  using denial_stops_watch [of "\<lambda>_. False" "quiet_world\<lparr>wOpen := (\<lambda>es s. Some (EWrap2 ErrHostDenied (ERpc (-32001) ''x'')))\<rparr>"
      "new_connection ''a''" "EWrap2 ErrHostDenied (ERpc (-32001) ''x'')" 999]
  by (simp add: errors_is_def)

text \<open>One attempt that fails without a denial changes nothing.\<close>

lemma follow_failed:
  assumes "wOpen w (wTrace w) (cxSession c) = Some e" and "\<not> errors_is ErrHostDenied e"
  shows "follow_events (c, w) = ((Some e, []), c, happen (EvOpen (cxSession c)) w)"
  using assms by (simp add: follow_events_def open_stream_def dial_def dial_open_def open_exec_def is_session_gone_def)

text \<open>
  C30. The watch of a session ends with the first denial, and not before: if the host answers \<open>k\<close> attempts to open the
  event stream with ordinary errors and the next one with a denial, the loop makes exactly these \<open>k + 1\<close> attempts, one
  pause after each of the first \<open>k\<close>, and returns, with any fuel above \<open>k\<close>, to have the session's state dropped; the
  connection is then gone and its shared client closed.\<close>

theorem watch_ends_with_denial:
  assumes "\<forall>es s. \<exists>e. wOpen w es s = Some e \<and> \<not> errors_is ErrSessionGone e
      \<and> (errors_is ErrHostDenied e \<longleftrightarrow> opened (wTrace w) + k \<le> opened es)"
    and "\<not> gone c" and "k < n"
  shows "watch_events (\<lambda>_. False) n (c, w)
    = (WatchForget, c\<lparr>cxClosed := True, cxControl := None\<rparr>,
       close_control (cxControl c)
         (w\<lparr>wTrace := wTrace w @ concat (replicate k [EvOpen (cxSession c), EvWait]) @ [EvOpen (cxSession c)]\<rparr>))"
  using assms(1,3)
proof (induction k arbitrary: w n)
  case 0
  then obtain m where n: "n = Suc m" by (cases n) auto
  obtain e where "wOpen w (wTrace w) (cxSession c) = Some e" "errors_is ErrHostDenied e" using "0.prems"(1) by fastforce
  from denial_stops_watch [of "\<lambda>_. False", OF _ this, of m] show ?case by (simp add: n happen_def)
next
  case (Suc k)
  then obtain m where n: "n = Suc m" "k < m" by (cases n) auto
  let ?w = "happen EvWait (happen (EvOpen (cxSession c)) w)"
  obtain e where e: "wOpen w (wTrace w) (cxSession c) = Some e" "\<not> errors_is ErrHostDenied e" "\<not> errors_is ErrSessionGone e"
    using Suc.prems(1) [rule_format, of "wTrace w" "cxSession c"] by auto
  have "opened (wTrace ?w) = Suc (opened (wTrace w))" by (simp add: happen_def opened_def)
  moreover have "wOpen ?w = wOpen w" by (simp add: happen_def)
  ultimately have "\<forall>es s. \<exists>e. wOpen ?w es s = Some e \<and> \<not> errors_is ErrSessionGone e
      \<and> (errors_is ErrHostDenied e \<longleftrightarrow> opened (wTrace ?w) + k \<le> opened es)" using Suc.prems(1) by simp
  from Suc.IH [OF this n(2)] show ?case
    using follow_failed [OF e(1,2)] e(3) assms(2) by (simp add: n(1)) (simp add: happen_def)
qed

lemma watch_ends_with_denial_witness:
  "wTrace (snd (snd (watch_events (\<lambda>_. False) 100 (new_connection ''a'',
     quiet_world\<lparr>wOpen := (\<lambda>es s. Some (if opened es < 2 then EText ''no'' else EWrap2 ErrHostDenied (ERpc (-32001) ''x'')))\<rparr>))))
   = [EvOpen ''a'', EvWait, EvOpen ''a'', EvWait, EvOpen ''a'']"
  using watch_ends_with_denial
    [of "quiet_world\<lparr>wOpen := (\<lambda>es s. Some (if opened es < 2 then EText ''no'' else EWrap2 ErrHostDenied (ERpc (-32001) ''x'')))\<rparr>"
      2 "new_connection ''a''" 100]
  by (simp add: errors_is_def gone_def new_connection_def quiet_world_def close_control_def numeral_2_eq_2)

text \<open>
  A daemon that cannot be reached is tried again at a pace: as long as the host answers the event
  stream with an ordinary error, every attempt is followed by one pause, and the loop goes on.
\<close>

theorem unreachable_daemon_paced:
  assumes "\<forall>es s. \<exists>e. wOpen w es s = Some e \<and> \<not> errors_is ErrHostDenied e \<and> \<not> errors_is ErrSessionGone e"
    and "\<not> gone c"
  shows "watch_events (\<lambda>_. False) n (c, w)
    = (WatchOn, c, w\<lparr>wTrace := wTrace w @ concat (replicate n [EvOpen (cxSession c), EvWait])\<rparr>)"
  using assms(1)
proof (induction n arbitrary: w)
  case (Suc n)
  obtain e where e: "wOpen w (wTrace w) (cxSession c) = Some e" "\<not> errors_is ErrHostDenied e" "\<not> errors_is ErrSessionGone e"
    using Suc.prems by blast
  show ?case
    using follow_failed [OF e(1,2)] e assms(2) Suc.IH [of "happen EvWait (happen (EvOpen (cxSession c)) w)"] Suc.prems by (simp add: happen_def)
qed simp

lemma unreachable_daemon_paced_witness:
  "wTrace (snd (snd (watch_events (\<lambda>_. False) 2 (new_connection ''a'', quiet_world\<lparr>wOpen := (\<lambda>es s. Some (EText ''no''))\<rparr>))))
     = [EvOpen ''a'', EvWait, EvOpen ''a'', EvWait]"
  using unreachable_daemon_paced [of "quiet_world\<lparr>wOpen := (\<lambda>es s. Some (EText ''no''))\<rparr>" "new_connection ''a''" 2]
  by (simp add: errors_is_def gone_def new_connection_def quiet_world_def numeral_2_eq_2)

text \<open>A daemon whose event streams end at once, cleanly.\<close>

definition short_reply :: "event list \<Rightarrow> nat \<Rightarrow> string \<Rightarrow> string \<Rightarrow> string option \<Rightarrow> http_reply" where
  "short_reply es n m t b = Answer 200 (if t = ''/version'' then ''{}'' else [])"

definition follow_round :: "string \<Rightarrow> nat \<Rightarrow> event list" where
  "follow_round s n = [EvOpen s, EvHttp n ''GET'' ''/version'' None, EvHttp n ''GET'' ''/v1.45/events'' None, EvCloseStream n]"

lemma follow_short:
  assumes "wOpen w = (\<lambda>es s. None)" and "wHttp w = short_reply"
  shows "follow_events (c, w) = ((None, []), c, w\<lparr>wTrace := wTrace w @ follow_round (cxSession c) (opened (wTrace w))\<rparr>)"
proof -
  let ?n = "opened (wTrace w)"
  have "url_ok (request_target ''/version'' [])" "request_target ''/version'' [] = ''/version''" by code_simp+
  moreover have "decode_one dec_version \<lparr>vrApiVersion = [], vrMinAPIVersion = [], vrVersion = []\<rparr> ''{}''
      = Some \<lparr>vrApiVersion = [], vrMinAPIVersion = [], vrVersion = []\<rparr>" by code_simp
  moreover have "negotiated_version [] = MaxAPIVersion" by (simp add: negotiated_version_def)
  ultimately have d: "dial c w = (Inr (new_client ?n), c, happen (EvHttp ?n ''GET'' ''/version'' None) (happen (EvOpen (cxSession c)) w))"
    by (simp add: dial_def dial_open_accepted assms dial_negotiate_def negotiate_def do_exchange_def short_reply_def new_client_def)
  have "''/v'' @ MaxAPIVersion @ ''/events'' = ''/v1.45/events''" "url_ok (request_target ''/v1.45/events'' [])"
    "request_target ''/v1.45/events'' [] = ''/v1.45/events''" by code_simp+
  moreover have "event_stream [] = ([], True)" by (simp add: event_stream.simps [of "[]"] skip_ws_def)
  ultimately show ?thesis
    by (simp add: follow_events_def open_stream_def d api_events_def api_request_def do_exchange_def new_client_def assms
        short_reply_def Let_def close_client_def follow_round_def MaxAPIVersion_def) (simp add: happen_def)
qed

text \<open>
  A stream that ends cleanly is opened again without a pause: against a daemon that accepts the event
  stream and ends it at once, the loop dials, negotiates, asks and closes round after round and never waits.
\<close>

theorem clean_end_spins:
  assumes "wOpen w = (\<lambda>es s. None)" and "wHttp w = short_reply" and "\<not> gone c"
  shows "\<exists>es. watch_events (\<lambda>_. False) n (c, w) = (WatchOn, c, w\<lparr>wTrace := wTrace w @ es\<rparr>)
    \<and> EvWait \<notin> set es \<and> opened es = n"
  using assms(1,2)
proof (induction n arbitrary: w)
  case (Suc n)
  let ?round = "follow_round (cxSession c) (opened (wTrace w))"
  from Suc.IH [of "w\<lparr>wTrace := wTrace w @ ?round\<rparr>"] Suc.prems
  obtain es where es: "watch_events (\<lambda>_. False) n (c, w\<lparr>wTrace := wTrace w @ ?round\<rparr>)
      = (WatchOn, c, w\<lparr>wTrace := (wTrace w @ ?round) @ es\<rparr>)" "EvWait \<notin> set es" "opened es = n"
    by auto
  have "opened ?round = 1" "EvWait \<notin> set ?round" by (simp_all add: follow_round_def opened_def)
  then show ?case
    using es assms(3) by (intro exI [of _ "?round @ es"]) (simp add: follow_short [OF Suc.prems])
qed (auto intro!: exI [of _ "[]"])

lemma clean_end_spins_witness:
  "EvWait \<notin> set (wTrace (snd (snd (watch_events (\<lambda>_. False) 100 (new_connection ''a'', quiet_world\<lparr>wHttp := short_reply\<rparr>)))))"
  using clean_end_spins [of "quiet_world\<lparr>wHttp := short_reply\<rparr>" "new_connection ''a''" 100]
  by (auto simp: quiet_world_def gone_def new_connection_def)

end
