(* ===== verification/Framing.thy ===== *)
theory Framing
  imports Prelude
begin

text \<open>
  The interface of a framed byte stream: an encoder, a decoder that reads one frame off a reader, and
  the laws that make the decoder trustworthy. Two components provide it: the host's frame layer
  (theory Codec) and Docker's multiplexed output (theory Demux). A loop that reads frame after frame
  and acts on each (the client's \<open>Serve\<close>, the log pump) is the second interface; what such a loop
  does with a whole stream is proved here once.
\<close>

locale framing =
  fixes enc :: "'f \<Rightarrow> bytes"
    and ok :: "'f \<Rightarrow> bool"
    and dec :: "reader \<Rightarrow> ('e + 'f) \<times> reader"
    and cut_err :: 'e
  assumes dec_enc: "ok f \<Longrightarrow> rbuf r = enc f @ rest \<Longrightarrow> dec r = (Inr f, r\<lparr>rbuf := rest\<rparr>)"
    and dec_shrinks: "dec r = (Inr f, r') \<Longrightarrow> length (rbuf r') < length (rbuf r)"
    and enc_nonempty: "ok f \<Longrightarrow> enc f \<noteq> []"
    and dec_cut: "ok f \<Longrightarrow> enc f = p @ q \<Longrightarrow> p \<noteq> [] \<Longrightarrow> q \<noteq> [] \<Longrightarrow> rbuf r = p \<Longrightarrow> rend r = EOF
       \<Longrightarrow> fst (dec r) = Inl cut_err"
begin

text \<open>The encoding is unambiguous: no frame's bytes start another frame's.\<close>

lemma enc_prefix_free:
  assumes "ok f" and "ok g" and "enc f @ a = enc g @ b"
  shows "f = g \<and> a = b"
proof -
  have "dec \<lparr>rbuf = enc f @ a, rend = EOF\<rparr> = (Inr f, \<lparr>rbuf = a, rend = EOF\<rparr>)"
    using dec_enc [OF assms(1)] by simp
  moreover have "dec \<lparr>rbuf = enc f @ a, rend = EOF\<rparr> = (Inr g, \<lparr>rbuf = b, rend = EOF\<rparr>)"
    using dec_enc [OF assms(2)] assms(3) by simp
  ultimately show ?thesis by simp
qed

end

text \<open>A framing that accepts nothing but the encoder's own bytes.\<close>

locale canonical_framing = framing enc ok dec cut_err
  for enc :: "'f \<Rightarrow> bytes" and ok :: "'f \<Rightarrow> bool"
    and dec :: "reader \<Rightarrow> ('e + 'f) \<times> reader" and cut_err :: 'e +
  assumes dec_sound: "dec r = (Inr f, r') \<Longrightarrow> ok f \<and> rbuf r = enc f @ rbuf r' \<and> rend r' = rend r"
begin

lemma dec_iff: "dec r = (Inr f, r') \<longleftrightarrow> ok f \<and> rbuf r = enc f @ rbuf r' \<and> r' = r\<lparr>rbuf := rbuf r'\<rparr>"
  for r :: reader
proof
  assume d: "dec r = (Inr f, r')"
  then show "ok f \<and> rbuf r = enc f @ rbuf r' \<and> r' = r\<lparr>rbuf := rbuf r'\<rparr>"
    using dec_sound [OF d] by (cases r, cases r') simp
qed (metis dec_enc)

end

text \<open>What a loop's action makes of a list of frames: \<open>Inl\<close> stops the loop with its result.\<close>

fun act_all :: "('s \<Rightarrow> 'f \<Rightarrow> 'res + 's) \<Rightarrow> 's \<Rightarrow> 'f list \<Rightarrow> 'res + 's" where
  "act_all act s [] = Inr s"
| "act_all act s (f # fs) = (case act s f of Inl res \<Rightarrow> Inl res | Inr s' \<Rightarrow> act_all act s' fs)"

locale frame_loop = framing enc ok dec cut_err
  for enc :: "'f \<Rightarrow> bytes" and ok :: "'f \<Rightarrow> bool"
    and dec :: "reader \<Rightarrow> ('e + 'f) \<times> reader" and cut_err :: 'e +
  fixes act :: "'s \<Rightarrow> 'f \<Rightarrow> 'res + 's"
    and fin :: "'s \<Rightarrow> 'e \<Rightarrow> 'res"
    and run :: "'s \<Rightarrow> reader \<Rightarrow> 'res"
  assumes run_eq: "run s r = (case dec r of (Inl e, r') \<Rightarrow> fin s e
       | (Inr f, r') \<Rightarrow> (case act s f of Inl res \<Rightarrow> res | Inr s' \<Rightarrow> run s' r'))"
begin

text \<open>A stream of whole frames is acted on frame by frame, in order, none lost and none twice.\<close>

lemma run_frames:
  assumes "list_all ok fs" and "rbuf r = concat (map enc fs) @ rest"
  shows "run s r = (case act_all act s fs of Inl res \<Rightarrow> res | Inr s' \<Rightarrow> run s' (r\<lparr>rbuf := rest\<rparr>))"
  using assms
proof (induction fs arbitrary: s r)
  case Nil
  then have "r\<lparr>rbuf := rest\<rparr> = r" by (cases r) simp
  then show ?case by simp
next
  case (Cons f fs)
  then have "dec r = (Inr f, r\<lparr>rbuf := concat (map enc fs) @ rest\<rparr>)"
    by (intro dec_enc) simp_all
  then have step: "run s r = (case act s f of Inl res \<Rightarrow> res
      | Inr s' \<Rightarrow> run s' (r\<lparr>rbuf := concat (map enc fs) @ rest\<rparr>))"
    by (subst run_eq) simp
  show ?case
  proof (cases "act s f")
    case (Inl res)
    with step show ?thesis by simp
  next
    case (Inr s')
    have "run s' (r\<lparr>rbuf := concat (map enc fs) @ rest\<rparr>)
        = (case act_all act s' fs of Inl res \<Rightarrow> res | Inr t \<Rightarrow> run t (r\<lparr>rbuf := rest\<rparr>))"
      using Cons.prems Cons.IH [of "r\<lparr>rbuf := concat (map enc fs) @ rest\<rparr>" s']
      by (simp split: sum.split)
    with step Inr show ?thesis by simp
  qed
qed

text \<open>A stream that ends inside a frame ends the loop with the error of a cut frame.\<close>

lemma run_cut:
  assumes "list_all ok fs" and "act_all act s fs = Inr s'"
    and "ok f" and "enc f = p @ q" and "p \<noteq> []" and "q \<noteq> []"
    and "rbuf r = concat (map enc fs) @ p" and "rend r = EOF"
  shows "run s r = fin s' cut_err"
proof -
  have "run s r = run s' (r\<lparr>rbuf := p\<rparr>)"
    using run_frames [OF assms(1,7), of s] assms(2) by simp
  moreover have "fst (dec (r\<lparr>rbuf := p\<rparr>)) = Inl cut_err"
    using dec_cut [OF assms(3-6)] assms(8) by simp
  then obtain r' where "dec (r\<lparr>rbuf := p\<rparr>) = (Inl cut_err, r')"
    by (metis prod.collapse)
  ultimately show ?thesis by (simp add: run_eq [of s' "r\<lparr>rbuf := p\<rparr>"])
qed

end

end
