(* ===== verification/Demux.thy ===== *)
theory Demux
  imports Framing
begin

text \<open>
  Docker's multiplexed output (\<open>internal/infra/dockerapi/stream.go\<close>): without a terminal the daemon
  interleaves stdout and stderr on one connection, each chunk behind an eight-byte header. \<open>demux\<close>
  reads one chunk. The daemon is the encoder; its documented format is written out as
  \<open>mux_bytes\<close>, to state what the reader makes of it.
\<close>

definition StreamStdin :: byte where "StreamStdin = 0"
definition StreamStdout :: byte where "StreamStdout = 1"
definition StreamStderr :: byte where "StreamStderr = 2"

definition demuxHeaderLen :: nat where "demuxHeaderLen = 8"
definition maxDemuxFrame :: nat where "maxDemuxFrame = 2 ^ 24"

datatype demux_err = DemuxRead read_err | DemuxUnknownStream byte | DemuxFrameTooLong u32

record demux_frame =
  dStream :: byte
  dData :: bytes

definition demux :: "reader \<Rightarrow> (demux_err + demux_frame) \<times> reader" where
  "demux r =
     (case read_full demuxHeaderLen r of
        (Inl e, r1) \<Rightarrow> (Inl (DemuxRead e), r1)
      | (Inr header, r1) \<Rightarrow>
          (let stream = header ! 0;
               len = get_u32 (take 4 (drop 4 header))
           in if stream > StreamStderr then (Inl (DemuxUnknownStream stream), r1)
              else if len > of_nat maxDemuxFrame then (Inl (DemuxFrameTooLong len), r1)
              else (case read_full (unat len) r1 of
                      (Inl e, r2) \<Rightarrow> (Inl (DemuxRead (if e = EOF then UnexpectedEOF else e)), r2)
                    | (Inr d, r2) \<Rightarrow> (Inr \<lparr>dStream = stream, dData = d\<rparr>, r2))))"

subsection \<open>The daemon's format\<close>

definition mux_ok :: "demux_frame \<Rightarrow> bool" where
  "mux_ok f = (dStream f \<le> StreamStderr \<and> length (dData f) \<le> maxDemuxFrame)"

definition mux_header :: "demux_frame \<Rightarrow> bytes" where
  "mux_header f = [dStream f, 0, 0, 0] @ put_u32 (of_nat (length (dData f)))"

definition mux_bytes :: "demux_frame \<Rightarrow> bytes" where
  "mux_bytes f = mux_header f @ dData f"

lemma mux_header_parts:
  "length (mux_header f) = demuxHeaderLen" "mux_header f ! 0 = dStream f"
  "get_u32 (take 4 (drop 4 (mux_header f))) = of_nat (length (dData f))"
  by (simp_all add: mux_header_def demuxHeaderLen_def)

lemma unat_chunk_length: "n \<le> maxDemuxFrame \<Longrightarrow> unat (of_nat n :: u32) = n"
  by (simp add: maxDemuxFrame_def unat_of_nat)

lemma chunk_length_bound: "n \<le> maxDemuxFrame \<Longrightarrow> \<not> (of_nat n :: u32) > of_nat maxDemuxFrame"
  by (simp add: word_less_nat_alt unat_chunk_length)

lemma demux_header:
  assumes "mux_ok f" and "rbuf r = mux_header f @ w"
  shows "demux r =
    (case read_full (length (dData f)) (r\<lparr>rbuf := w\<rparr>) of
       (Inl e, r2) \<Rightarrow> (Inl (DemuxRead (if e = EOF then UnexpectedEOF else e)), r2)
     | (Inr d, r2) \<Rightarrow> (Inr (f\<lparr>dData := d\<rparr>), r2))"
proof -
  have n: "length (dData f) \<le> maxDemuxFrame" and s: "\<not> dStream f > StreamStderr"
    using assms(1) by (simp_all add: mux_ok_def not_less)
  have h: "read_full demuxHeaderLen r = (Inr (mux_header f), r\<lparr>rbuf := w\<rparr>)"
    using assms(2) by (rule read_full_append) (rule mux_header_parts)
  show ?thesis
    unfolding demux_def h using s
    by (simp add: Let_def mux_header_parts chunk_length_bound [OF n] unat_chunk_length [OF n]
        split: sum.split prod.split)
qed

lemma demux_shrinks: "demux r = (Inr f, r') \<Longrightarrow> length (rbuf r') < length (rbuf r)"
  by (auto simp: demux_def Let_def demuxHeaderLen_def split: prod.splits sum.splits if_splits
      dest!: read_full_Inr)

lemma demux_cut:
  assumes "mux_ok f" and "mux_bytes f = p @ q" and "p \<noteq> []" and "q \<noteq> []"
    and "rbuf r = p" and "rend r = EOF"
  shows "fst (demux r) = Inl (DemuxRead UnexpectedEOF)"
proof (cases "demuxHeaderLen \<le> length p")
  case False
  then show ?thesis using assms by (simp add: demux_def read_full_def)
next
  case True
  then have "length (mux_header f) \<le> length p" by (simp add: mux_header_parts)
  with assms(2) obtain w where w: "p = mux_header f @ w" "dData f = w @ q"
    unfolding mux_bytes_def by (auto simp: append_eq_append_conv2)
  with assms(4) have "length w < length (dData f)" by simp
  moreover have "rbuf r = mux_header f @ w" using assms(5) w by simp
  ultimately show ?thesis
    using demux_header [OF assms(1), of r w] assms(6) by (simp add: read_full_def)
qed

interpretation mux: framing mux_bytes mux_ok demux "DemuxRead UnexpectedEOF"
proof unfold_locales
  fix f :: demux_frame and r :: reader and rest
  assume "mux_ok f" "rbuf r = mux_bytes f @ rest"
  then show "demux r = (Inr f, r\<lparr>rbuf := rest\<rparr>)"
    using demux_header [of f r "dData f @ rest"] by (simp add: mux_bytes_def read_full_def)
next
  fix f :: demux_frame
  show "mux_bytes f \<noteq> []" by (simp add: mux_bytes_def mux_header_def)
qed (use demux_shrinks demux_cut in blast)+

subsection \<open>Properties\<close>

text \<open>
  A chunk the daemon wrote on stdin, stdout or stderr reads back with its stream tag and its bytes,
  and the reader stands right behind it; two different chunks never start with the same bytes.
\<close>

theorem demux_mux:
  assumes "mux_ok f"
  shows "demux \<lparr>rbuf = mux_bytes f @ rest, rend = e\<rparr> = (Inr f, \<lparr>rbuf = rest, rend = e\<rparr>)
    \<and> (\<forall>g a. mux_ok g \<longrightarrow> mux_bytes f @ rest = mux_bytes g @ a \<longrightarrow> f = g \<and> rest = a)"
  using mux.dec_enc [OF assms, of "\<lparr>rbuf = mux_bytes f @ rest, rend = e\<rparr>"] mux.enc_prefix_free [OF assms]
  by auto

lemma demux_mux_witness:
  "demux \<lparr>rbuf = [2, 0, 0, 0, 0, 0, 0, 1, 33, 1], rend = EOF\<rparr>
     = (Inr \<lparr>dStream = 2, dData = [33]\<rparr>, \<lparr>rbuf = [1], rend = EOF\<rparr>)"
proof -
  have "mux_ok \<lparr>dStream = 2, dData = [33]\<rparr>"
    by (simp add: mux_ok_def StreamStderr_def maxDemuxFrame_def)
  from demux_mux [OF this, of "[1]" EOF] show ?thesis
    by (simp add: mux_bytes_def mux_header_def put_u32_def)
qed

text \<open>
  A chunk that arrives has one of the three stream tags and at most 16 MiB of data, whatever the
  stream holds: a corrupted length is refused before any memory is spent on it.
\<close>

theorem demux_bounds:
  assumes "demux r = (Inr f, r')"
  shows "dStream f \<le> 2 \<and> length (dData f) \<le> 2 ^ 24"
proof -
  from assms obtain h r1 where h: "read_full demuxHeaderLen r = (Inr h, r1)"
    by (auto simp: demux_def Let_def split: prod.splits sum.splits if_splits)
  let ?len = "get_u32 (take 4 (drop 4 h))"
  from assms h have c: "\<not> h ! 0 > StreamStderr" "\<not> ?len > of_nat maxDemuxFrame" "dStream f = h ! 0"
    and d: "read_full (unat ?len) r1 = (Inr (dData f), r')"
    by (auto simp: demux_def Let_def split: prod.splits sum.splits if_splits)
  have "length (dData f) = unat ?len" using read_full_Inr [OF d] by simp
  moreover have "unat ?len \<le> maxDemuxFrame"
    using c(2) unat_chunk_length [of maxDemuxFrame] by (simp add: not_less word_le_nat_alt)
  ultimately show ?thesis using c by (simp add: StreamStderr_def maxDemuxFrame_def not_less)
qed

lemma demux_bounds_witness:
  "dStream \<lparr>dStream = 1, dData = []\<rparr> \<le> 2 \<and> length (dData \<lparr>dStream = 1, dData = []\<rparr>) \<le> 2 ^ 24"
  by (rule demux_bounds [of "\<lparr>rbuf = [1, 0, 0, 0, 0, 0, 0, 0], rend = EOF\<rparr>" _ "\<lparr>rbuf = [], rend = EOF\<rparr>"])
     (simp add: demux_def read_full_def demuxHeaderLen_def Let_def get_u32_def StreamStderr_def
        maxDemuxFrame_def)

end
