(* ===== verification/Service.thy ===== *)
theory Service
  imports Values Events Demux
begin

text \<open>
  The service's state and what every part of it works with (\<open>internal/usecase/service.go\<close>, and the dialogs and
  host calls of \<open>dialogs.go\<close> and \<open>surfaces.go\<close>). A \<open>*Connection\<close> is a place in a heap, because the map of
  sessions, the tabs, the open dialogs and the running goroutines share it. Go's closures and goroutines are
  data: a pending dialog is the work its answer starts, a goroutine that has not run yet is a task, a context
  is a number that is cancelled or not. A handler or a task runs in one piece; \<open>Lifecycle\<close> says in which
  orders they may run.
\<close>

record target =
  tgKind :: kind
  tgId :: string

record failure =
  flLabel :: string
  flError :: go_error

text \<open>The closures handed to \<open>openDialog\<close>.\<close>

datatype dialog_work =
    CreateVolume
  | CreateNetwork
  | RemoveContainers "target list"
  | RemoveImages "target list"
  | RemoveVolumes "target list"

record pending_dialog =
  pdConn :: nat
  pdWork :: dialog_work

text \<open>
  An open tab. For a console \<open>sfExec\<close> is the exec it shows and its client's stream was hijacked; what \<open>closer\<close>
  does follows from that.
\<close>

record surface =
  sfContext :: nat
  sfExec :: string
  sfClient :: docker
  sfConn :: nat
  sfHijacked :: bool

text \<open>
  What a goroutine has still to do. \<open>TClose\<close> is the rest of stopping tabs and connections, in order.
\<close>

datatype closing = CancelContext nat | CloseBody nat | CloseStream nat | CloseConn nat

datatype task =
    TObserve nat
  | TAction nat "string list" string
  | TAnswer pending_dialog "(string \<times> string) list"
  | TWatch nat nat
  | TReconcile nat nat
  | TLogPump nat string bytes
  | TConsolePump nat string
  | TClose "closing list"

record service =
  svHeap :: "connection list"
  svConns :: "string \<Rightarrow> nat option"
  svSurfaces :: "string \<Rightarrow> surface option"
  svDialogs :: "string \<Rightarrow> pending_dialog option"
  svInput :: "string \<Rightarrow> nat option"
  svWatchers :: "string \<Rightarrow> nat option"
  svStore :: store
  svContexts :: nat
  svCancelled :: "nat set"
  svTasks :: "task list"

type_synonym plugin = "service \<times> world"

definition new_service :: service where
  "new_service = \<lparr>svHeap = [], svConns = (\<lambda>_. None), svSurfaces = (\<lambda>_. None), svDialogs = (\<lambda>_. None),
     svInput = (\<lambda>_. None), svWatchers = (\<lambda>_. None), svStore = new_store, svContexts = 0, svCancelled = {}, svTasks = []\<rparr>"

subsection \<open>The pieces of the state\<close>

definition conn_at :: "nat \<Rightarrow> service \<Rightarrow> connection" where
  "conn_at r s = svHeap s ! r"

definition put_conn :: "nat \<Rightarrow> connection \<Rightarrow> service \<Rightarrow> service" where
  "put_conn r c s = s\<lparr>svHeap := (svHeap s)[r := c]\<rparr>"

definition spawn :: "task \<Rightarrow> service \<Rightarrow> service" where
  "spawn t s = s\<lparr>svTasks := svTasks s @ [t]\<rparr>"

definition cancel :: "nat \<Rightarrow> service \<Rightarrow> service" where
  "cancel ctx s = s\<lparr>svCancelled := insert ctx (svCancelled s)\<rparr>"

text \<open>Operations of a connection and of the outside, on the whole.\<close>

definition on_conn :: "nat \<Rightarrow> (connection \<Rightarrow> world \<Rightarrow> 'a \<times> connection \<times> world) \<Rightarrow> plugin \<Rightarrow> 'a \<times> plugin" where
  "on_conn r f sw =
     (case f (conn_at r (fst sw)) (snd sw) of (x, c, w) \<Rightarrow> (x, put_conn r c (fst sw), w))"

definition on_tree :: "nat \<Rightarrow> (connection \<times> world \<Rightarrow> connection \<times> world) \<Rightarrow> plugin \<Rightarrow> plugin" where
  "on_tree r f sw = (case f (conn_at r (fst sw), snd sw) of (c, w) \<Rightarrow> (put_conn r c (fst sw), w))"

definition on_world :: "(world \<Rightarrow> 'a \<times> world) \<Rightarrow> plugin \<Rightarrow> 'a \<times> plugin" where
  "on_world f sw = (case f (snd sw) of (x, w) \<Rightarrow> (x, fst sw, w))"

abbreviation control_of :: "nat \<Rightarrow> plugin \<Rightarrow> (go_error + docker) \<times> plugin" where
  "control_of r \<equiv> on_conn r control"

text \<open>\<open>refreshAll\<close>, over the open nodes in the order their map is walked.\<close>

definition refresh_open :: "connection \<times> world \<Rightarrow> connection \<times> world" where
  "refresh_open cw = refresh_all (wWalk (snd cw) (wTrace (snd cw)) (cxObserved (fst cw))) cw"

subsection \<open>Sessions\<close>

definition connection_for :: "string \<Rightarrow> service \<Rightarrow> nat \<times> service" where
  "connection_for session s =
     (case svConns s session of
        Some r \<Rightarrow> (r, s)
      | None \<Rightarrow>
          (length (svHeap s),
           s\<lparr>svHeap := svHeap s @ [new_connection session], svConns := (svConns s)(session \<mapsto> length (svHeap s))\<rparr>))"

text \<open>\<open>Observe\<close>, and the goroutine it starts.\<close>

definition observe :: "string \<Rightarrow> string list \<Rightarrow> plugin \<Rightarrow> plugin" where
  "observe session ids sw =
     (let (r, s1) = connection_for session (fst sw);
          s2 = put_conn r (set_observed ids (conn_at r s1)) s1;
          (m, st, w1) = store_load session (svStore s2) (snd sw);
          s3 = put_conn r (load_settings m (conn_at r s2)) (s2\<lparr>svStore := st\<rparr>)
      in (spawn (TObserve r) s3, w1))"

definition ensure_watcher :: "nat \<Rightarrow> service \<Rightarrow> service" where
  "ensure_watcher r s =
     (let session = cxSession (conn_at r s) in
      case svWatchers s session of
        Some _ \<Rightarrow> s
      | None \<Rightarrow>
          (let ctx = svContexts s in
           spawn (TReconcile ctx r) (spawn (TWatch ctx r)
             (s\<lparr>svWatchers := (svWatchers s)(session \<mapsto> ctx), svContexts := ctx + 1\<rparr>))))"

definition run_observe :: "nat \<Rightarrow> plugin \<Rightarrow> plugin" where
  "run_observe r sw = (case on_tree r refresh_open sw of (s, w) \<Rightarrow> (ensure_watcher r s, w))"

text \<open>\<open>InvokeAction\<close> only starts a goroutine.\<close>

definition invoke_action :: "string \<Rightarrow> string list \<Rightarrow> string \<Rightarrow> plugin \<Rightarrow> plugin" where
  "invoke_action session ids act sw =
     (let (r, s1) = connection_for session (fst sw) in (spawn (TAction r ids act) s1, snd sw))"

subsection \<open>Dialogs\<close>

text \<open>A decoded reply of the host; an empty one does not decode.\<close>

definition host_ask :: "string \<Rightarrow> json \<Rightarrow> 'a dec \<Rightarrow> 'a \<Rightarrow> world \<Rightarrow> (go_error + 'a) \<times> world" where
  "host_ask m p dc z w =
     (case host_call m p w of
        (Inl e, w1) \<Rightarrow> (Inl e, w1)
      | (Inr raw, w1) \<Rightarrow>
          (case (case raw of None \<Rightarrow> None | Some j \<Rightarrow> dc j z) of
             None \<Rightarrow> (Inl (EText ''json''), w1)
           | Some x \<Rightarrow> (Inr x, w1)))"

definition dec_dialog_id :: "string dec" where "dec_dialog_id = dec_struct [(''dialogId'', dec_str)]"

definition open_dialog ::
  "string \<Rightarrow> string \<Rightarrow> string \<Rightarrow> form_section list \<Rightarrow> (string \<times> string) list option \<Rightarrow> pending_dialog option
    \<Rightarrow> plugin \<Rightarrow> plugin" where
  "open_dialog kind title submit sections vals handle sw =
     (case on_world (host_ask ''dialog.open'' (dialog_payload kind title submit sections vals) dec_dialog_id []) sw of
        (Inl e, sw1) \<Rightarrow> sw1
      | (Inr i, s, w) \<Rightarrow>
          (if i = [] then (s, w)
           else (case handle of None \<Rightarrow> (s, w) | Some p \<Rightarrow> (s\<lparr>svDialogs := (svDialogs s)(i \<mapsto> p)\<rparr>, w))))"

definition message_dialog :: "string \<Rightarrow> string \<Rightarrow> plugin \<Rightarrow> plugin" where
  "message_dialog title msg = open_dialog ''detail'' title [] message_form (Some [(''message'', msg)]) None"

definition refused_title :: string where "refused_title = ''Docker refused this''"

text \<open>
  \<open>DialogSubmitted\<close> takes the entry and starts the work on a goroutine; \<open>DialogCancelled\<close> only takes it.
\<close>

definition dialog_submitted :: "string \<Rightarrow> (string \<times> string) list \<Rightarrow> service \<Rightarrow> service" where
  "dialog_submitted i vals s =
     (let s1 = s\<lparr>svDialogs := (svDialogs s)(i := None)\<rparr> in
      case svDialogs s i of None \<Rightarrow> s1 | Some p \<Rightarrow> spawn (TAnswer p vals) s1)"

definition dialog_cancelled :: "string \<Rightarrow> service \<Rightarrow> service" where
  "dialog_cancelled i s = s\<lparr>svDialogs := (svDialogs s)(i := None)\<rparr>"

subsection \<open>Names\<close>

text \<open>The use case's own \<open>shortID\<close>.\<close>

definition short_name :: "string \<Rightarrow> string" where
  "short_name i = (if length i > 12 then take 12 i else i)"

definition container_name :: "nat \<Rightarrow> string \<Rightarrow> plugin \<Rightarrow> string \<times> plugin" where
  "container_name r i sw =
     (case control_of r sw of
        (Inl e, sw1) \<Rightarrow> (short_name i, sw1)
      | (Inr d, sw1) \<Rightarrow>
          (case on_world (inspect_container d i) sw1 of
             (Inl e, sw2) \<Rightarrow> (short_name i, sw2)
           | (Inr detail, sw2) \<Rightarrow> (trim_prefix (cdName detail) ''/'', sw2)))"

definition target_label :: "nat \<Rightarrow> target \<Rightarrow> plugin \<Rightarrow> string \<times> plugin" where
  "target_label r t sw =
     (if tgKind t = KindContainer then container_name r (tgId t) sw
      else (short_name (trim_prefix (tgId t) ''sha256:''), sw))"

subsection \<open>Closing down\<close>

definition stop_list :: "surface \<Rightarrow> closing list" where
  "stop_list sur =
     [CancelContext (sfContext sur),
      (if sfHijacked sur then CloseStream (dkStream (sfClient sur)) else CloseBody (dkStream (sfClient sur))),
      CloseStream (dkStream (sfClient sur))]"

text \<open>
  One item. \<open>CloseBody\<close> is the \<open>Close\<close> of a log's body: it waits for a reader in the middle of a read and then
  for the rest of the body, so it comes back when the log has ended, and does nothing else.
\<close>

fun close_one :: "closing \<Rightarrow> plugin \<Rightarrow> plugin" where
  "close_one (CancelContext ctx) sw = (cancel ctx (fst sw), snd sw)"
| "close_one (CloseBody n) sw = sw"
| "close_one (CloseStream n) sw = (fst sw, happen (EvCloseStream n) (snd sw))"
| "close_one (CloseConn r) sw = on_tree r (\<lambda>(c, w). conn_close c w) sw"

definition cancel_watcher :: "nat option \<Rightarrow> service \<Rightarrow> service" where
  "cancel_watcher ctx s = (case ctx of None \<Rightarrow> s | Some n \<Rightarrow> cancel n s)"

definition forget :: "string \<Rightarrow> plugin \<Rightarrow> plugin" where
  "forget session sw =
     (case sw of (s, w) \<Rightarrow>
      (let s1 = s\<lparr>svConns := (svConns s)(session := None), svWatchers := (svWatchers s)(session := None)\<rparr>;
           s2 = cancel_watcher (svWatchers s session) s1
       in case svConns s session of
            None \<Rightarrow> (s2, w)
          | Some r \<Rightarrow> close_one (CloseConn r) (s2, w)))"

text \<open>
  \<open>Shutdown\<close>: the maps are emptied, the watchers cancelled, and then the tabs and the connections are stopped,
  one after another, each kind in the order its map was walked.
\<close>

definition walk_map :: "world \<Rightarrow> (string \<Rightarrow> 'v option) \<Rightarrow> 'v list" where
  "walk_map w m = List.map_filter m (wWalk w (wTrace w) (dom m))"

definition shutdown_list :: "plugin \<Rightarrow> closing list" where
  "shutdown_list sw =
     concat (map stop_list (walk_map (snd sw) (svSurfaces (fst sw)))) @ map CloseConn (walk_map (snd sw) (svConns (fst sw)))"

definition stop_watchers :: "service \<Rightarrow> service" where
  "stop_watchers s = s\<lparr>svWatchers := (\<lambda>_. None), svCancelled := svCancelled s \<union> ran (svWatchers s)\<rparr>"

definition shutdown_clear :: "service \<Rightarrow> service" where
  "shutdown_clear s = stop_watchers (s\<lparr>svConns := (\<lambda>_. None), svSurfaces := (\<lambda>_. None)\<rparr>)"

definition shutdown :: "plugin \<Rightarrow> plugin" where
  "shutdown sw = fold close_one (shutdown_list sw) (shutdown_clear (fst sw), snd sw)"

end
