(* ===== verification/Dialogs.thy ===== *)
theory Dialogs
  imports Service
begin

text \<open>
  The forms of \<open>internal/usecase/dialogs.go\<close> and what their answers do, with the batches of \<open>service.go\<close> that the
  removals share: one operation over every target, everything refused collected, one report.
\<close>

definition dash :: string where "dash = [CHR '' '', CHR 0xE2, CHR 0x80, CHR 0x94, CHR '' '']"
definition middle_dot :: string where "middle_dot = [CHR '' '', CHR 0xC2, CHR 0xB7, CHR '' '']"

subsection \<open>Batches\<close>

text \<open>A failure always carries an error, so the test for \<open>nil\<close> has no counterpart.\<close>

definition report_line :: "failure \<Rightarrow> string" where
  "report_line f =
     (if flLabel f = [] then user_message (Some (flError f))
      else flLabel f @ dash @ user_message (Some (flError f)))"

definition report_lines :: "failure list \<Rightarrow> string list" where
  "report_lines fs = map report_line (filter (\<lambda>f. \<not> is_not_found (flError f)) fs)"

definition report_batch :: "failure list \<Rightarrow> plugin \<Rightarrow> plugin" where
  "report_batch fs sw =
     (if report_lines fs = [] then sw
      else message_dialog refused_title (join [CHR 0x0A] (report_lines fs)) sw)"

type_synonym target_op = "docker \<Rightarrow> string \<Rightarrow> world \<Rightarrow> go_error option \<times> world"

text \<open>The loop of \<open>runOverTargets\<close> and of \<open>removeEach\<close>.\<close>

fun run_each :: "target_op \<Rightarrow> nat \<Rightarrow> docker \<Rightarrow> target list \<Rightarrow> plugin \<Rightarrow> failure list \<times> plugin" where
  "run_each f r d [] sw = ([], sw)"
| "run_each f r d (t # ts) sw =
     (case on_world (f d (tgId t)) sw of
        (None, sw1) \<Rightarrow> run_each f r d ts sw1
      | (Some e, sw1) \<Rightarrow>
          (case target_label r t sw1 of
             (label, sw2) \<Rightarrow>
               (case run_each f r d ts sw2 of (fs, sw3) \<Rightarrow> (\<lparr>flLabel = label, flError = e\<rparr> # fs, sw3))))"

definition remove_each :: "target_op \<Rightarrow> nat \<Rightarrow> target list \<Rightarrow> plugin \<Rightarrow> go_error option \<times> plugin" where
  "remove_each f r ts sw =
     (case control_of r sw of
        (Inl e, sw1) \<Rightarrow> (Some e, sw1)
      | (Inr d, sw1) \<Rightarrow>
          (case run_each f r d ts sw1 of
             (fs, sw2) \<Rightarrow> (None, report_batch fs (on_tree r refresh_open sw2))))"

subsection \<open>Inspect\<close>

definition inspect_dialog :: "nat \<Rightarrow> target \<Rightarrow> plugin \<Rightarrow> plugin" where
  "inspect_dialog r t sw =
     (case control_of r sw of
        (Inl e, sw1) \<Rightarrow> message_dialog ''Inspect unavailable'' (user_message (Some e)) sw1
      | (Inr d, sw1) \<Rightarrow>
          (case on_world (inspect_raw d (tgKind t) (tgId t)) sw1 of
             (Inl e, sw2) \<Rightarrow> message_dialog ''Inspect unavailable'' (user_message (Some e)) sw2
           | (Inr raw, sw2) \<Rightarrow>
               open_dialog ''detail'' (''Inspect'' @ middle_dot @ short_name (tgId t)) [] inspect_form
                 (Some [(''summary'', summarize raw), (''raw'', pretty_json raw)]) None sw2))"

subsection \<open>The questions\<close>

definition create_volume_dialog :: "nat \<Rightarrow> plugin \<Rightarrow> plugin" where
  "create_volume_dialog r = open_dialog ''form'' ''Create volume'' ''Create'' volume_form None
     (Some \<lparr>pdConn = r, pdWork = CreateVolume\<rparr>)"

definition create_network_dialog :: "nat \<Rightarrow> plugin \<Rightarrow> plugin" where
  "create_network_dialog r = open_dialog ''form'' ''Create network'' ''Create'' network_form (Some [(''driver'', ''bridge'')])
     (Some \<lparr>pdConn = r, pdWork = CreateNetwork\<rparr>)"

definition remove_dialog :: "string \<Rightarrow> form_section list \<Rightarrow> nat \<Rightarrow> dialog_work \<Rightarrow> plugin \<Rightarrow> plugin" where
  "remove_dialog title form r work = open_dialog ''form'' title ''Remove'' form None (Some \<lparr>pdConn = r, pdWork = work\<rparr>)"

definition count_title :: "target list \<Rightarrow> string \<Rightarrow> string" where
  "count_title ts what = ''Remove '' @ dec_nat (length ts) @ '' '' @ what"

definition remove_container_dialog :: "nat \<Rightarrow> target list \<Rightarrow> plugin \<Rightarrow> plugin" where
  "remove_container_dialog r ts sw =
     (case (if length ts = 1 then (case container_name r (tgId (ts ! 0)) sw of (name, sw1) \<Rightarrow> (''Remove '' @ name, sw1))
            else (count_title ts ''containers'', sw)) of
        (title, sw1) \<Rightarrow> remove_dialog title remove_container_form r (RemoveContainers ts) sw1)"

definition remove_image_dialog :: "nat \<Rightarrow> target list \<Rightarrow> plugin \<Rightarrow> plugin" where
  "remove_image_dialog r ts =
     remove_dialog (if length ts > 1 then count_title ts ''images'' else ''Remove image'') remove_image_form r (RemoveImages ts)"

definition remove_volume_dialog :: "nat \<Rightarrow> target list \<Rightarrow> plugin \<Rightarrow> plugin" where
  "remove_volume_dialog r ts =
     remove_dialog (if length ts = 1 then ''Remove volume '' @ tgId (ts ! 0) else count_title ts ''volumes'')
       remove_volume_form r (RemoveVolumes ts)"

subsection \<open>The answers\<close>

text \<open>A creation: the request, and the tree again if it was accepted.\<close>

definition create_one :: "(docker \<Rightarrow> world \<Rightarrow> go_error option \<times> world) \<Rightarrow> nat \<Rightarrow> plugin \<Rightarrow> go_error option \<times> plugin" where
  "create_one f r sw =
     (case control_of r sw of
        (Inl e, sw1) \<Rightarrow> (Some e, sw1)
      | (Inr d, sw1) \<Rightarrow>
          (case on_world (f d) sw1 of
             (Some e, sw2) \<Rightarrow> (Some e, sw2)
           | (None, sw2) \<Rightarrow> (None, on_tree r refresh_open sw2)))"

text \<open>The closure of a dialog.\<close>

definition dialog_handle :: "pending_dialog \<Rightarrow> (string \<times> string) list \<Rightarrow> plugin \<Rightarrow> go_error option \<times> plugin" where
  "dialog_handle p vals =
     (case pdWork p of
        CreateVolume \<Rightarrow> create_one (\<lambda>d. create_volume d (volume_answer vals)) (pdConn p)
      | CreateNetwork \<Rightarrow> create_one (\<lambda>d. create_network d (network_answer vals)) (pdConn p)
      | RemoveContainers ts \<Rightarrow>
          remove_each (\<lambda>d i. remove_container d i (checked ''force'' vals) (checked ''volumes'' vals)) (pdConn p) ts
      | RemoveImages ts \<Rightarrow>
          remove_each (\<lambda>d i. remove_image d i (checked ''force'' vals) (checked ''noprune'' vals)) (pdConn p) ts
      | RemoveVolumes ts \<Rightarrow>
          remove_each (\<lambda>d i. remove_volume d i (checked ''force'' vals)) (pdConn p) ts)"

definition answer_dialog :: "pending_dialog \<Rightarrow> (string \<times> string) list \<Rightarrow> plugin \<Rightarrow> plugin" where
  "answer_dialog p vals sw =
     (case dialog_handle p vals sw of
        (None, sw1) \<Rightarrow> sw1
      | (Some e, sw1) \<Rightarrow> message_dialog refused_title (user_message (Some e)) sw1)"

end
