(* ===== verification/Surfaces.thy ===== *)
theory Surfaces
  imports Dialogs
begin

text \<open>
  Log tabs and consoles (\<open>internal/usecase/surfaces.go\<close>): opening one, with what every failure on the way closes
  and says, the pumps that feed them, one round at a time, and what the host reports of them.
\<close>

subsection \<open>The host's tabs\<close>

definition open_params :: "string \<Rightarrow> string \<Rightarrow> string \<Rightarrow> json" where
  "open_params session kind title =
     JObj [(''kind'', json_str kind), (''parentSessionId'', json_str session), (''title'', json_str title)]"

definition dec_surface_id :: "string dec" where "dec_surface_id = dec_struct [(''surfaceId'', dec_str)]"

definition open_surface :: "string \<Rightarrow> string \<Rightarrow> string \<Rightarrow> world \<Rightarrow> (go_error + string) \<times> world" where
  "open_surface session kind title =
     host_ask ''surface.open'' (open_params session kind title) dec_surface_id []"

definition write_payload :: "string \<Rightarrow> string \<Rightarrow> string \<Rightarrow> json" where
  "write_payload sid d stream =
     JObj [(''dataBase64'', json_str (base64_std d)), (''stream'', json_str stream), (''surfaceId'', json_str sid)]"

definition write_surface :: "string \<Rightarrow> string \<Rightarrow> string \<Rightarrow> world \<Rightarrow> go_error option \<times> world" where
  "write_surface sid d stream w =
     (case host_call ''surface.write'' (write_payload sid d stream) w of
        (Inl e, w1) \<Rightarrow> (Some e, w1)
      | (Inr _, w1) \<Rightarrow> (None, w1))"

definition ready_payload :: "string \<Rightarrow> json" where
  "ready_payload sid = JObj [(''state'', json_str ''ready''), (''surfaceId'', json_str sid)]"

definition error_payload :: "string \<Rightarrow> string \<Rightarrow> json" where
  "error_payload sid msg =
     JObj [(''error'', json_str msg), (''state'', json_str ''error''), (''surfaceId'', json_str sid)]"

definition surface_ready :: "string \<Rightarrow> world \<Rightarrow> world" where
  "surface_ready sid w = snd (host_call ''surface.updateState'' (ready_payload sid) w)"

definition surface_error :: "string \<Rightarrow> string \<Rightarrow> world \<Rightarrow> world" where
  "surface_error sid msg w = snd (host_call ''surface.updateState'' (error_payload sid msg) w)"

definition tab_title :: "string \<Rightarrow> string \<Rightarrow> string" where
  "tab_title what name = what @ middle_dot @ name"

definition track_surface :: "string \<Rightarrow> surface \<Rightarrow> service \<Rightarrow> service" where
  "track_surface sid sur s = s\<lparr>svSurfaces := (svSurfaces s)(sid \<mapsto> sur)\<rparr>"

definition console_input :: "string \<Rightarrow> nat \<Rightarrow> service \<Rightarrow> service" where
  "console_input sid n s = s\<lparr>svInput := (svInput s)(sid \<mapsto> n)\<rparr>"

definition close_dialog :: "docker \<Rightarrow> string \<Rightarrow> string \<Rightarrow> plugin \<Rightarrow> plugin" where
  "close_dialog d title msg sw = message_dialog title msg (fst sw, close_client d (snd sw))"

subsection \<open>Logs\<close>

definition logs_title :: string where "logs_title = ''Logs unavailable''"

text \<open>The tab is tracked, shown as ready, and its pump started.\<close>

definition start_logs :: "nat \<Rightarrow> docker \<Rightarrow> string \<Rightarrow> string \<Rightarrow> plugin \<Rightarrow> plugin" where
  "start_logs r d sid body sw =
     (case sw of (s, w) \<Rightarrow>
      (let ctx = svContexts s;
           s1 = track_surface sid \<lparr>sfContext = ctx, sfExec = [], sfClient = d, sfConn = r, sfHijacked = False\<rparr>
             (s\<lparr>svContexts := ctx + 1\<rparr>)
       in (spawn (TLogPump ctx sid (bytes_of body)) s1, surface_ready sid w)))"

definition log_surface :: "nat \<Rightarrow> string \<Rightarrow> plugin \<Rightarrow> plugin" where
  "log_surface r i sw =
     (case container_name r i sw of (name, sw1) \<Rightarrow>
      (let settings = settings_for name (conn_at r (fst sw1)) in
       case on_conn r open_stream sw1 of
         (Inl e, sw2) \<Rightarrow> message_dialog logs_title (user_message (Some e)) sw2
       | (Inr d, sw2) \<Rightarrow>
           (case on_world (open_surface (cxSession (conn_at r (fst sw2))) ''log'' (tab_title ''Logs'' name)) sw2 of
              (Inl e, sw3) \<Rightarrow> close_dialog d logs_title (surface_failure (Some e)) sw3
            | (Inr sid, sw3) \<Rightarrow>
                (case on_world (container_logs d i
                    \<lparr>loFollow = True, loTimestamps = rsLogStamps settings, loTail = rsLogTail settings\<rparr>) sw3 of
                   (Inl e, s, w) \<Rightarrow> (s, close_client d (surface_error sid (user_message (Some e)) w))
                 | (Inr body, sw4) \<Rightarrow> start_logs r d sid body sw4))))"

text \<open>
  One round of \<open>pumpLogs\<close>: what has arrived of the rest of the stream, and the error that reading more meets.
\<close>

definition log_stream_name :: "demux_frame \<Rightarrow> string" where
  "log_stream_name f = (if dStream f = StreamStderr then ''stderr'' else ''stdout'')"

definition log_round :: "nat \<Rightarrow> string \<Rightarrow> reader \<Rightarrow> plugin \<Rightarrow> reader option \<times> plugin" where
  "log_round ctx sid rd sw =
     (case sw of (s, w) \<Rightarrow>
      if ctx \<in> svCancelled s then (None, s, w)
      else
        (case demux rd of
           (Inl e, rd1) \<Rightarrow> (None, s, surface_error sid ''The log stream ended.'' w)
         | (Inr f, rd1) \<Rightarrow>
             (case write_surface sid (text_of (dData f)) (log_stream_name f) w of
                (Some e, w1) \<Rightarrow> (None, s, w1)
              | (None, w1) \<Rightarrow> (Some rd1, s, w1))))"

subsection \<open>Consoles\<close>

definition console_title :: string where "console_title = ''Console unavailable''"

definition console_shell :: "resource_settings \<Rightarrow> string" where
  "console_shell r = (if trim_space (rsShell r) = [] then rsShell default_settings else rsShell r)"

definition console_exec :: "resource_settings \<Rightarrow> exec_config" where
  "console_exec r = \<lparr>ecCmd = [console_shell r], ecUser = rsUser r, ecWorkingDir = rsWorkingDir r,
     ecPrivileged = rsPrivileged r, ecTty = True, ecAttachStdin = True, ecAttachStdout = True, ecAttachStderr = True\<rparr>"

definition start_console :: "nat \<Rightarrow> docker \<Rightarrow> string \<Rightarrow> string \<Rightarrow> plugin \<Rightarrow> plugin" where
  "start_console r d exec sid sw =
     (case sw of (s, w) \<Rightarrow>
      (let ctx = svContexts s;
           s1 = track_surface sid \<lparr>sfContext = ctx, sfExec = exec, sfClient = d, sfConn = r, sfHijacked = True\<rparr>
             (s\<lparr>svContexts := ctx + 1\<rparr>)
       in (console_input sid (dkStream d) (spawn (TConsolePump ctx sid) s1), surface_ready sid w)))"

definition console_surface :: "nat \<Rightarrow> string \<Rightarrow> plugin \<Rightarrow> plugin" where
  "console_surface r i sw =
     (case container_name r i sw of (name, sw1) \<Rightarrow>
      (let settings = settings_for name (conn_at r (fst sw1)) in
       case on_conn r open_stream sw1 of
         (Inl e, sw2) \<Rightarrow> message_dialog console_title (user_message (Some e)) sw2
       | (Inr d, sw2) \<Rightarrow>
           (case on_world (create_exec d i (console_exec settings)) sw2 of
              (Inl e, sw3) \<Rightarrow> close_dialog d console_title (user_message (Some e)) sw3
            | (Inr exec, sw3) \<Rightarrow>
                (case on_world (start_exec d exec True) sw3 of
                   (Some e, sw4) \<Rightarrow> close_dialog d console_title (user_message (Some e)) sw4
                 | (None, sw4) \<Rightarrow>
                     (case on_world (open_surface (cxSession (conn_at r (fst sw4))) ''terminal''
                         (tab_title ''Console'' name)) sw4 of
                        (Inl e, s, w) \<Rightarrow> close_dialog d console_title (surface_failure (Some e)) (s, close_client d w)
                      | (Inr sid, sw5) \<Rightarrow> start_console r d exec sid sw5)))))"

text \<open>
  One round of \<open>pumpConsole\<close>: the bytes a read of at most 32 KiB gave, and whether it gave an error with them.
  The answer is whether another round follows.
\<close>

definition console_round :: "nat \<Rightarrow> string \<Rightarrow> string \<Rightarrow> bool \<Rightarrow> plugin \<Rightarrow> bool \<times> plugin" where
  "console_round ctx sid chunk failed sw =
     (case sw of (s, w) \<Rightarrow>
      if ctx \<in> svCancelled s then (False, s, w)
      else
        (case (if chunk = [] then (None, w) else write_surface sid chunk ''stdout'' w) of
           (Some e, w1) \<Rightarrow> (False, s, w1)
         | (None, w1) \<Rightarrow> if failed then (False, s, surface_error sid ''The console session ended.'' w1) else (True, s, w1)))"

subsection \<open>What the host reports\<close>

definition surface_input :: "string \<Rightarrow> string \<Rightarrow> plugin \<Rightarrow> plugin" where
  "surface_input sid d sw =
     (case sw of (s, w) \<Rightarrow>
        (case svInput s sid of None \<Rightarrow> (s, w) | Some n \<Rightarrow> (s, happen (EvSend n d) w)))"

definition surface_resize :: "string \<Rightarrow> int \<Rightarrow> int \<Rightarrow> plugin \<Rightarrow> plugin" where
  "surface_resize sid cols rows sw =
     (case svSurfaces (fst sw) sid of
        None \<Rightarrow> sw
      | Some sur \<Rightarrow>
          (if sfExec sur = [] then sw
           else
             (case control_of (sfConn sur) sw of
                (Inl e, sw1) \<Rightarrow> sw1
              | (Inr d, sw1) \<Rightarrow> snd (on_world (resize_exec d (sfExec sur) cols rows) sw1))))"

definition surface_closed :: "string \<Rightarrow> service \<Rightarrow> service" where
  "surface_closed sid s =
     (let s1 = s\<lparr>svSurfaces := (svSurfaces s)(sid := None), svInput := (svInput s)(sid := None)\<rparr> in
      case svSurfaces s sid of None \<Rightarrow> s1 | Some sur \<Rightarrow> spawn (TClose (stop_list sur)) s1)"

end
