(* ===== verification/Actions.thy ===== *)
theory Actions
  imports Surfaces
begin

text \<open>
  Running an action over a selection (\<open>internal/usecase/service.go\<close>): the selection is resolved once, and is one
  operation. An action that needs an answer asks once, a tab or an inspection is of the first target, and
  everything else runs over all of them and reports once.
\<close>

definition targets_of :: "string list \<Rightarrow> connection \<Rightarrow> target list" where
  "targets_of ids c =
     List.map_filter (\<lambda>n. case resolve n c of Inr (k, i) \<Rightarrow> Some \<lparr>tgKind = k, tgId = i\<rparr> | Inl _ \<Rightarrow> None) ids"

text \<open>The immediate actions; any other id does nothing.\<close>

definition immediate_op :: "string \<Rightarrow> target_op option" where
  "immediate_op a =
     (if a = ActionContainerStart then Some start_container
      else if a = ActionContainerStop then Some stop_container
      else if a = ActionContainerRestart then Some restart_container
      else if a = ActionContainerKill then Some kill_container
      else if a = ActionContainerPause then Some pause_container
      else if a = ActionContainerResume then Some unpause_container
      else if a = ActionNetworkRemove then Some remove_network
      else None)"

definition run_over_targets :: "nat \<Rightarrow> target list \<Rightarrow> string \<Rightarrow> plugin \<Rightarrow> failure list \<times> plugin" where
  "run_over_targets r ts a sw =
     (case control_of r sw of
        (Inl e, sw1) \<Rightarrow> ([\<lparr>flLabel = [], flError = e\<rparr>], sw1)
      | (Inr d, sw1) \<Rightarrow>
          (case immediate_op a of None \<Rightarrow> ([], sw1) | Some f \<Rightarrow> run_each f r d ts sw1))"

definition inspect_actions :: "string set" where
  "inspect_actions = {ActionContainerInspect, ActionImageInspect, ActionVolumeInspect, ActionNetworkInspect}"

definition run_action :: "nat \<Rightarrow> string list \<Rightarrow> string \<Rightarrow> plugin \<Rightarrow> plugin" where
  "run_action r ids a sw =
     (if a = ActionVolumeCreate then create_volume_dialog r sw
      else if a = ActionNetworkCreate then create_network_dialog r sw
      else
        (let ts = targets_of ids (conn_at r (fst sw)) in
         if ts = [] then sw
         else if a = ActionContainerRemove then remove_container_dialog r ts sw
         else if a = ActionImageRemove then remove_image_dialog r ts sw
         else if a = ActionVolumeRemove then remove_volume_dialog r ts sw
         else if a = ActionContainerLogs then log_surface r (tgId (ts ! 0)) sw
         else if a = ActionContainerConsole then console_surface r (tgId (ts ! 0)) sw
         else if a \<in> inspect_actions then inspect_dialog r (ts ! 0) sw
         else
           (case run_over_targets r ts a sw of
              (fs, sw1) \<Rightarrow> on_tree r refresh_open (report_batch fs sw1))))"

end
