(* ===== verification/Details.thy ===== *)
theory Details
  imports Actions
begin

text \<open>
  The panel beside the tree (\<open>internal/usecase/details.go\<close>): the settings of a container, which the user edits,
  and a summary of everything else.
\<close>

definition wrap64 :: "int \<Rightarrow> int" where
  "wrap64 n = sint (word_of_int n :: 64 word)"

definition summary_details :: "string \<Rightarrow> string \<Rightarrow> node_details" where
  "summary_details label summary =
     \<lparr>ntSections = summary_form label, ntValues = [(''summary'', summary)], ntEditable = False\<rparr>"

subsection \<open>Groups\<close>

text \<open>The sizes are added as 64-bit integers.\<close>

definition total_size :: "image list \<Rightarrow> int" where
  "total_size imgs = fold (\<lambda>i n. wrap64 (n + imSize i)) imgs 0"

definition containers_summary :: "container list \<Rightarrow> string" where
  "containers_summary cs =
     dec_nat (length cs) @ '' containers, ''
       @ dec_nat (length (filter (\<lambda>c. equal_fold (ctState c) ''running'') cs)) @ '' running''"

definition images_summary :: "image list \<Rightarrow> string" where
  "images_summary imgs = dec_nat (length imgs) @ '' images, '' @ human_bytes (total_size imgs) @ '' on disk''"

text \<open>What a list says, or the label where it cannot be had.\<close>

definition list_summary ::
  "string \<Rightarrow> ('a list \<Rightarrow> string) \<Rightarrow> (world \<Rightarrow> (go_error + 'a list) \<times> world) \<Rightarrow> plugin \<Rightarrow> string \<times> plugin" where
  "list_summary label say f sw =
     (case on_world f sw of (Inr xs, sw1) \<Rightarrow> (say xs, sw1) | (Inl _, sw1) \<Rightarrow> (label, sw1))"

definition version_summary :: "string \<Rightarrow> nat \<Rightarrow> docker \<Rightarrow> plugin \<Rightarrow> string \<times> plugin" where
  "version_summary label r d sw =
     (case on_conn r (\<lambda>c w. case negotiate d w of (res, d1, w1) \<Rightarrow> (res, store_client d1 c, w1)) sw of
        (Inr version, sw1) \<Rightarrow> (''Docker '' @ version, sw1)
      | (Inl _, sw1) \<Rightarrow> (label, sw1))"

definition group_summary :: "string \<Rightarrow> string \<Rightarrow> nat \<Rightarrow> docker \<Rightarrow> plugin \<Rightarrow> string \<times> plugin" where
  "group_summary node label r d =
     (if node = NodeContainers then list_summary label containers_summary (list_containers d)
      else if node = NodeImages then list_summary label images_summary (list_images d)
      else if node = NodeVolumes then list_summary label (\<lambda>vs. dec_nat (length vs) @ '' volumes'') (list_volumes d)
      else if node = NodeNetworks then list_summary label (\<lambda>ns. dec_nat (length ns) @ '' networks'') (list_networks d)
      else version_summary label r d)"

definition group_details :: "nat \<Rightarrow> string \<Rightarrow> plugin \<Rightarrow> node_details \<times> plugin" where
  "group_details r node sw =
     (let label = (if group_label node = [] then ''Docker'' else group_label node) in
      case (case control_of r sw of
              (Inl e, sw1) \<Rightarrow> (label, sw1)
            | (Inr d, sw1) \<Rightarrow> group_summary node label r d sw1) of
        (summary, sw1) \<Rightarrow> (summary_details label summary, sw1))"

subsection \<open>Resources\<close>

definition capitalized :: "string \<Rightarrow> string" where
  "capitalized k = concat (map upper_byte (take 1 k)) @ drop 1 k"

definition read_only_details :: "nat \<Rightarrow> kind \<Rightarrow> string \<Rightarrow> plugin \<Rightarrow> (go_error + node_details) \<times> plugin" where
  "read_only_details r k i sw =
     (case control_of r sw of
        (Inl e, sw1) \<Rightarrow> (Inl e, sw1)
      | (Inr d, sw1) \<Rightarrow>
          (case on_world (inspect_raw d k i) sw1 of
             (Inl e, sw2) \<Rightarrow> (Inl e, sw2)
           | (Inr raw, sw2) \<Rightarrow> (Inr (summary_details (capitalized k) (summarize raw)), sw2)))"

definition bool_text :: "bool \<Rightarrow> string" where
  "bool_text b = (if b then ''true'' else ''false'')"

definition settings_values :: "resource_settings \<Rightarrow> (string \<times> string) list" where
  "settings_values r =
     [(''shell'', rsShell r), (''user'', rsUser r), (''workingDir'', rsWorkingDir r),
      (''privileged'', bool_text (rsPrivileged r)), (''logTail'', dec_int (rsLogTail r)),
      (''logStamps'', bool_text (rsLogStamps r))]"

definition container_details :: "resource_settings \<Rightarrow> node_details" where
  "container_details r = \<lparr>ntSections = container_form, ntValues = settings_values r, ntEditable = True\<rparr>"

definition describe_node :: "string \<Rightarrow> string \<Rightarrow> plugin \<Rightarrow> (go_error + node_details) \<times> plugin" where
  "describe_node session node sw =
     (let (r, s1) = connection_for session (fst sw); sw1 = (s1, snd sw) in
      if class_of node \<in> {ClassConnectionRoot, ClassDockerRoot, ClassGroup} then
        (case group_details r node sw1 of (d, sw2) \<Rightarrow> (Inr d, sw2))
      else if class_of node = ClassUnknown then (Inl ErrUnknownNode, sw1)
      else
        (case resolve node (conn_at r s1) of
           Inl e \<Rightarrow> (Inl ErrUnknownNode, sw1)
         | Inr (k, i) \<Rightarrow>
             (if k \<noteq> KindContainer then read_only_details r k i sw1
              else (case container_name r i sw1 of
                      (name, sw2) \<Rightarrow> (Inr (container_details (settings_for name (conn_at r (fst sw2)))), sw2)))))"

subsection \<open>Saving the panel\<close>

text \<open>\<open>strconv.Atoi\<close>\<close>

definition go_atoi :: "string \<Rightarrow> int option" where
  "go_atoi s =
     (let neg = has_prefix s ''-'';
          ds = (if neg \<or> has_prefix s ''+'' then drop 1 s else s);
          n = (if neg then - int (digits_val ds) else int (digits_val ds))
      in if digits1 ds \<and> - (2 ^ 63) \<le> n \<and> n < 2 ^ 63 then Some n else None)"

definition parse_tail :: "string \<Rightarrow> int \<Rightarrow> int" where
  "parse_tail raw fallback =
     (let otherwise = (if fallback > 0 then fallback else rsLogTail default_settings) in
      case go_atoi (trim_space raw) of
        None \<Rightarrow> otherwise
      | Some n \<Rightarrow> if n < 0 then otherwise else if n > 100000 then 100000 else n)"

definition updated_settings :: "resource_settings \<Rightarrow> (string \<times> string) list \<Rightarrow> resource_settings" where
  "updated_settings current vals =
     (let shell = trim_space (value_of ''shell'' vals) in
      \<lparr>rsShell = (if shell = [] then rsShell default_settings else shell),
       rsUser = trim_space (value_of ''user'' vals),
       rsWorkingDir = trim_space (value_of ''workingDir'' vals),
       rsPrivileged = checked ''privileged'' vals,
       rsLogTail = parse_tail (value_of ''logTail'' vals) (rsLogTail current),
       rsLogStamps = checked ''logStamps'' vals\<rparr>)"

definition save_settings :: "string \<Rightarrow> settings_map \<Rightarrow> plugin \<Rightarrow> go_error option \<times> plugin" where
  "save_settings session m sw =
     (case store_save session m (svStore (fst sw)) (snd sw) of (e, st, w) \<Rightarrow> (e, (fst sw)\<lparr>svStore := st\<rparr>, w))"

definition apply_details :: "string \<Rightarrow> string \<Rightarrow> (string \<times> string) list \<Rightarrow> plugin \<Rightarrow> go_error option \<times> plugin" where
  "apply_details session node vals sw =
     (let (r, s1) = connection_for session (fst sw); sw1 = (s1, snd sw) in
      if class_of node \<noteq> ClassInstance then (None, sw1)
      else
        (case resolve node (conn_at r s1) of
           Inl e \<Rightarrow> (Some ErrUnknownNode, sw1)
         | Inr (k, i) \<Rightarrow>
             (if k \<noteq> KindContainer then (None, sw1)
              else
                (case container_name r i sw1 of
                   (name, s2, w2) \<Rightarrow>
                     (let c = conn_at r s2;
                          (all', c1) = put_settings name (updated_settings (settings_for name c) vals) c
                      in save_settings session all' (put_conn r c1 s2, w2))))))"

end
