(* ===== verification/Channel.thy ===== *)
theory Channel
  imports Prelude
begin

text \<open>
  One binary channel as a stream (\<open>internal/infra/chanbus/channel.go\<close>). The record holds the fields
  the mutex guards; every operation is its critical section. A wait on the condition variable is a
  result of its own (nothing changes and the caller tries again when woken), so any interleaving of
  readers, writers and the frame reader is a sequence of these operations.
\<close>

definition initialCredit :: u32 where "initialCredit = 4"
definition MaxChannelFrame :: nat where "MaxChannelFrame = 2 ^ 20"

datatype chan_err = ErrChannelClosed | ErrChannelClosedFor string | ErrTransport string | ErrEOF

record channel =
  ch_id :: u32
  inbound :: "bytes list"
  pending :: bytes
  credit :: u32
  closed :: bool
  closeErr :: "chan_err option"
  consumed :: u32

definition new_channel :: "u32 \<Rightarrow> u32 \<Rightarrow> channel" where
  "new_channel i granted = \<lparr>ch_id = i, inbound = [], pending = [], credit = granted, closed = False,
     closeErr = None, consumed = 0\<rparr>"

definition deliver :: "bytes \<Rightarrow> channel \<Rightarrow> channel" where
  "deliver payload c = (if closed c then c else c\<lparr>inbound := inbound c @ [payload]\<rparr>)"

definition add_credit :: "u32 \<Rightarrow> channel \<Rightarrow> channel" where
  "add_credit n c = c\<lparr>credit := credit c + n\<rparr>"

definition close_remote :: "string \<Rightarrow> channel \<Rightarrow> channel" where
  "close_remote reason c =
     (if closed c then c
      else c\<lparr>closed := True,
             closeErr := Some (if reason \<noteq> [] then ErrChannelClosedFor reason else ErrChannelClosed)\<rparr>)"

text \<open>
  \<open>Read\<close> into a buffer of \<open>k\<close> bytes: \<open>None\<close> is the wait; otherwise the bytes or the error, the
  credit to return to the host (0 for none), and the new state.
\<close>

definition chan_next :: "channel \<Rightarrow> channel" where
  "chan_next c =
     (if pending c = [] then c\<lparr>pending := hd (inbound c), inbound := tl (inbound c)\<rparr> else c)"

definition chan_read :: "nat \<Rightarrow> channel \<Rightarrow> ((chan_err + bytes) \<times> u32 \<times> channel) option" where
  "chan_read k c =
     (if pending c = [] \<and> inbound c = [] \<and> \<not> closed c then None
      else if pending c = [] \<and> inbound c = [] then
        Some (Inl (case closeErr c of None \<Rightarrow> ErrEOF | Some e \<Rightarrow> e), 0, c)
      else
        (let c1 = chan_next c;
             out = take k (pending c1);
             c2 = c1\<lparr>pending := drop k (pending c1)\<rparr>
         in if pending c2 = [] then
              (let c3 = c2\<lparr>consumed := consumed c2 + 1\<rparr> in
               if consumed c3 \<ge> initialCredit div 2 then
                 Some (Inr out, consumed c3, c3\<lparr>consumed := 0\<rparr>)
               else Some (Inr out, 0, c3))
            else Some (Inr out, 0, c2)))"

text \<open>\<open>awaitCredit\<close>: \<open>None\<close> is the wait, \<open>Inl\<close> the closed channel, \<open>Inr\<close> the window after spending one.\<close>

definition await_credit :: "channel \<Rightarrow> (chan_err + channel) option" where
  "await_credit c =
     (if credit c = 0 \<and> \<not> closed c then None
      else if closed c then Some (Inl (case closeErr c of Some e \<Rightarrow> e | None \<Rightarrow> ErrChannelClosed))
      else Some (Inr (c\<lparr>credit := credit c - 1\<rparr>)))"

text \<open>\<open>Close\<close>: the flag says whether the transport is told.\<close>

definition chan_close :: "channel \<Rightarrow> bool \<times> channel" where
  "chan_close c =
     (if closed c then (False, c) else (True, c\<lparr>closed := True, closeErr := Some ErrChannelClosed\<rparr>))"

text \<open>
  \<open>Write\<close>: the loop over the chunks of a buffer, from the byte it has come to, over any transport
  \<open>send\<close> with a state of its own. It ends with the bytes written, with an error and the bytes
  written before it, or waiting for credit with the bytes written so far.
\<close>

datatype write_result = WDone nat | WFailed nat chan_err | WBlocked nat

function chan_write ::
  "('w \<Rightarrow> u32 \<Rightarrow> bytes \<Rightarrow> chan_err option \<times> 'w) \<Rightarrow> bytes \<Rightarrow> nat \<Rightarrow> 'w \<Rightarrow> channel
     \<Rightarrow> write_result \<times> 'w \<times> channel" where
  "chan_write send p written w c =
     (if written < length p then
        (let chunk = take MaxChannelFrame (drop written p) in
         (case await_credit c of
            None \<Rightarrow> (WBlocked written, w, c)
          | Some (Inl e) \<Rightarrow> (WFailed written e, w, c)
          | Some (Inr c1) \<Rightarrow>
              (case send w (ch_id c) chunk of
                 (Some e, w1) \<Rightarrow> (WFailed written e, w1, c1)
               | (None, w1) \<Rightarrow> chan_write send p (written + length chunk) w1 c1)))
      else (WDone written, w, c))"
  by pat_completeness auto
termination
  by (relation "measure (\<lambda>(send, p, written, w, c). length p - written)")
     (auto simp: MaxChannelFrame_def)

declare chan_write.simps [simp del]

subsection \<open>Sequences of operations\<close>

text \<open>
  Every interleaving of the goroutines that share a channel is a list of operations; the outcome of
  each is recorded beside it. \<open>OpWrite\<close> is one turn of the write loop over a transport that accepts.
\<close>

datatype chan_op =
    OpDeliver bytes | OpCredit u32 | OpCloseRemote string | OpRead nat | OpWrite bytes | OpClose

datatype chan_out =
    OutAccepted | OutDropped | OutBlocked | OutRead bytes u32 | OutSent bytes | OutErr chan_err
  | OutClosed bool

fun chan_op_step :: "channel \<Rightarrow> chan_op \<Rightarrow> chan_out \<times> channel" where
  "chan_op_step c (OpDeliver b) = ((if closed c then OutDropped else OutAccepted), deliver b c)"
| "chan_op_step c (OpCredit n) = (OutAccepted, add_credit n c)"
| "chan_op_step c (OpCloseRemote why) = (OutAccepted, close_remote why c)"
| "chan_op_step c (OpRead k) =
     (case chan_read k c of
        None \<Rightarrow> (OutBlocked, c)
      | Some (Inl e, g, c') \<Rightarrow> (OutErr e, c')
      | Some (Inr b, g, c') \<Rightarrow> (OutRead b g, c'))"
| "chan_op_step c (OpWrite b) =
     (case await_credit c of
        None \<Rightarrow> (OutBlocked, c)
      | Some (Inl e) \<Rightarrow> (OutErr e, c)
      | Some (Inr c') \<Rightarrow> (OutSent b, c'))"
| "chan_op_step c OpClose = (let (told, c') = chan_close c in (OutClosed told, c'))"

fun chan_run :: "channel \<Rightarrow> chan_op list \<Rightarrow> (chan_op \<times> chan_out) list \<times> channel" where
  "chan_run c [] = ([], c)"
| "chan_run c (x # xs) =
     (let (out, c1) = chan_op_step c x; (tr, c2) = chan_run c1 xs in ((x, out) # tr, c2))"

subsection \<open>What a run adds up to\<close>

fun bytes_in :: "chan_op \<times> chan_out \<Rightarrow> bytes" where
  "bytes_in (OpDeliver b, OutAccepted) = b"
| "bytes_in _ = []"

fun bytes_out :: "chan_op \<times> chan_out \<Rightarrow> bytes" where
  "bytes_out (_, OutRead b _) = b"
| "bytes_out _ = []"

fun frames_in :: "chan_op \<times> chan_out \<Rightarrow> nat" where
  "frames_in (OpDeliver b, OutAccepted) = 1"
| "frames_in _ = 0"

fun frames_sent :: "chan_op \<times> chan_out \<Rightarrow> nat" where
  "frames_sent (_, OutSent _) = 1"
| "frames_sent _ = 0"

fun credit_in :: "chan_op \<times> chan_out \<Rightarrow> nat" where
  "credit_in (OpCredit n, _) = unat n"
| "credit_in _ = 0"

fun credit_out :: "chan_op \<times> chan_out \<Rightarrow> nat" where
  "credit_out (_, OutRead _ g) = unat g"
| "credit_out _ = 0"

fun told_host :: "chan_op \<times> chan_out \<Rightarrow> nat" where
  "told_host (_, OutClosed True) = 1"
| "told_host _ = 0"

definition total :: "('a \<Rightarrow> nat) \<Rightarrow> 'a list \<Rightarrow> nat" where
  "total f xs = sum_list (map f xs)"

lemma total_simps [simp]: "total f [] = 0" "total f (x # xs) = f x + total f xs"
  by (simp_all add: total_def)

text \<open>Frames the reader has not finished with.\<close>

definition queued :: "channel \<Rightarrow> nat" where
  "queued c = length (inbound c) + (if pending c = [] then 0 else 1)"

text \<open>
  The invariant of a channel: fewer than two consumed frames wait for their credit, and a closed
  channel has an error to report, which is never the end-of-file error.
\<close>

definition chan_inv :: "channel \<Rightarrow> bool" where
  "chan_inv c = (consumed c < 2 \<and> (closed c \<longleftrightarrow> closeErr c \<noteq> None) \<and> closeErr c \<noteq> Some ErrEOF)"

lemmas chan_ops = deliver_def add_credit_def close_remote_def chan_close_def await_credit_def

lemma chan_inv_new: "chan_inv (new_channel i n)"
  by (simp add: chan_inv_def new_channel_def)

lemma word_two_one [simp]: "\<not> (2 :: u32) \<le> 1"
  by (simp add: word_le_nat_alt)

lemma consumed_cases: "(n :: u32) < 2 \<Longrightarrow> n = 0 \<or> n = 1"
proof -
  assume "n < 2"
  then have "unat n < 2" by (simp add: word_less_nat_alt)
  then have "unat n = 0 \<or> unat n = 1" by linarith
  then show ?thesis by (metis unat_0 unat_1 word_unat_eq_iff)
qed

text \<open>One read, by the two cases that matter: part of a frame, or its end.\<close>

lemma chan_next_keeps:
  assumes "\<not> (pending c = [] \<and> inbound c = [])"
  shows "pending (chan_next c) @ concat (inbound (chan_next c)) = pending c @ concat (inbound c)"
    and "length (inbound (chan_next c)) + 1 = queued c"
    and "consumed (chan_next c) = consumed c" "credit (chan_next c) = credit c"
    and "closed (chan_next c) = closed c" "closeErr (chan_next c) = closeErr c"
    and "ch_id (chan_next c) = ch_id c"
  using assms by (cases "inbound c"; simp add: chan_next_def queued_def)+

lemma chan_read_cases:
  assumes "chan_read k c = Some (Inr b, g, c')" and "chan_inv c"
  obtains (ne) "\<not> (pending c = [] \<and> inbound c = [])" and "b = take k (pending (chan_next c))"
    and "(drop k (pending (chan_next c)) \<noteq> [] \<and> g = 0
            \<and> c' = (chan_next c)\<lparr>pending := drop k (pending (chan_next c))\<rparr>)
       \<or> (drop k (pending (chan_next c)) = [] \<and> consumed c = 0 \<and> g = 0
            \<and> c' = (chan_next c)\<lparr>pending := [], consumed := 1\<rparr>)
       \<or> (drop k (pending (chan_next c)) = [] \<and> consumed c = 1 \<and> g = 2
            \<and> c' = (chan_next c)\<lparr>pending := [], consumed := 0\<rparr>)"
proof -
  have ne: "\<not> (pending c = [] \<and> inbound c = [])"
    using assms(1) by (auto simp: chan_read_def split: if_splits)
  let ?n = "chan_next c"
  have eq: "chan_read k c =
      (if drop k (pending ?n) = [] then
         (if consumed c + 1 \<ge> 2 then Some (Inr (take k (pending ?n)), consumed c + 1,
            ?n\<lparr>pending := [], consumed := 0\<rparr>)
          else Some (Inr (take k (pending ?n)), 0, ?n\<lparr>pending := [], consumed := consumed c + 1\<rparr>))
       else Some (Inr (take k (pending ?n)), 0, ?n\<lparr>pending := drop k (pending ?n)\<rparr>))"
    using ne by (auto simp: chan_read_def Let_def initialCredit_def chan_next_keeps(3) [OF ne])
  have "consumed c = 0 \<or> consumed c = 1"
    using assms(2) consumed_cases by (simp add: chan_inv_def)
  then have "b = take k (pending ?n)
    \<and> ((drop k (pending ?n) \<noteq> [] \<and> g = 0 \<and> c' = ?n\<lparr>pending := drop k (pending ?n)\<rparr>)
      \<or> (drop k (pending ?n) = [] \<and> consumed c = 0 \<and> g = 0 \<and> c' = ?n\<lparr>pending := [], consumed := 1\<rparr>)
      \<or> (drop k (pending ?n) = [] \<and> consumed c = 1 \<and> g = 2 \<and> c' = ?n\<lparr>pending := [], consumed := 0\<rparr>))"
  proof
    assume "consumed c = 0"
    with assms(1) eq show ?thesis by (auto simp del: drop_eq_Nil split: if_splits)
  next
    assume "consumed c = 1"
    with assms(1) eq show ?thesis by (auto simp del: drop_eq_Nil split: if_splits)
  qed
  with ne show thesis by (intro that) auto
qed

text \<open>One read: the bytes, the frames and the credit all add up.\<close>

lemma chan_read_Inr:
  assumes "chan_read k c = Some (Inr b, g, c')" and "chan_inv c"
  shows "pending c @ concat (inbound c) = b @ pending c' @ concat (inbound c')"
    and "queued c + unat (consumed c) = queued c' + unat (consumed c') + unat g"
    and "chan_inv c'" "credit c' = credit c" "closed c' = closed c" "ch_id c' = ch_id c"
proof -
  from assms show "pending c @ concat (inbound c) = b @ pending c' @ concat (inbound c')"
  proof (cases rule: chan_read_cases)
    case ne
    have "b @ pending c' = pending (chan_next c)"
      using ne(2,3) append_take_drop_id [of k "pending (chan_next c)"]
      by (auto simp del: drop_eq_Nil append_take_drop_id)
    moreover have "inbound c' = inbound (chan_next c)" using ne(3) by auto
    ultimately have "b @ pending c' @ concat (inbound c')
        = pending (chan_next c) @ concat (inbound (chan_next c))" by simp
    then show ?thesis using chan_next_keeps(1) [OF ne(1)] by simp
  qed
  from assms show "queued c + unat (consumed c) = queued c' + unat (consumed c') + unat g"
  proof (cases rule: chan_read_cases)
    case ne
    have q: "queued c = length (inbound (chan_next c)) + 1" "consumed (chan_next c) = consumed c"
      using chan_next_keeps [OF ne(1)] by simp_all
    show ?thesis
      using ne(3) unfolding q by (elim disjE conjE) (simp_all add: queued_def q(2))
  qed
  from assms have "chan_inv c' \<and> credit c' = credit c \<and> closed c' = closed c \<and> ch_id c' = ch_id c"
  proof (cases rule: chan_read_cases)
    case ne
    show ?thesis
      using ne(3) assms(2)
      by (elim disjE conjE) (simp_all add: chan_inv_def chan_next_keeps [OF ne(1)])
  qed
  then show "chan_inv c'" "credit c' = credit c" "closed c' = closed c" "ch_id c' = ch_id c"
    by simp_all
qed

lemma chan_read_Inl:
  "chan_read k c = Some (Inl e, g, c')
     \<Longrightarrow> c' = c \<and> g = 0 \<and> closed c \<and> pending c = [] \<and> inbound c = []"
  by (auto simp: chan_read_def Let_def split: if_splits)

subsection \<open>One operation, then any sequence\<close>

lemma unat_minus_one_credit: "(n :: u32) \<noteq> 0 \<Longrightarrow> unat n = unat (n - 1) + 1"
  using unat_minus_one [of n] unat_gt_0 [of n] by linarith

lemma await_credit_Inr:
  "await_credit c = Some (Inr c') \<Longrightarrow>
     \<not> closed c \<and> credit c \<noteq> 0 \<and> c' = c\<lparr>credit := credit c - 1\<rparr>"
  by (auto simp: await_credit_def split: if_splits)

lemma queue_frame [simp]: "queued (c\<lparr>credit := n\<rparr>) = queued c" "queued (add_credit n c) = queued c"
  "queued (close_remote why c) = queued c" "queued (snd (chan_close c)) = queued c"
  by (simp_all add: queued_def chan_ops)

lemma queued_deliver: "\<not> closed c \<Longrightarrow> queued (deliver b c) = queued c + 1"
  by (simp add: queued_def deliver_def)

text \<open>What an operation keeps and how it moves the sums, for every operation and outcome.\<close>

lemma chan_op_step_sums:
  assumes "chan_op_step c x = (out, c')" and "chan_inv c"
  shows "chan_inv c'"
    and "pending c @ concat (inbound c) @ bytes_in (x, out)
           = bytes_out (x, out) @ pending c' @ concat (inbound c')"
    and "queued c + unat (consumed c) + frames_in (x, out)
           = queued c' + unat (consumed c') + credit_out (x, out)"
    and "ch_id c' = ch_id c" and "closed c \<longrightarrow> closed c'"
    and "told_host (x, out) = 0 \<or> told_host (x, out) = 1 \<and> \<not> closed c \<and> closed c'"
proof -
  have "chan_inv c'
    \<and> pending c @ concat (inbound c) @ bytes_in (x, out) = bytes_out (x, out) @ pending c' @ concat (inbound c')
    \<and> queued c + unat (consumed c) + frames_in (x, out) = queued c' + unat (consumed c') + credit_out (x, out)
    \<and> ch_id c' = ch_id c \<and> (closed c \<longrightarrow> closed c')
    \<and> (told_host (x, out) = 0 \<or> told_host (x, out) = 1 \<and> \<not> closed c \<and> closed c')"
  proof (cases x)
    case (OpRead k)
    show ?thesis
    proof (cases "chan_read k c")
      case None
      with assms OpRead show ?thesis by auto
    next
      case (Some res)
      obtain r g c1 where res: "res = (r, g, c1)" by (cases res)
      show ?thesis
      proof (cases r)
        case (Inl e)
        with assms OpRead Some res chan_read_Inl [of k c e g c1] show ?thesis by auto
      next
        case (Inr b)
        with assms OpRead Some res chan_read_Inr [of k c b g c1] show ?thesis by auto
      qed
    qed
  next
    case (OpWrite b)
    with assms show ?thesis
      by (auto simp: chan_inv_def queued_def split: option.splits sum.splits dest!: await_credit_Inr)
  next
    case (OpDeliver b)
    with assms show ?thesis by (auto simp: chan_inv_def queued_def deliver_def)
  next
    case OpClose
    with assms show ?thesis by (auto simp: chan_inv_def queued_def chan_close_def split: if_splits)
  qed (use assms in \<open>auto simp: chan_inv_def queued_def chan_ops split: if_splits\<close>)
  then show "chan_inv c'"
    and "pending c @ concat (inbound c) @ bytes_in (x, out)
           = bytes_out (x, out) @ pending c' @ concat (inbound c')"
    and "queued c + unat (consumed c) + frames_in (x, out)
           = queued c' + unat (consumed c') + credit_out (x, out)"
    and "ch_id c' = ch_id c" and "closed c \<longrightarrow> closed c'"
    and "told_host (x, out) = 0 \<or> told_host (x, out) = 1 \<and> \<not> closed c \<and> closed c'"
    by simp_all
qed

lemma chan_run_Cons:
  assumes "chan_run c (x # xs) = (tr, c')"
  obtains out c1 tr' where "chan_op_step c x = (out, c1)" "chan_run c1 xs = (tr', c')" "tr = (x, out) # tr'"
  using assms by (auto split: prod.splits)

lemma chan_run_sums:
  assumes "chan_run c xs = (tr, c')" and "chan_inv c"
  shows "chan_inv c'
    \<and> pending c @ concat (inbound c) @ concat (map bytes_in tr)
        = concat (map bytes_out tr) @ pending c' @ concat (inbound c')
    \<and> queued c + unat (consumed c) + total frames_in tr
        = queued c' + unat (consumed c') + total credit_out tr
    \<and> (closed c \<longrightarrow> closed c')
    \<and> total told_host tr + (if closed c then 1 else 0) \<le> 1"
  using assms
proof (induction xs arbitrary: c tr)
  case Nil
  then show ?case by simp
next
  case (Cons x xs)
  from Cons.prems(1) obtain out c1 tr' where step: "chan_op_step c x = (out, c1)"
    and rest: "chan_run c1 xs = (tr', c')" and tr: "tr = (x, out) # tr'" by (rule chan_run_Cons)
  note s = chan_op_step_sums [OF step Cons.prems(2)]
  note IH = Cons.IH [OF rest s(1)]
  have "pending c @ concat (inbound c) @ concat (map bytes_in tr)
      = (pending c @ concat (inbound c) @ bytes_in (x, out)) @ concat (map bytes_in tr')"
    by (simp add: tr)
  also have "\<dots> = concat (map bytes_out tr) @ pending c' @ concat (inbound c')"
    unfolding s(2) using IH by (simp add: tr)
  finally have "pending c @ concat (inbound c) @ concat (map bytes_in tr)
      = concat (map bytes_out tr) @ pending c' @ concat (inbound c')" .
  moreover have "total told_host tr + (if closed c then 1 else 0) \<le> 1"
    using IH s(5,6) by (auto simp: tr split: if_splits)
  ultimately show ?case using IH s(3,5) by (simp add: tr)
qed

text \<open>The send window: frames sent never pass what the host granted, counted without wrap-around.\<close>

lemma chan_run_window:
  assumes "chan_run c xs = (tr, c')" and "unat (credit c) + total credit_in tr < 2 ^ 32"
  shows "unat (credit c') + total frames_sent tr = unat (credit c) + total credit_in tr"
  using assms
proof (induction xs arbitrary: c tr)
  case Nil
  then show ?case by simp
next
  case (Cons x xs)
  from Cons.prems(1) obtain out c1 tr' where step: "chan_op_step c x = (out, c1)"
    and rest: "chan_run c1 xs = (tr', c')" and tr: "tr = (x, out) # tr'" by (rule chan_run_Cons)
  have one: "unat (credit c1) + frames_sent (x, out) = unat (credit c) + credit_in (x, out)"
  proof (cases x)
    case (OpCredit n)
    have "unat (credit c) + unat n < 2 ^ LENGTH(32)"
      using Cons.prems(2) OpCredit by (simp add: tr)
    then have "unat (credit c + n) = unat (credit c) + unat n" by (rule unat_add_lem [THEN iffD1])
    with step OpCredit show ?thesis by (auto simp: add_credit_def)
  next
    case (OpWrite b)
    with step show ?thesis
      by (auto split: option.splits sum.splits dest!: await_credit_Inr simp: unat_minus_one_credit)
  next
    case (OpRead k)
    with step show ?thesis
      by (auto simp: chan_read_def chan_next_def Let_def split: option.splits sum.splits prod.splits if_splits)
  qed (use step in \<open>auto simp: chan_ops split: if_splits\<close>)
  with Cons.prems(2) have "unat (credit c1) + total credit_in tr' < 2 ^ 32" by (simp add: tr)
  from Cons.IH [OF rest this] one show ?case by (simp add: tr)
qed

subsection \<open>The write loop over any transport\<close>

text \<open>
  The chunks of a buffer: what the write loop puts on the wire when nothing stops it.
\<close>

fun chunks_fuel :: "nat \<Rightarrow> bytes \<Rightarrow> bytes list" where
  "chunks_fuel 0 p = []"
| "chunks_fuel (Suc n) p =
     (if p = [] then [] else take MaxChannelFrame p # chunks_fuel n (drop MaxChannelFrame p))"

definition chunks :: "bytes \<Rightarrow> bytes list" where
  "chunks p = chunks_fuel (length p) p"

lemma max_frame_pos [simp]: "0 < MaxChannelFrame" "MaxChannelFrame \<noteq> 0"
  by (simp_all add: MaxChannelFrame_def)

lemma chunks_fuel_more: "length p \<le> n \<Longrightarrow> chunks_fuel (n + k) p = chunks_fuel n p"
proof (induction n arbitrary: p)
  case 0
  then show ?case by (cases k) simp_all
next
  case (Suc n)
  show ?case
  proof (cases "p = []")
    case False
    then have "0 < length p" by simp
    then have "length (drop MaxChannelFrame p) < length p" by simp
    then have "length (drop MaxChannelFrame p) \<le> n" using Suc.prems by linarith
    then show ?thesis using Suc.IH False by simp
  qed simp
qed

lemma chunks_eq: "chunks p = (if p = [] then [] else take MaxChannelFrame p # chunks (drop MaxChannelFrame p))"
proof (cases "p = []")
  case False
  then obtain n where n: "length p = Suc n" by (cases p) auto
  have "0 < length p" using False by simp
  then have "length (drop MaxChannelFrame p) < length p" by simp
  then have "length (drop MaxChannelFrame p) \<le> n" using n by linarith
  then have "chunks_fuel n (drop MaxChannelFrame p)
      = chunks_fuel (length (drop MaxChannelFrame p)) (drop MaxChannelFrame p)"
    using chunks_fuel_more [of "drop MaxChannelFrame p" "length (drop MaxChannelFrame p)"]
    by (metis le_add_diff_inverse order_refl)
  with False n show ?thesis by (simp add: chunks_def)
qed (simp add: chunks_def)

lemma concat_chunks: "concat (chunks p) = p"
proof (induction "length p" arbitrary: p rule: less_induct)
  case less
  show ?case
  proof (cases "p = []")
    case False
    then have "0 < length p" by simp
    then have "length (drop MaxChannelFrame p) < length p" by simp
    from less [OF this] False show ?thesis by (simp add: chunks_eq [of p])
  qed (simp add: chunks_def)
qed

lemma chunks_bounds: "b \<in> set (chunks p) \<Longrightarrow> b \<noteq> [] \<and> length b \<le> MaxChannelFrame"
proof (induction "length p" arbitrary: p rule: less_induct)
  case less
  show ?case
  proof (cases "p = []")
    case False
    then have "0 < length p" by simp
    then have "length (drop MaxChannelFrame p) < length p" by simp
    from less(1) [OF this] less(2) False show ?thesis by (auto simp: chunks_eq [of p])
  qed (use less in \<open>simp add: chunks_def\<close>)
qed

text \<open>
  The interface a channel needs (\<open>chanbus.Transport\<close>, its sending half): \<open>sent\<close> reads off the
  frames put on the wire for a channel. While the transport is up a frame within the ceiling is
  accepted and is the only thing added; a refused one leaves the wire as it was.
\<close>

locale transport =
  fixes send :: "'w \<Rightarrow> u32 \<Rightarrow> bytes \<Rightarrow> chan_err option \<times> 'w"
    and sent :: "'w \<Rightarrow> u32 \<Rightarrow> bytes list"
    and up :: "'w \<Rightarrow> bool"
  assumes send_up: "up w \<Longrightarrow> length b \<le> MaxChannelFrame \<Longrightarrow> send w i b = (r, w') \<Longrightarrow>
      r = None \<and> up w'"
    and send_ok: "send w i b = (None, w') \<Longrightarrow> sent w' i = sent w i @ [b]"
    and send_other: "send w i b = (r, w') \<Longrightarrow> j \<noteq> i \<Longrightarrow> sent w' j = sent w j"
    and send_err: "send w i b = (Some e, w') \<Longrightarrow> sent w' i = sent w i"
begin

text \<open>
  Whatever ends the loop, the frames it has put out are the first chunks of the rest of the buffer,
  and the count it reports is where they end.
\<close>

lemma write_progress:
  assumes "chan_write send p n w c = (res, w', c')" and "n \<le> length p"
  shows "\<exists>fs gs m. chunks (drop n p) = fs @ gs \<and> sent w' (ch_id c) = sent w (ch_id c) @ fs
     \<and> (\<forall>j. j \<noteq> ch_id c \<longrightarrow> sent w' j = sent w j) \<and> m \<le> length p \<and> take m p = take n p @ concat fs
     \<and> ch_id c' = ch_id c \<and> (res = WDone m \<and> m = length p \<or> (\<exists>e. res = WFailed m e)
         \<or> res = WBlocked m \<and> m < length p \<and> credit c' = 0 \<and> \<not> closed c')"
  using assms
proof (induction "length p - n" arbitrary: n w c rule: less_induct)
  case less
  let ?chunk = "take MaxChannelFrame (drop n p)"
  let ?goal = "\<lambda>fs gs m. chunks (drop n p) = fs @ gs \<and> sent w' (ch_id c) = sent w (ch_id c) @ fs
     \<and> (\<forall>j. j \<noteq> ch_id c \<longrightarrow> sent w' j = sent w j) \<and> m \<le> length p \<and> take m p = take n p @ concat fs
     \<and> ch_id c' = ch_id c \<and> (res = WDone m \<and> m = length p \<or> (\<exists>e. res = WFailed m e)
         \<or> res = WBlocked m \<and> m < length p \<and> credit c' = 0 \<and> \<not> closed c')"
  note run = less.prems(1) [unfolded chan_write.simps [of send p n w c] Let_def]
  show ?case
  proof (cases "n < length p")
    case False
    with run less.prems(2) have "?goal [] [] (length p)" by (simp add: chunks_def)
    then show ?thesis by blast
  next
    case True
    show ?thesis
    proof (cases "await_credit c")
      case None
      then have "credit c = 0" "\<not> closed c" by (auto simp: await_credit_def split: if_splits)
      with None run True have "?goal [] (chunks (drop n p)) n" by simp
      then show ?thesis by blast
    next
      case (Some a)
      show ?thesis
      proof (cases a)
        case (Inl e)
        with Some run True have "?goal [] (chunks (drop n p)) n" by auto
        then show ?thesis by blast
      next
        case (Inr c1)
        with Some have c1: "ch_id c1 = ch_id c" using await_credit_Inr [of c c1] by simp
        obtain e w1 where send: "send w (ch_id c) ?chunk = (e, w1)" by (cases "send w (ch_id c) ?chunk")
        show ?thesis
        proof (cases e)
          case (Some e')
          with run True \<open>await_credit c = Some a\<close> Inr send have "?goal [] (chunks (drop n p)) n"
            using send_err [of w "ch_id c" ?chunk e' w1] send_other [OF send] c1 by auto
          then show ?thesis by blast
        next
          case None
          let ?n = "n + length ?chunk"
          have "0 < length ?chunk" using True by simp
          then have next_n: "length p - ?n < length p - n" "?n \<le> length p"
            using True by (linarith, simp)
          have rest: "chan_write send p ?n w1 c1 = (res, w', c')"
            using run True Some Inr send None by simp
          obtain fs gs m where IH: "chunks (drop ?n p) = fs @ gs" "sent w' (ch_id c1) = sent w1 (ch_id c1) @ fs"
            "\<forall>j. j \<noteq> ch_id c1 \<longrightarrow> sent w' j = sent w1 j" "m \<le> length p" "take m p = take ?n p @ concat fs"
            "ch_id c' = ch_id c1" "res = WDone m \<and> m = length p \<or> (\<exists>e. res = WFailed m e)
              \<or> res = WBlocked m \<and> m < length p \<and> credit c' = 0 \<and> \<not> closed c'"
            using less.hyps [OF next_n(1) rest next_n(2)] by blast
          have "chunks (drop n p) = ?chunk # chunks (drop ?n p)"
            using True chunks_eq [of "drop n p"]
            by (cases "MaxChannelFrame \<le> length p - n") (simp_all add: add.commute)
          moreover have "take ?n p = take n p @ ?chunk" by (simp add: take_add min_def)
          ultimately have "?goal (?chunk # fs) gs m"
            using IH c1 send_ok [of w "ch_id c" ?chunk w1] send_other [OF send] send None by auto
          then show ?thesis by blast
        qed
      qed
    qed
  qed
qed

text \<open>Credit for every chunk, an open channel and a transport that is up: the write ends, whole.\<close>

lemma write_completes:
  assumes "up w" and "\<not> closed c" and "length (chunks (drop n p)) \<le> unat (credit c)" and "n \<le> length p"
  shows "\<exists>w' c'. chan_write send p n w c = (WDone (length p), w', c') \<and> up w' \<and> \<not> closed c'
    \<and> unat (credit c') + length (chunks (drop n p)) = unat (credit c)"
  using assms
proof (induction "length p - n" arbitrary: n w c rule: less_induct)
  case less
  show ?case
  proof (cases "n < length p")
    case False
    with less.prems have "chan_write send p n w c = (WDone (length p), w, c)"
      by (subst chan_write.simps) simp
    with False less.prems show ?thesis by (simp add: chunks_def)
  next
    case True
    let ?chunk = "take MaxChannelFrame (drop n p)"
    let ?n = "n + length ?chunk"
    let ?c1 = "c\<lparr>credit := credit c - 1\<rparr>"
    have split: "chunks (drop n p) = ?chunk # chunks (drop ?n p)"
      using True chunks_eq [of "drop n p"]
      by (cases "MaxChannelFrame \<le> length p - n") (simp_all add: add.commute)
    then have "credit c \<noteq> 0" using less.prems(3) by auto
    then have credit: "unat (credit c) = unat (credit c - 1) + 1" by (rule unat_minus_one_credit)
    obtain r w1 where send: "send w (ch_id c) ?chunk = (r, w1)" by (cases "send w (ch_id c) ?chunk")
    have up: "r = None" "up w1" using send_up [OF less.prems(1) _ send] by simp_all
    have step: "chan_write send p n w c = chan_write send p ?n w1 ?c1"
      using True \<open>credit c \<noteq> 0\<close> less.prems(2) send up
      by (simp add: chan_write.simps [of send p n w c] await_credit_def Let_def)
    have "0 < length ?chunk" using True by simp
    then have "length p - ?n < length p - n" "?n \<le> length p" using True by (linarith, simp)
    moreover have "length (chunks (drop ?n p)) \<le> unat (credit ?c1)"
      using split credit less.prems(3) by simp
    ultimately show ?thesis
      using less.hyps [of ?n w1 ?c1] up(2) less.prems(2) split credit unfolding step by fastforce
  qed
qed

end

subsection \<open>Properties\<close>

text \<open>
  C3. A channel is a faithful stream under every interleaving: the bytes handed to readers, then what is
  still queued, are exactly the bytes of the frames accepted from the host, in order; nothing is lost,
  repeated or reordered, and only frames that arrive after the close are dropped.
\<close>

theorem channel_fifo:
  assumes "chan_run (new_channel i n) xs = (tr, c)"
  shows "concat (map bytes_in tr) = concat (map bytes_out tr) @ pending c @ concat (inbound c)"
  using chan_run_sums [OF assms chan_inv_new] by (simp add: new_channel_def)

definition sample_ops :: "chan_op list" where
  "sample_ops = [OpDeliver [1, 2, 3], OpRead 2, OpDeliver [4], OpWrite [9], OpRead 8, OpRead 8, OpClose, OpRead 1]"

lemma sample_ops_run:
  "chan_run (new_channel 7 1) sample_ops
     = ([(OpDeliver [1, 2, 3], OutAccepted), (OpRead 2, OutRead [1, 2] 0), (OpDeliver [4], OutAccepted),
         (OpWrite [9], OutSent [9]), (OpRead 8, OutRead [3] 0), (OpRead 8, OutRead [4] 2),
         (OpClose, OutClosed True), (OpRead 1, OutErr ErrChannelClosed)],
        (new_channel 7 0)\<lparr>closed := True, closeErr := Some ErrChannelClosed\<rparr>)"
  by (simp add: sample_ops_def new_channel_def deliver_def chan_read_def chan_next_def await_credit_def
      chan_close_def Let_def initialCredit_def)

lemma channel_fifo_witness:
  "concat (map bytes_in (fst (chan_run (new_channel 7 1) sample_ops))) = [1, 2, 3, 4]
   \<and> concat (map bytes_out (fst (chan_run (new_channel 7 1) sample_ops))) = [1, 2, 3, 4]"
  using channel_fifo [OF sample_ops_run] unfolding sample_ops_run by (simp add: new_channel_def queued_def)

text \<open>
  Credit goes back to the host for frames the reader has finished, and for no others: the credit
  returned plus the frames still queued plus at most one unreported frame is the number of frames
  accepted. So a reader that has drained the channel leaves the host all but one of its window, and the
  producer never starves; a reader that has stopped returns nothing.
\<close>

theorem channel_credit_returned:
  assumes "chan_run (new_channel i n) xs = (tr, c)"
  shows "total frames_in tr = total credit_out tr + queued c + unat (consumed c) \<and> unat (consumed c) \<le> 1"
proof -
  have "chan_inv c" using chan_run_sums [OF assms chan_inv_new] by simp
  then have "consumed c = 0 \<or> consumed c = 1" using consumed_cases by (simp add: chan_inv_def)
  then have "unat (consumed c) \<le> 1" by auto
  then show ?thesis
    using chan_run_sums [OF assms chan_inv_new] by (simp add: new_channel_def queued_def)
qed

lemma channel_credit_returned_witness:
  "total frames_in (fst (chan_run (new_channel 7 1) sample_ops)) = 2
   \<and> total credit_out (fst (chan_run (new_channel 7 1) sample_ops)) = 2"
  using channel_credit_returned [OF sample_ops_run] unfolding sample_ops_run by (simp add: new_channel_def queued_def)

text \<open>
  C26. Frames go out only inside the window: whatever the interleaving, the frames sent and the credit
  left are together exactly what the host granted, as long as the grants do not wrap a 32-bit counter.
\<close>

theorem channel_send_window:
  assumes "chan_run (new_channel i n) xs = (tr, c)" and "unat n + total credit_in tr < 2 ^ 32"
  shows "total frames_sent tr + unat (credit c) = unat n + total credit_in tr"
  using chan_run_window [OF assms(1)] assms(2) by (simp add: new_channel_def)

lemma channel_send_window_witness:
  "total frames_sent (fst (chan_run (new_channel 7 1) sample_ops)) = 1"
  using channel_send_window [OF sample_ops_run] unfolding sample_ops_run by (simp add: new_channel_def queued_def)

lemma chan_step_no_eof:
  "chan_op_step c x = (out, c') \<Longrightarrow> chan_inv c \<Longrightarrow> out \<noteq> OutErr ErrEOF"
  by (cases x) (auto simp: chan_read_def await_credit_def chan_close_def chan_inv_def Let_def
      split: option.splits sum.splits if_splits)

lemma chan_run_no_eof:
  "chan_run c xs = (tr, c') \<Longrightarrow> chan_inv c \<Longrightarrow> (x, OutErr ErrEOF) \<notin> set tr"
proof (induction xs arbitrary: c tr)
  case Nil
  then show ?case by simp
next
  case (Cons y xs)
  from Cons.prems(1) obtain out c1 tr' where step: "chan_op_step c y = (out, c1)"
    and rest: "chan_run c1 xs = (tr', c')" and tr: "tr = (y, out) # tr'" by (rule chan_run_Cons)
  show ?case
    using Cons.IH [OF rest chan_op_step_sums(1) [OF step Cons.prems(2)]]
      chan_step_no_eof [OF step Cons.prems(2)] by (auto simp: tr)
qed

text \<open>
  Closing is told once: in any run the transport hears of the close at most once, and not at all
  for a channel the host closed first; and a reader or writer that fails on a closed channel is told
  why, never given a silent end of file.
\<close>

theorem channel_close_once:
  assumes "chan_run (new_channel i n) xs = (tr, c)"
  shows "total told_host tr \<le> 1
    \<and> (\<forall>why. total told_host (fst (chan_run (close_remote why c) ys)) = 0)
    \<and> (\<forall>x. (x, OutErr ErrEOF) \<notin> set tr)"
proof (intro conjI allI)
  have inv: "chan_inv c" using chan_run_sums [OF assms chan_inv_new] by simp
  show "total told_host tr \<le> 1"
    using chan_run_sums [OF assms chan_inv_new] by (simp add: new_channel_def)
  show "(x, OutErr ErrEOF) \<notin> set tr" for x
    using chan_run_no_eof [OF assms chan_inv_new] .
  fix why
  obtain tr' c' where run: "chan_run (close_remote why c) ys = (tr', c')"
    by (cases "chan_run (close_remote why c) ys")
  have "chan_inv (close_remote why c)" "closed (close_remote why c)"
    using inv by (auto simp: chan_inv_def close_remote_def)
  with chan_run_sums [OF run] show "total told_host (fst (chan_run (close_remote why c) ys)) = 0"
    by (simp add: run)
qed

lemma channel_close_once_witness:
  "total told_host (fst (chan_run (new_channel 7 1) sample_ops)) = 1"
  using channel_close_once [OF sample_ops_run] unfolding sample_ops_run by simp

text \<open>
  A read waits exactly when nothing has arrived and the channel is open, so data that came before
  the close is still read after it; and a write waits exactly when the window is shut on an open
  channel.
\<close>

theorem channel_waits_iff:
  "(chan_read k c = None \<longleftrightarrow> pending c = [] \<and> inbound c = [] \<and> \<not> closed c)
   \<and> (await_credit c = None \<longleftrightarrow> credit c = 0 \<and> \<not> closed c)"
  by (auto simp: chan_read_def await_credit_def Let_def)

end
