(* ===== verification/Codec.thy ===== *)
theory Codec
  imports Framing
begin

text \<open>
  The frame layer (\<open>internal/infra/ipc/codec.go\<close>): a nine-byte header (length, kind, channel, big
  endian) and a payload. \<open>write_frame\<close> yields the bytes of the single \<open>Write\<close> the code makes;
  \<open>read_frame\<close> takes one frame off a reader. Kinds are bytes and lengths are 32-bit words, as in the
  source. The reading loop of \<open>Client.Serve\<close> (\<open>ipc/client.go\<close>) is here too: it is the frame layer's
  only caller.
\<close>

definition KindJSONRPC :: byte where "KindJSONRPC = 1"
definition KindChannelData :: byte where "KindChannelData = 2"
definition KindCredit :: byte where "KindCredit = 3"

definition HeaderLen :: nat where "HeaderLen = 9"
definition MaxFrameLength :: nat where "MaxFrameLength = 2 ^ 20"
definition CreditPayloadLen :: nat where "CreditPayloadLen = 8"

lemmas kind_consts = KindJSONRPC_def KindChannelData_def KindCredit_def

datatype codec_err =
    ReadErr read_err
  | ProtocolViolation string byte u32

record frame =
  fKind :: byte
  fChannel :: u32
  fPayload :: bytes

definition valid_kind :: "byte \<Rightarrow> bool" where
  "valid_kind k = (k = KindJSONRPC \<or> k = KindChannelData \<or> k = KindCredit)"

definition read_frame :: "reader \<Rightarrow> (codec_err + frame) \<times> reader" where
  "read_frame r =
     (case read_full HeaderLen r of
        (Inl e, r1) \<Rightarrow> (Inl (ReadErr e), r1)
      | (Inr header, r1) \<Rightarrow>
          (let len = get_u32 (take 4 header);
               kind = header ! 4;
               channel = get_u32 (take 4 (drop 5 header))
           in if \<not> valid_kind kind then (Inl (ProtocolViolation ''unknown or reserved kind'' kind len), r1)
              else if len > of_nat MaxFrameLength then
                (Inl (ProtocolViolation ''oversize length'' kind len), r1)
              else if kind = KindCredit \<and> len \<noteq> of_nat CreditPayloadLen then
                (Inl (ProtocolViolation ''credit frame must carry 8 bytes'' kind len), r1)
              else
                (case read_full (unat len) r1 of
                   (Inl e, r2) \<Rightarrow> (Inl (ReadErr (if e = EOF then UnexpectedEOF else e)), r2)
                 | (Inr payload, r2) \<Rightarrow>
                     (Inr \<lparr>fKind = kind, fChannel = channel, fPayload = payload\<rparr>, r2))))"

definition write_frame :: "frame \<Rightarrow> codec_err + bytes" where
  "write_frame f =
     (if \<not> valid_kind (fKind f) then
        Inl (ProtocolViolation ''unknown or reserved kind'' (fKind f) 0)
      else if length (fPayload f) > MaxFrameLength then
        Inl (ProtocolViolation ''oversize payload'' (fKind f) (of_nat (length (fPayload f))))
      else if fKind f = KindCredit \<and> length (fPayload f) \<noteq> CreditPayloadLen then
        Inl (ProtocolViolation ''credit frame must carry 8 bytes'' (fKind f)
               (of_nat (length (fPayload f))))
      else Inr (put_u32 (of_nat (length (fPayload f))) @ [fKind f] @ put_u32 (fChannel f)
                  @ fPayload f))"

definition encode_credit :: "u32 \<Rightarrow> u32 \<Rightarrow> bytes" where
  "encode_credit channel credit = put_u32 channel @ put_u32 credit"

definition decode_credit :: "u32 \<Rightarrow> bytes \<Rightarrow> codec_err + u32" where
  "decode_credit header_channel payload =
     (if length payload \<noteq> CreditPayloadLen then
        Inl (ProtocolViolation ''credit frame must carry 8 bytes'' KindCredit (of_nat (length payload)))
      else
        (let inner = get_u32 (take 4 payload) in
         if inner \<noteq> header_channel then
           Inl (ProtocolViolation ''credit channel id disagrees with the frame header'' KindCredit 0)
         else
           (let credit = get_u32 (take 4 (drop 4 payload)) in
            if credit = 0 then Inl (ProtocolViolation ''credit must be non-zero'' KindCredit 0)
            else Inr credit)))"

subsection \<open>One frame\<close>

definition frame_ok :: "frame \<Rightarrow> bool" where
  "frame_ok f = (valid_kind (fKind f) \<and> length (fPayload f) \<le> MaxFrameLength
     \<and> (fKind f = KindCredit \<longrightarrow> length (fPayload f) = CreditPayloadLen))"

definition frame_bytes :: "frame \<Rightarrow> bytes" where
  "frame_bytes f = put_u32 (of_nat (length (fPayload f))) @ [fKind f] @ put_u32 (fChannel f) @ fPayload f"

lemma write_frame_Inr_iff: "write_frame f = Inr b \<longleftrightarrow> frame_ok f \<and> b = frame_bytes f"
  by (auto simp: write_frame_def frame_ok_def frame_bytes_def)

lemma write_frame_ok: "frame_ok f \<Longrightarrow> write_frame f = Inr (frame_bytes f)"
  by (simp add: write_frame_Inr_iff)

lemma unat_payload_length:
  "n \<le> MaxFrameLength \<Longrightarrow> unat (of_nat n :: u32) = n"
  by (simp add: MaxFrameLength_def unat_of_nat)

lemma payload_length_bound_word:
  assumes "n \<le> MaxFrameLength"
  shows "\<not> (of_nat n :: u32) > of_nat MaxFrameLength"
  using assms by (simp add: word_less_nat_alt unat_payload_length)

lemma payload_length_eq_credit:
  assumes "n \<le> MaxFrameLength"
  shows "(of_nat n :: u32) = of_nat CreditPayloadLen \<longleftrightarrow> n = CreditPayloadLen"
proof
  assume "(of_nat n :: u32) = of_nat CreditPayloadLen"
  then have "unat (of_nat n :: u32) = unat (of_nat CreditPayloadLen :: u32)" by simp
  moreover have "CreditPayloadLen \<le> MaxFrameLength"
    by (simp add: CreditPayloadLen_def MaxFrameLength_def)
  ultimately show "n = CreditPayloadLen" using assms by (simp only: unat_payload_length)
qed simp

text \<open>A header is taken apart into the three words it was put together from.\<close>

definition header_bytes :: "frame \<Rightarrow> bytes" where
  "header_bytes f = put_u32 (of_nat (length (fPayload f))) @ [fKind f] @ put_u32 (fChannel f)"

lemma header_bytes_parts:
  "length (header_bytes f) = HeaderLen"
  "get_u32 (take 4 (header_bytes f)) = of_nat (length (fPayload f))"
  "header_bytes f ! 4 = fKind f"
  "get_u32 (take 4 (drop 5 (header_bytes f))) = fChannel f"
  by (simp_all add: header_bytes_def HeaderLen_def nth_append)

lemma frame_bytes_header: "frame_bytes f = header_bytes f @ fPayload f"
  by (simp add: frame_bytes_def header_bytes_def)

lemma header_bytes_rebuild:
  assumes "length h = 9" and "get_u32 (take 4 h) = of_nat (length p)"
  shows "h = header_bytes \<lparr>fKind = h ! 4, fChannel = get_u32 (take 4 (drop 5 h)), fPayload = p\<rparr>"
proof -
  have "drop 4 h = h ! 4 # drop 5 h" using Cons_nth_drop_Suc [of 4 h] assms(1) by simp
  then have "h = take 4 h @ [h ! 4] @ take 4 (drop 5 h)"
    using append_take_drop_id [of 4 h] assms(1) by simp
  moreover have "put_u32 (of_nat (length p)) = take 4 h"
    using put_get_u32 [of "take 4 h"] assms by simp
  moreover have "put_u32 (get_u32 (take 4 (drop 5 h))) = take 4 (drop 5 h)"
    using assms(1) by (intro put_get_u32) simp
  ultimately show ?thesis by (simp add: header_bytes_def)
qed

lemma read_frame_header:
  assumes "frame_ok f" and "rbuf r = header_bytes f @ w"
  shows "read_frame r =
    (case read_full (length (fPayload f)) (r\<lparr>rbuf := w\<rparr>) of
       (Inl e, r2) \<Rightarrow> (Inl (ReadErr (if e = EOF then UnexpectedEOF else e)), r2)
     | (Inr payload, r2) \<Rightarrow> (Inr (f\<lparr>fPayload := payload\<rparr>), r2))"
proof -
  have n: "length (fPayload f) \<le> MaxFrameLength" using assms(1) by (simp add: frame_ok_def)
  have h: "read_full HeaderLen r = (Inr (header_bytes f), r\<lparr>rbuf := w\<rparr>)"
    using assms(2) by (rule read_full_append) (rule header_bytes_parts)
  have "fKind f = KindCredit \<longrightarrow> (of_nat (length (fPayload f)) :: u32) = of_nat CreditPayloadLen"
    using assms(1) by (simp add: frame_ok_def)
  moreover have "valid_kind (fKind f)" using assms(1) by (simp add: frame_ok_def)
  ultimately show ?thesis
    unfolding read_frame_def h
    by (simp add: Let_def header_bytes_parts payload_length_bound_word [OF n]
        unat_payload_length [OF n] split: sum.split prod.split)
qed

lemma read_frame_bytes:
  assumes "frame_ok f" and "rbuf r = frame_bytes f @ rest"
  shows "read_frame r = (Inr f, r\<lparr>rbuf := rest\<rparr>)"
  using read_frame_header [OF assms(1), of r "fPayload f @ rest"] assms(2)
  by (simp add: frame_bytes_header read_full_def)

lemma read_frame_InrD:
  assumes "read_frame r = (Inr f, r')"
  shows "frame_ok f \<and> rbuf r = frame_bytes f @ rbuf r' \<and> rend r' = rend r"
proof -
  from assms obtain h r1 where h: "read_full HeaderLen r = (Inr h, r1)"
    by (auto simp: read_frame_def Let_def split: prod.splits sum.splits if_splits)
  let ?len = "get_u32 (take 4 h)"
  from assms h obtain p where kind: "valid_kind (h ! 4)" "\<not> ?len > of_nat MaxFrameLength"
      "\<not> (h ! 4 = KindCredit \<and> ?len \<noteq> of_nat CreditPayloadLen)"
    and p: "read_full (unat ?len) r1 = (Inr p, r')"
    and f: "f = \<lparr>fKind = h ! 4, fChannel = get_u32 (take 4 (drop 5 h)), fPayload = p\<rparr>"
    by (auto simp: read_frame_def Let_def split: prod.splits sum.splits if_splits)
  have len: "unat ?len = length p" using read_full_Inr [OF p] by simp
  moreover have "of_nat (unat ?len) = ?len" by simp
  ultimately have lenw: "?len = of_nat (length p)" by simp
  have max: "length p \<le> MaxFrameLength"
    using kind(2) len unat_payload_length [of MaxFrameLength]
    by (simp add: not_less word_le_nat_alt)
  have "h = header_bytes f"
    using read_full_Inr [OF h] lenw unfolding f
    by (intro header_bytes_rebuild) (simp_all add: HeaderLen_def)
  then show ?thesis
    using read_full_Inr [OF h] read_full_Inr [OF p] kind lenw max
    by (auto simp: frame_ok_def frame_bytes_header f payload_length_eq_credit)
qed

lemma read_frame_cut:
  assumes "frame_ok f" and "frame_bytes f = p @ q" and "p \<noteq> []" and "q \<noteq> []"
    and "rbuf r = p" and "rend r = EOF"
  shows "fst (read_frame r) = Inl (ReadErr UnexpectedEOF)"
proof (cases "HeaderLen \<le> length p")
  case False
  then show ?thesis using assms by (simp add: read_frame_def read_full_def)
next
  case True
  then have "length (header_bytes f) \<le> length p" by (simp add: header_bytes_parts)
  with assms(2) obtain w where w: "p = header_bytes f @ w" "fPayload f = w @ q"
    unfolding frame_bytes_header
    by (auto simp: append_eq_append_conv2)
  with assms(4) have short: "length w < length (fPayload f)" by simp
  have "rbuf r = header_bytes f @ w" using assms(5) w by simp
  from read_frame_header [OF assms(1) this] short assms(6)
  show ?thesis by (simp add: read_full_def)
qed

interpretation codec: canonical_framing frame_bytes frame_ok read_frame "ReadErr UnexpectedEOF"
proof unfold_locales
  fix f :: frame and r :: reader and rest
  assume "frame_ok f" "rbuf r = frame_bytes f @ rest"
  then show "read_frame r = (Inr f, r\<lparr>rbuf := rest\<rparr>)" by (rule read_frame_bytes)
next
  fix f :: frame
  show "frame_bytes f \<noteq> []" by (simp add: frame_bytes_def)
next
  fix r r' :: reader and f
  assume "read_frame r = (Inr f, r')"
  from read_frame_InrD [OF this]
  show "frame_ok f \<and> rbuf r = frame_bytes f @ rbuf r' \<and> rend r' = rend r"
    and "length (rbuf r') < length (rbuf r)"
    by (simp_all add: frame_bytes_def)
qed (use read_frame_cut in blast)

subsection \<open>The reading loop (Client.Serve)\<close>

text \<open>
  What \<open>Serve\<close> does with each frame: a control message goes to the dispatcher, channel data and
  credit go to their sinks where one is registered (\<open>hb\<close>, \<open>hc\<close>). The log is the sequence of those
  calls. The loop ends with no error exactly at a clean end of the stream.
\<close>

datatype serve_event = EvJson bytes | EvBinary u32 bytes | EvCredit u32 u32

definition serve_frame ::
  "bool \<Rightarrow> bool \<Rightarrow> serve_event list \<Rightarrow> frame \<Rightarrow> (serve_event list \<times> codec_err option) + serve_event list" where
  "serve_frame hb hc log f =
     (if fKind f = KindJSONRPC then Inr (log @ [EvJson (fPayload f)])
      else if fKind f = KindChannelData then
        Inr (if hb then log @ [EvBinary (fChannel f) (fPayload f)] else log)
      else if fKind f = KindCredit then
        (case decode_credit (fChannel f) (fPayload f) of
           Inl e \<Rightarrow> Inl (log, Some e)
         | Inr n \<Rightarrow> Inr (if hc then log @ [EvCredit (fChannel f) n] else log))
      else Inr log)"

definition serve_end :: "serve_event list \<Rightarrow> codec_err \<Rightarrow> serve_event list \<times> codec_err option" where
  "serve_end log e = (log, if e = ReadErr EOF then None else Some e)"

function serve ::
  "bool \<Rightarrow> bool \<Rightarrow> serve_event list \<Rightarrow> reader \<Rightarrow> serve_event list \<times> codec_err option" where
  "serve hb hc log r =
     (case read_frame r of
        (Inl e, r') \<Rightarrow> serve_end log e
      | (Inr f, r') \<Rightarrow>
          (case serve_frame hb hc log f of
             Inl res \<Rightarrow> res
           | Inr log' \<Rightarrow> serve hb hc log' r'))"
  by pat_completeness auto
termination
  by (relation "measure (\<lambda>(hb, hc, log, r). length (rbuf r))") (auto dest!: sym codec.dec_shrinks)

declare serve.simps [simp del]

interpretation client: frame_loop frame_bytes frame_ok read_frame "ReadErr UnexpectedEOF"
  "serve_frame hb hc" serve_end "serve hb hc" for hb hc
  by unfold_locales (subst serve.simps, rule refl)

lemma decode_credit_encode:
  "decode_credit c (encode_credit c n)
     = (if n = 0 then Inl (ProtocolViolation ''credit must be non-zero'' KindCredit 0) else Inr n)"
  by (simp add: decode_credit_def encode_credit_def CreditPayloadLen_def Let_def)

lemma decode_credit_InrD:
  assumes "decode_credit c p = Inr n"
  shows "n \<noteq> 0 \<and> p = encode_credit c n"
proof -
  from assms have p: "length p = 8" "get_u32 (take 4 p) = c" "get_u32 (take 4 (drop 4 p)) = n" "n \<noteq> 0"
    by (auto simp: decode_credit_def CreditPayloadLen_def Let_def split: if_splits)
  have "put_u32 (get_u32 (take 4 p)) = take 4 p" "put_u32 (get_u32 (take 4 (drop 4 p))) = drop 4 p"
    using p(1) put_get_u32 [of "take 4 p"] put_get_u32 [of "drop 4 p"] by simp_all
  with p show ?thesis
    by (auto simp: encode_credit_def)
qed

text \<open>What the reader of a well-formed stream sees: one call per frame, in the order of the frames.\<close>

definition frame_wf :: "frame \<Rightarrow> bool" where
  "frame_wf f = (frame_ok f \<and> (fKind f = KindCredit \<longrightarrow>
     (\<exists>n. n \<noteq> 0 \<and> fPayload f = encode_credit (fChannel f) n)))"

definition frame_event :: "frame \<Rightarrow> serve_event" where
  "frame_event f =
     (if fKind f = KindJSONRPC then EvJson (fPayload f)
      else if fKind f = KindChannelData then EvBinary (fChannel f) (fPayload f)
      else EvCredit (fChannel f) (get_u32 (drop 4 (fPayload f))))"

lemma kinds_distinct [simp]:
  "KindJSONRPC \<noteq> KindChannelData" "KindJSONRPC \<noteq> KindCredit" "KindChannelData \<noteq> KindCredit"
  "KindChannelData \<noteq> KindJSONRPC" "KindCredit \<noteq> KindJSONRPC" "KindCredit \<noteq> KindChannelData"
  by (simp_all add: kind_consts)

lemma encode_credit_count [simp]: "get_u32 (drop 4 (encode_credit c n)) = n"
  by (simp add: encode_credit_def)

lemma serve_frame_wf: "frame_wf f \<Longrightarrow> serve_frame True True log f = Inr (log @ [frame_event f])"
  by (auto simp: frame_wf_def frame_ok_def valid_kind_def serve_frame_def frame_event_def
      decode_credit_encode)

lemma act_all_wf:
  "list_all frame_wf fs \<Longrightarrow> act_all (serve_frame True True) log fs = Inr (log @ map frame_event fs)"
  by (induction fs arbitrary: log) (simp_all add: serve_frame_wf)

lemma list_all_wf_ok: "list_all frame_wf fs \<Longrightarrow> list_all frame_ok fs"
  by (auto simp: list_all_iff frame_wf_def)

subsection \<open>Properties\<close>

text \<open>
  C14. Round trip of the frame layer, both ways at once: reading succeeds with a frame exactly when the
  bytes at the front of the stream are the ones \<open>WriteFrame\<close> puts out for that frame, and it leaves
  exactly the bytes behind them. Nothing is accepted that the writer cannot produce.
\<close>

theorem read_write_frame:
  "read_frame r = (Inr f, r')
     \<longleftrightarrow> (\<exists>b. write_frame f = Inr b \<and> rbuf r = b @ rbuf r' \<and> r' = r\<lparr>rbuf := rbuf r'\<rparr>)"
  by (auto simp: codec.dec_iff write_frame_Inr_iff)

text \<open>
  \<open>WriteFrame\<close> refuses exactly the frames the wire contract forbids: a kind other than the three,
  a payload over one mebibyte, a credit frame whose payload is not eight bytes. What it does write is
  nine bytes longer than the payload.
\<close>

theorem write_frame_refuses_iff:
  "case write_frame f of
     Inl _ \<Rightarrow> fKind f \<notin> {1, 2, 3} \<or> length (fPayload f) > 2 ^ 20
               \<or> fKind f = 3 \<and> length (fPayload f) \<noteq> 8
   | Inr b \<Rightarrow> fKind f \<in> {1, 2, 3} \<and> length (fPayload f) \<le> 2 ^ 20
               \<and> (fKind f \<noteq> 3 \<or> length (fPayload f) = 8) \<and> length b = 9 + length (fPayload f)"
  by (simp add: write_frame_def valid_kind_def kind_consts MaxFrameLength_def CreditPayloadLen_def)

text \<open>
  A credit payload decodes to a count exactly when it is the encoding of that count for the
  channel of its own header and the count is not zero.
\<close>

theorem decode_credit_iff: "decode_credit c p = Inr n \<longleftrightarrow> n \<noteq> 0 \<and> p = encode_credit c n"
  using decode_credit_InrD decode_credit_encode by auto

text \<open>
  A stream that ends inside a frame is never taken for a clean end: every proper, non-empty prefix
  of a frame's bytes reads as \<open>ErrUnexpectedEOF\<close>, and only the empty stream reads as \<open>EOF\<close>.
\<close>

theorem read_frame_truncated:
  assumes "write_frame f = Inr (p @ q)" and "q \<noteq> []"
  shows "fst (read_frame \<lparr>rbuf = p, rend = EOF\<rparr>)
    = Inl (ReadErr (if p = [] then EOF else UnexpectedEOF))"
proof (cases "p = []")
  case True
  then show ?thesis by (simp add: read_frame_def read_full_def HeaderLen_def)
next
  case False
  with assms show ?thesis
    using codec.dec_cut [of f p q "\<lparr>rbuf = p, rend = EOF\<rparr>"] by (simp add: write_frame_Inr_iff)
qed

lemma read_frame_truncated_witness:
  "fst (read_frame \<lparr>rbuf = put_u32 2 @ [1] @ put_u32 0 @ [10], rend = EOF\<rparr>)
    = Inl (ReadErr (if put_u32 2 @ [1] @ put_u32 0 @ [10] = [] then EOF else UnexpectedEOF))"
  by (rule read_frame_truncated [of "\<lparr>fKind = 1, fChannel = 0, fPayload = [10, 11]\<rparr>" _ "[11]"])
     (simp_all add: write_frame_def valid_kind_def kind_consts MaxFrameLength_def)

text \<open>
  C13. The reading loop delivers a stream of well-formed frames to its sinks frame by frame: one call
  per frame, in order, none lost and none repeated, and a clean end of the stream ends it without an
  error. If the stream breaks off inside a further frame, the same calls are made and the loop ends
  with \<open>ErrUnexpectedEOF\<close>.
\<close>

theorem serve_delivers:
  assumes "list_all frame_wf fs"
  shows "serve True True [] \<lparr>rbuf = concat (map frame_bytes fs), rend = EOF\<rparr> = (map frame_event fs, None)
   \<and> (\<forall>f p q. frame_ok f \<longrightarrow> frame_bytes f = p @ q \<longrightarrow> p \<noteq> [] \<longrightarrow> q \<noteq> [] \<longrightarrow>
        serve True True [] \<lparr>rbuf = concat (map frame_bytes fs) @ p, rend = EOF\<rparr>
          = (map frame_event fs, Some (ReadErr UnexpectedEOF)))"
proof (intro conjI allI impI)
  have ok: "list_all frame_ok fs" using assms by (rule list_all_wf_ok)
  have "serve True True (map frame_event fs) \<lparr>rbuf = [], rend = EOF\<rparr> = (map frame_event fs, None)"
    by (subst serve.simps) (simp add: read_frame_def read_full_def HeaderLen_def serve_end_def)
  then show "serve True True [] \<lparr>rbuf = concat (map frame_bytes fs), rend = EOF\<rparr>
      = (map frame_event fs, None)"
    using client.run_frames [OF ok, of "\<lparr>rbuf = concat (map frame_bytes fs), rend = EOF\<rparr>" "[]" True True "[]"]
    by (simp add: act_all_wf [OF assms])
  fix f p q
  assume "frame_ok f" "frame_bytes f = p @ q" "p \<noteq> []" "q \<noteq> []"
  then show "serve True True [] \<lparr>rbuf = concat (map frame_bytes fs) @ p, rend = EOF\<rparr>
      = (map frame_event fs, Some (ReadErr UnexpectedEOF))"
    using client.run_cut [OF ok, of True True "[]" "map frame_event fs" f p q
        "\<lparr>rbuf = concat (map frame_bytes fs) @ p, rend = EOF\<rparr>"]
    by (simp add: act_all_wf [OF assms] serve_end_def)
qed

definition sample_frames :: "frame list" where
  "sample_frames = [\<lparr>fKind = 1, fChannel = 0, fPayload = [123, 125]\<rparr>,
     \<lparr>fKind = 3, fChannel = 5, fPayload = encode_credit 5 4\<rparr>]"

lemma sample_frames_wf: "list_all frame_wf sample_frames"
  by (auto simp: sample_frames_def frame_wf_def frame_ok_def valid_kind_def kind_consts
      MaxFrameLength_def CreditPayloadLen_def encode_credit_def intro: exI [of _ 4])

lemma serve_delivers_witness:
  "serve True True [] \<lparr>rbuf = concat (map frame_bytes sample_frames), rend = EOF\<rparr>
     = ([EvJson [123, 125], EvCredit 5 4], None)"
proof -
  have "map frame_event sample_frames = [EvJson [123, 125], EvCredit 5 4]"
    by (simp add: sample_frames_def frame_event_def kind_consts encode_credit_def)
  then show ?thesis using serve_delivers [OF sample_frames_wf] by simp
qed

text \<open>
  A protocol violation ends the connection: after the frames before it have been delivered, nothing
  that follows it on the stream is looked at.
\<close>

theorem serve_stops_at_violation:
  assumes "list_all frame_wf fs"
    and "fst (read_frame \<lparr>rbuf = bad, rend = e\<rparr>) = Inl (ProtocolViolation why k n)"
  shows "serve True True [] \<lparr>rbuf = concat (map frame_bytes fs) @ bad, rend = e\<rparr>
    = (map frame_event fs, Some (ProtocolViolation why k n))"
proof -
  obtain r' where "read_frame \<lparr>rbuf = bad, rend = e\<rparr> = (Inl (ProtocolViolation why k n), r')"
    using assms(2) by (metis prod.collapse)
  then have "serve True True log \<lparr>rbuf = bad, rend = e\<rparr> = (log, Some (ProtocolViolation why k n))" for log
    by (subst serve.simps) (simp add: serve_end_def)
  then show ?thesis
    using client.run_frames [OF list_all_wf_ok [OF assms(1)],
        of "\<lparr>rbuf = concat (map frame_bytes fs) @ bad, rend = e\<rparr>" bad True True "[]"]
    by (simp add: act_all_wf [OF assms(1)])
qed

lemma serve_stops_at_violation_witness:
  "serve True True [] \<lparr>rbuf = concat (map frame_bytes sample_frames) @ (put_u32 0 @ [4] @ put_u32 0 @ [1, 2]), rend = EOF\<rparr>
    = (map frame_event sample_frames, Some (ProtocolViolation ''unknown or reserved kind'' 4 0))"
  by (rule serve_stops_at_violation [OF sample_frames_wf])
     (simp add: read_frame_def read_full_def HeaderLen_def put_u32_def valid_kind_def kind_consts
        get_u32_def Let_def)

end
