(* ===== verification/Rpc.thy ===== *)
theory Rpc
  imports Json Codec GoError
begin

text \<open>
  The control plane: the JSON-RPC envelope (\<open>internal/infra/ipc/rpc.go\<close>) and the client that multiplexes
  the pipe pair (\<open>internal/infra/ipc/client.go\<close>). The record holds what the two mutexes guard and the frames
  written so far; every critical section is an operation, and the goroutines' interleavings are the step
  relation \<open>ipc_step\<close>. A call's buffered Go channel is the value of its entry in the pending map.
\<close>

subsection \<open>Messages\<close>

definition MaxJSONRPCFrame :: nat where "MaxJSONRPCFrame = 256 * 2 ^ 10"
definition ControlChannel :: u32 where "ControlChannel = 0"

record rpc_error =
  reCode :: int
  reMessage :: string
  reData :: "json option"

record message =
  mJsonrpc :: string
  mId :: "json option"
  mMethod :: string
  mParams :: "json option"
  mResult :: "json option"
  mError :: "rpc_error option"

definition empty_message :: message where
  "empty_message = \<lparr>mJsonrpc = [], mId = None, mMethod = [], mParams = None, mResult = None, mError = None\<rparr>"

definition is_request :: "message \<Rightarrow> bool" where
  "is_request m = (mMethod m \<noteq> [] \<and> mId m \<noteq> None)"

definition is_notification :: "message \<Rightarrow> bool" where
  "is_notification m = (mMethod m \<noteq> [] \<and> mId m = None)"

definition is_response :: "message \<Rightarrow> bool" where
  "is_response m = (mMethod m = [] \<and> mId m \<noteq> None)"

definition opt_member :: "string \<Rightarrow> json option \<Rightarrow> (string \<times> json) list" where
  "opt_member k v = (case v of None \<Rightarrow> [] | Some j \<Rightarrow> [(k, j)])"

definition error_json :: "rpc_error \<Rightarrow> json" where
  "error_json e =
     JObj ((''code'', json_int (reCode e)) # (''message'', json_str (reMessage e)) # opt_member ''data'' (reData e))"

definition message_json :: "message \<Rightarrow> json" where
  "message_json m =
     JObj ((''jsonrpc'', json_str (mJsonrpc m)) # opt_member ''id'' (mId m)
       @ (if mMethod m = [] then [] else [(''method'', json_str (mMethod m))])
       @ opt_member ''params'' (mParams m) @ opt_member ''result'' (mResult m)
       @ opt_member ''error'' (map_option error_json (mError m)))"

definition encode_message :: "message \<Rightarrow> go_error + bytes" where
  "encode_message m =
     (let payload = print_json (message_json (m\<lparr>mJsonrpc := ''2.0''\<rparr>)) in
      if length payload > MaxJSONRPCFrame then
        Inl (EText (''ipc: message of '' @ dec_nat (length payload) @ '' bytes exceeds the ''
               @ dec_nat MaxJSONRPCFrame @ '' byte JSON-RPC limit''))
      else Inr (bytes_of payload))"

definition dec_error :: "rpc_error dec" where
  "dec_error = dec_struct
     [(''code'', lens reCode reCode_update dec_i64), (''message'', lens reMessage reMessage_update dec_str),
      (''data'', lens reData reData_update dec_raw)]"

fun dec_error_ptr :: "rpc_error option dec" where
  "dec_error_ptr JNull x = Some None"
| "dec_error_ptr j x =
     map_option Some (dec_error j (case x of Some e \<Rightarrow> e | None \<Rightarrow> \<lparr>reCode = 0, reMessage = [], reData = None\<rparr>))"

definition dec_message :: "message dec" where
  "dec_message = dec_struct
     [(''jsonrpc'', lens mJsonrpc mJsonrpc_update dec_str), (''id'', lens mId mId_update dec_raw),
      (''method'', lens mMethod mMethod_update dec_str), (''params'', lens mParams mParams_update dec_raw),
      (''result'', lens mResult mResult_update dec_raw), (''error'', lens mError mError_update dec_error_ptr)]"

definition decode_message :: "bytes \<Rightarrow> message option" where
  "decode_message payload = decode_all dec_message empty_message (text_of payload)"

subsection \<open>The client\<close>

record ipc =
  next_id :: u64
  pend :: "string \<Rightarrow> message option option"
  ipc_closed :: bool
  pipe_err :: "go_error option"
  wrote :: "frame list"

definition new_ipc :: ipc where
  "new_ipc = \<lparr>next_id = 0, pend = (\<lambda>_. None), ipc_closed = False, pipe_err = None, wrote = []\<rparr>"

fun codec_error :: "codec_err \<Rightarrow> go_error" where
  "codec_error (ReadErr EOF) = EText ''EOF''"
| "codec_error (ReadErr UnexpectedEOF) = EText ''unexpected EOF''"
| "codec_error (ProtocolViolation why k n) = EText (''ipc: protocol violation: '' @ why)"
| "codec_error _ = EText ''read error''"

text \<open>\<open>writeFrame\<close>: nothing leaves after the connection has ended; the pipe itself may refuse a write.\<close>

definition ipc_write :: "frame \<Rightarrow> ipc \<Rightarrow> go_error option \<times> ipc" where
  "ipc_write f c =
     (if ipc_closed c then (Some ErrConnClosed, c)
      else (case write_frame f of
              Inl e \<Rightarrow> (Some (codec_error e), c)
            | Inr b \<Rightarrow> (case pipe_err c of
                         Some e \<Rightarrow> (Some e, c)
                       | None \<Rightarrow> (None, c\<lparr>wrote := wrote c @ [f]\<rparr>))))"

definition control_frame :: "bytes \<Rightarrow> frame" where
  "control_frame payload = \<lparr>fKind = KindJSONRPC, fChannel = ControlChannel, fPayload = payload\<rparr>"

definition call_id :: "u64 \<Rightarrow> string" where
  "call_id n = CHR ''d'' # dec_nat (unat n)"

definition register_pending :: "ipc \<Rightarrow> (go_error + string) \<times> ipc" where
  "register_pending c =
     (if ipc_closed c then (Inl ErrConnClosed, c)
      else let n = next_id c + 1 in
        (Inr (call_id n), c\<lparr>next_id := n, pend := (pend c)(call_id n \<mapsto> None)\<rparr>))"

definition forget_pending :: "string \<Rightarrow> ipc \<Rightarrow> ipc" where
  "forget_pending i c = c\<lparr>pend := (pend c)(i := None)\<rparr>"

text \<open>\<open>Call\<close> up to its wait: the entry stays only when the request has left.\<close>

definition request_message :: "string \<Rightarrow> string \<Rightarrow> json option \<Rightarrow> message" where
  "request_message i meth params =
     empty_message\<lparr>mId := Some (json_str i), mMethod := meth, mParams := params\<rparr>"

definition call_send :: "string \<Rightarrow> json option \<Rightarrow> ipc \<Rightarrow> (go_error + string) \<times> ipc" where
  "call_send meth params c =
     (case register_pending c of
        (Inl e, c1) \<Rightarrow> (Inl e, c1)
      | (Inr i, c1) \<Rightarrow>
          (case encode_message (request_message i meth params) of
             Inl e \<Rightarrow> (Inl e, forget_pending i c1)
           | Inr payload \<Rightarrow>
               (case ipc_write (control_frame payload) c1 of
                  (Some e, c2) \<Rightarrow> (Inl e, forget_pending i c2)
                | (None, c2) \<Rightarrow> (Inr i, c2))))"

definition message_result :: "message \<Rightarrow> go_error + json option" where
  "message_result m =
     (case mError m of Some e \<Rightarrow> Inl (ERpc (reCode e) (reMessage e)) | None \<Rightarrow> Inr (mResult m))"

definition notify :: "string \<Rightarrow> json option \<Rightarrow> ipc \<Rightarrow> go_error option \<times> ipc" where
  "notify meth params c =
     (case encode_message (empty_message\<lparr>mMethod := meth, mParams := params\<rparr>) of
        Inl e \<Rightarrow> (Some e, c)
      | Inr payload \<Rightarrow> ipc_write (control_frame payload) c)"

definition write_channel :: "u32 \<Rightarrow> bytes \<Rightarrow> ipc \<Rightarrow> go_error option \<times> ipc" where
  "write_channel i b c = ipc_write \<lparr>fKind = KindChannelData, fChannel = i, fPayload = b\<rparr> c"

definition grant_credit :: "u32 \<Rightarrow> u32 \<Rightarrow> ipc \<Rightarrow> go_error option \<times> ipc" where
  "grant_credit i n c = ipc_write \<lparr>fKind = KindCredit, fChannel = i, fPayload = encode_credit i n\<rparr> c"

definition id_text :: "message \<Rightarrow> string option" where
  "id_text m = (case mId m of None \<Rightarrow> None | Some j \<Rightarrow> dec_str j [])"

text \<open>\<open>resume\<close>: a buffer of one, so a second answer to the same call is dropped.\<close>

definition resume :: "message \<Rightarrow> ipc \<Rightarrow> ipc" where
  "resume m c =
     (case id_text m of
        None \<Rightarrow> c
      | Some i \<Rightarrow>
          (case pend c i of
             None \<Rightarrow> c
           | Some (Some _) \<Rightarrow> c
           | Some None \<Rightarrow> c\<lparr>pend := (pend c)(i \<mapsto> Some m)\<rparr>))"

text \<open>\<open>dispatchJSONRPC\<close>: the message handed to the handler's goroutine, if any, and the new state.\<close>

definition dispatch_jsonrpc :: "bool \<Rightarrow> bytes \<Rightarrow> ipc \<Rightarrow> message option \<times> ipc" where
  "dispatch_jsonrpc has_handler payload c =
     (case decode_message payload of
        None \<Rightarrow> (None, c)
      | Some m \<Rightarrow>
          if is_response m then (None, resume m c)
          else if \<not> has_handler then (None, c)
          else (Some m, c))"

definition rpc_of_error :: "go_error \<Rightarrow> rpc_error" where
  "rpc_of_error e =
     (case as_rpc e of
        Some (ERpc code msg) \<Rightarrow> \<lparr>reCode = code, reMessage = msg, reData = None\<rparr>
      | _ \<Rightarrow> \<lparr>reCode = -32603, reMessage = err_text e, reData = None\<rparr>)"

definition reply_message :: "message \<Rightarrow> go_error + json option \<Rightarrow> message" where
  "reply_message m res =
     (let reply = empty_message\<lparr>mId := mId m\<rparr> in
      case res of Inl e \<Rightarrow> reply\<lparr>mError := Some (rpc_of_error e)\<rparr> | Inr r \<Rightarrow> reply\<lparr>mResult := r\<rparr>)"

definition too_large_reply :: "message \<Rightarrow> message" where
  "too_large_reply m =
     empty_message\<lparr>mId := mId m, mError := Some \<lparr>reCode = -32603, reMessage = ''response too large'', reData = None\<rparr>\<rparr>"

definition reply_payload :: "message \<Rightarrow> go_error + json option \<Rightarrow> bytes" where
  "reply_payload m res =
     (case encode_message (reply_message m res) of
        Inr b \<Rightarrow> b
      | Inl _ \<Rightarrow> (case encode_message (too_large_reply m) of Inr b \<Rightarrow> b | Inl _ \<Rightarrow> []))"

text \<open>\<open>serveInbound\<close>, once the handler has answered.\<close>

definition serve_inbound :: "message \<Rightarrow> go_error + json option \<Rightarrow> ipc \<Rightarrow> ipc" where
  "serve_inbound m res c =
     (if is_notification m then c else snd (ipc_write (control_frame (reply_payload m res)) c))"

definition ipc_close :: "ipc \<Rightarrow> ipc" where
  "ipc_close c = c\<lparr>ipc_closed := True\<rparr>"

subsection \<open>The interleavings\<close>

text \<open>
  The reader, any number of callers and the handlers' goroutines. A caller in its wait takes whatever of
  the three cases of its \<open>select\<close> is ready, and leaves its entry behind removed.
\<close>

datatype ipc_event =
    EvCalled string string | EvRefused go_error | EvReturned string "go_error + json option"
  | EvCancelled string | EvLost string | EvReceived bytes | EvServed message | EvSent frame | EvUnsent go_error
  | EvPipe "go_error option" | EvClosed

inductive ipc_step :: "ipc \<Rightarrow> ipc_event \<Rightarrow> ipc \<Rightarrow> bool" where
  called: "call_send meth params c = (Inr i, c') \<Longrightarrow> ipc_step c (EvCalled i meth) c'"
| refused: "call_send meth params c = (Inl e, c') \<Longrightarrow> ipc_step c (EvRefused e) c'"
| returned: "pend c i = Some (Some m) \<Longrightarrow> ipc_step c (EvReturned i (message_result m)) (forget_pending i c)"
| cancelled: "pend c i = Some b \<Longrightarrow> ipc_step c (EvCancelled i) (forget_pending i c)"
| lost: "pend c i = Some b \<Longrightarrow> ipc_closed c \<Longrightarrow> ipc_step c (EvLost i) (forget_pending i c)"
| received: "\<not> ipc_closed c \<Longrightarrow> ipc_step c (EvReceived payload) (snd (dispatch_jsonrpc h payload c))"
| served: "ipc_step c (EvServed m) (serve_inbound m res c)"
| sent: "write_channel i b c = (None, c') \<or> grant_credit i n c = (None, c') \<or> notify meth params c = (None, c')
     \<Longrightarrow> ipc_step c (EvSent (last (wrote c'))) c'"
| unsent: "write_channel i b c = (Some e, c') \<or> grant_credit i n c = (Some e, c') \<or> notify meth params c = (Some e, c')
     \<Longrightarrow> ipc_step c (EvUnsent e) c'"
| pipe: "ipc_step c (EvPipe e) (c\<lparr>pipe_err := e\<rparr>)"
| closed: "ipc_step c EvClosed (ipc_close c)"

inductive ipc_steps :: "ipc \<Rightarrow> ipc_event list \<Rightarrow> ipc \<Rightarrow> bool" where
  none: "ipc_steps c [] c"
| snoc: "ipc_steps c es d \<Longrightarrow> ipc_step d e d' \<Longrightarrow> ipc_steps c (es @ [e]) d'"

subsection \<open>Encoding and decoding\<close>

definition opt_ok :: "json option \<Rightarrow> bool" where
  "opt_ok v = (case v of None \<Rightarrow> True | Some j \<Rightarrow> json_ok j)"

definition error_ok :: "rpc_error \<Rightarrow> bool" where
  "error_ok e = (- (2 ^ 63) \<le> reCode e \<and> reCode e < 2 ^ 63 \<and> utf8_valid (reMessage e) \<and> opt_ok (reData e))"

text \<open>What the code puts into a message: text in UTF-8, values whose literals are well formed.\<close>

definition message_ok :: "message \<Rightarrow> bool" where
  "message_ok m = (opt_ok (mId m) \<and> utf8_valid (mMethod m) \<and> opt_ok (mParams m) \<and> opt_ok (mResult m)
     \<and> (case mError m of None \<Rightarrow> True | Some e \<Rightarrow> error_ok e))"

definition message_select :: "string \<Rightarrow> message dec" where
  "message_select = select
     [(''jsonrpc'', lens mJsonrpc mJsonrpc_update dec_str), (''id'', lens mId mId_update dec_raw),
      (''method'', lens mMethod mMethod_update dec_str), (''params'', lens mParams mParams_update dec_raw),
      (''result'', lens mResult mResult_update dec_raw), (''error'', lens mError mError_update dec_error_ptr)]"

lemma dec_message_obj: "dec_message (JObj ms) x = dec_members message_select ms x"
  by (simp add: dec_message_def dec_struct_def message_select_def)

lemma message_select_keys:
  "message_select ''jsonrpc'' = lens mJsonrpc mJsonrpc_update dec_str"
  "message_select ''id'' = lens mId mId_update dec_raw"
  "message_select ''method'' = lens mMethod mMethod_update dec_str"
  "message_select ''params'' = lens mParams mParams_update dec_raw"
  "message_select ''result'' = lens mResult mResult_update dec_raw"
  "message_select ''error'' = lens mError mError_update dec_error_ptr"
  by (simp_all add: message_select_def select_def)

lemma unquote_keys:
  "unquote ''jsonrpc'' = ''jsonrpc''" "unquote ''id'' = ''id''" "unquote ''method'' = ''method''"
  "unquote ''params'' = ''params''" "unquote ''result'' = ''result''" "unquote ''error'' = ''error''"
  "unquote ''code'' = ''code''" "unquote ''message'' = ''message''" "unquote ''data'' = ''data''"
  by code_simp+

lemma raw_ok_keys:
  "raw_ok ''jsonrpc''" "raw_ok ''id''" "raw_ok ''method''" "raw_ok ''params''" "raw_ok ''result''"
  "raw_ok ''error''" "raw_ok ''code''" "raw_ok ''message''" "raw_ok ''data''"
  by code_simp+

lemma members_ok_opt [simp]: "members_ok (opt_member k v) \<longleftrightarrow> (v = None \<or> raw_ok k \<and> opt_ok v)"
  by (auto simp: opt_member_def opt_ok_def split: option.splits)

lemma error_json_ok: "error_ok e \<Longrightarrow> json_ok (error_json e)"
  by (simp add: error_json_def error_ok_def raw_ok_keys)

lemma message_json_ok: "message_ok m \<Longrightarrow> json_ok (message_json m)"
  by (auto simp: message_json_def message_ok_def raw_ok_keys opt_ok_def error_json_ok split: option.splits)

lemma dec_error_json:
  "error_ok e \<Longrightarrow> dec_error_ptr (error_json e) None = Some (Some e)"
  by (cases e; cases "reData e")
    (simp_all add: error_json_def dec_error_def dec_struct_def select_def unquote_keys lens_def error_ok_def
      dec_i64_def opt_member_def dec_raw_def)

lemma dec_opt_members:
  "dec_members message_select (opt_member ''id'' v) m = Some (if v = None then m else m\<lparr>mId := v\<rparr>)"
  "dec_members message_select (opt_member ''params'' v) m = Some (if v = None then m else m\<lparr>mParams := v\<rparr>)"
  "dec_members message_select (opt_member ''result'' v) m = Some (if v = None then m else m\<lparr>mResult := v\<rparr>)"
  by (simp_all add: opt_member_def unquote_keys message_select_keys lens_def dec_raw_def split: option.splits)

lemma dec_error_member:
  "(case e of None \<Rightarrow> True | Some x \<Rightarrow> error_ok x) \<Longrightarrow> mError m = None \<Longrightarrow>
   dec_members message_select (opt_member ''error'' (map_option error_json e)) m = Some (m\<lparr>mError := e\<rparr>)"
  by (cases e) (simp_all add: opt_member_def unquote_keys message_select_keys lens_def dec_error_json)

lemma dec_message_json:
  assumes "message_ok m" and "mJsonrpc m = ''2.0''"
  shows "dec_message (message_json m) empty_message = Some m"
proof -
  have two: "dec_str (json_str ''2.0'') x = Some ''2.0''" for x
    by (rule dec_str_json_str) code_simp
  let ?m1 = "empty_message\<lparr>mJsonrpc := ''2.0''\<rparr>"
  let ?m2 = "?m1\<lparr>mId := mId m\<rparr>"
  let ?m3 = "?m2\<lparr>mMethod := mMethod m\<rparr>"
  have a: "(if mId m = None then ?m1 else ?m1\<lparr>mId := mId m\<rparr>) = ?m2"
    by (simp add: empty_message_def)
  have b: "dec_members message_select (if mMethod m = [] then [] else [(''method'', json_str (mMethod m))]) ?m2
      = Some ?m3"
    using assms(1) by (simp add: message_ok_def unquote_keys message_select_keys lens_def empty_message_def)
  have c: "(if mParams m = None then ?m3 else ?m3\<lparr>mParams := mParams m\<rparr>) = ?m3\<lparr>mParams := mParams m\<rparr>"
    by (simp add: empty_message_def)
  have d: "(if mResult m = None then ?m3\<lparr>mParams := mParams m\<rparr>
      else ?m3\<lparr>mParams := mParams m, mResult := mResult m\<rparr>) = ?m3\<lparr>mParams := mParams m, mResult := mResult m\<rparr>"
    by (simp add: empty_message_def)
  have e: "mError (?m3\<lparr>mParams := mParams m, mResult := mResult m\<rparr>) = None"
    by (simp add: empty_message_def)
  have first: "dec_members message_select ((''jsonrpc'', json_str ''2.0'') # ms) empty_message
      = dec_members message_select ms ?m1" for ms
    by (simp add: unquote_keys(1) message_select_keys(1) lens_def two)
  have last: "case mError m of None \<Rightarrow> True | Some x \<Rightarrow> error_ok x" using assms(1) by (simp add: message_ok_def)
  have "dec_message (message_json m) empty_message
      = Some (?m3\<lparr>mParams := mParams m, mResult := mResult m, mError := mError m\<rparr>)"
    unfolding dec_message_obj message_json_def assms(2) first dec_members_append dec_opt_members a option.case b c d
    using dec_error_member [OF last e] by simp
  then show ?thesis using assms(2) by (cases m) (simp add: empty_message_def)
qed

lemma decode_encode:
  assumes "message_ok m" and "encode_message m = Inr b"
  shows "decode_message b = Some (m\<lparr>mJsonrpc := ''2.0''\<rparr>) \<and> length b \<le> MaxJSONRPCFrame"
proof -
  let ?m = "m\<lparr>mJsonrpc := ''2.0''\<rparr>"
  have ok: "message_ok ?m" using assms(1) by (simp add: message_ok_def)
  have b: "b = bytes_of (print_json (message_json ?m))" "length (print_json (message_json ?m)) \<le> MaxJSONRPCFrame"
    using assms(2) by (auto simp: encode_message_def Let_def split: if_splits)
  then show ?thesis
    using parse_all_print [OF message_json_ok [OF ok]] dec_message_json [OF ok]
    by (simp add: decode_message_def decode_all_def)
qed

lemma bytes_length_print: "encode_message m = Inr b \<longleftrightarrow>
    length (print_json (message_json (m\<lparr>mJsonrpc := ''2.0''\<rparr>))) \<le> MaxJSONRPCFrame
    \<and> b = bytes_of (print_json (message_json (m\<lparr>mJsonrpc := ''2.0''\<rparr>)))"
  by (auto simp: encode_message_def Let_def)

subsection \<open>Properties\<close>


definition sample_call :: message where
  "sample_call = request_message ''d1'' ''channel.open'' (Some (JObj [(''purpose'', json_str ''exec'')]))"


lemma too_large_fits:
  assumes "mId m = Some j" and "length (print_json j) \<le> 2 ^ 17"
  shows "\<exists>b. encode_message (too_large_reply m) = Inr b"
proof -
  have "dec_nat 32603 = map digit_char [3, 2, 6, 0, 3]" by (simp add: dec_nat.simps)
  moreover have "quote ''response too large'' = ''response too large''" by code_simp
  ultimately have err: "length (print_json (error_json \<lparr>reCode = -32603, reMessage = ''response too large'', reData = None\<rparr>)) \<le> 100"
    by (simp add: error_json_def json_int_def dec_int_def json_str_def opt_member_def)
  have "quote ''2.0'' = ''2.0''" by code_simp
  then have two: "length (print_json (json_str ''2.0'')) = 5" by (simp add: json_str_def)
  have "length (print_json (message_json (too_large_reply m\<lparr>mJsonrpc := ''2.0''\<rparr>))) \<le> 2 ^ 18"
    using assms err two
    by (simp add: message_json_def too_large_reply_def empty_message_def opt_member_def)
  then show ?thesis by (simp add: bytes_length_print MaxJSONRPCFrame_def)
qed

definition result_ok :: "go_error + json option \<Rightarrow> bool" where
  "result_ok res = (case res of Inl e \<Rightarrow> error_ok (rpc_of_error e) | Inr r \<Rightarrow> opt_ok r)"



subsection \<open>What a run leaves in the pending map\<close>

definition answers :: "string \<Rightarrow> bytes \<Rightarrow> message \<Rightarrow> bool" where
  "answers i payload m = (decode_message payload = Some m \<and> is_response m \<and> id_text m = Some i)"

text \<open>The events that open and end the call with a given id.\<close>

fun touches :: "string \<Rightarrow> ipc_event \<Rightarrow> bool" where
  "touches i (EvCalled j _) = (i = j)"
| "touches i (EvReturned j _) = (i = j)"
| "touches i (EvCancelled j) = (i = j)"
| "touches i (EvLost j) = (i = j)"
| "touches i _ = False"

definition answered_by :: "string \<Rightarrow> ipc_event \<Rightarrow> bool" where
  "answered_by i e = (\<exists>payload m. e = EvReceived payload \<and> answers i payload m)"

text \<open>The entry of an id, read off the events alone.\<close>

fun entry_after :: "string \<Rightarrow> ipc_event \<Rightarrow> message option option \<Rightarrow> message option option" where
  "entry_after i (EvCalled j _) x = (if i = j then Some None else x)"
| "entry_after i (EvReturned j _) x = (if i = j then None else x)"
| "entry_after i (EvCancelled j) x = (if i = j then None else x)"
| "entry_after i (EvLost j) x = (if i = j then None else x)"
| "entry_after i (EvReceived payload) x =
     (case decode_message payload of
        None \<Rightarrow> x
      | Some m \<Rightarrow> if is_response m \<and> id_text m = Some i \<and> x = Some None then Some (Some m) else x)"
| "entry_after i _ x = x"

lemma entry_after_other: "\<not> touches i e \<Longrightarrow> \<not> answered_by i e \<Longrightarrow> entry_after i e x = x"
  by (cases e) (auto simp: answered_by_def answers_def split: option.splits)

lemma ipc_write_keeps:
  "ipc_write f c = (r, c') \<Longrightarrow> pend c' = pend c \<and> next_id c' = next_id c \<and> ipc_closed c' = ipc_closed c"
  by (auto simp: ipc_write_def split: if_splits sum.splits option.splits)

lemma send_ops_keep:
  assumes "write_channel i b c = (r, c') \<or> grant_credit i n c = (r, c') \<or> notify meth params c = (r, c')"
  shows "pend c' = pend c \<and> next_id c' = next_id c \<and> ipc_closed c' = ipc_closed c"
  using assms ipc_write_keeps by (auto simp: write_channel_def grant_credit_def notify_def split: sum.splits)

lemma register_pending_Inr:
  "register_pending c = (Inr i, c') \<Longrightarrow>
     \<not> ipc_closed c \<and> i = call_id (next_id c + 1) \<and> next_id c' = next_id c + 1
     \<and> pend c' = (pend c)(i \<mapsto> None) \<and> ipc_closed c' = ipc_closed c \<and> wrote c' = wrote c"
  by (auto simp: register_pending_def Let_def split: if_splits)

lemma call_send_cases:
  assumes "call_send meth params c = (r, c')"
  obtains (closed) "r = Inl ErrConnClosed" "c' = c" "ipc_closed c"
  | (failed) e where "r = Inl e" "\<not> ipc_closed c" "pend c' = (pend c)(call_id (next_id c + 1) := None)"
      "next_id c' = next_id c + 1" "ipc_closed c' = ipc_closed c"
  | (sent) "r = Inr (call_id (next_id c + 1))" "\<not> ipc_closed c"
      "pend c' = (pend c)(call_id (next_id c + 1) \<mapsto> None)" "next_id c' = next_id c + 1"
      "ipc_closed c' = ipc_closed c"
proof (cases "ipc_closed c")
  case True
  with assms have "r = Inl ErrConnClosed" "c' = c" by (simp_all add: call_send_def register_pending_def)
  with True show thesis using closed by blast
next
  case False
  let ?i = "call_id (next_id c + 1)"
  let ?c1 = "c\<lparr>next_id := next_id c + 1, pend := (pend c)(?i \<mapsto> None)\<rparr>"
  have reg: "register_pending c = (Inr ?i, ?c1)" using False by (simp add: register_pending_def Let_def)
  show thesis
  proof (cases "encode_message (request_message ?i meth params)")
    case (Inl e)
    then have "r = Inl e" "c' = forget_pending ?i ?c1" using assms reg by (simp_all add: call_send_def)
    with False show thesis by (intro failed [of e]) (simp_all add: forget_pending_def)
  next
    case (Inr payload)
    obtain w c2 where w: "ipc_write (control_frame payload) ?c1 = (w, c2)"
      by (cases "ipc_write (control_frame payload) ?c1")
    note keep = ipc_write_keeps [OF w]
    show thesis
    proof (cases w)
      case None
      then have "r = Inr ?i" "c' = c2" using assms reg Inr w by (simp_all add: call_send_def)
      with keep False show thesis by (intro sent) simp_all
    next
      case (Some e)
      then have "r = Inl e" "c' = forget_pending ?i c2" using assms reg Inr w by (simp_all add: call_send_def)
      with keep False show thesis by (intro failed [of e]) (simp_all add: forget_pending_def)
    qed
  qed
qed

lemma dispatch_entry:
  "pend (snd (dispatch_jsonrpc h payload c)) i = entry_after i (EvReceived payload) (pend c i)
   \<and> next_id (snd (dispatch_jsonrpc h payload c)) = next_id c
   \<and> ipc_closed (snd (dispatch_jsonrpc h payload c)) = ipc_closed c
   \<and> wrote (snd (dispatch_jsonrpc h payload c)) = wrote c"
  by (auto simp: dispatch_jsonrpc_def resume_def split: option.splits)

text \<open>
  A new id is fresh unless 2^64 calls have been made, so a failed call removes nothing but its own entry.
\<close>

lemma call_id_inject: "call_id m = call_id n \<longleftrightarrow> m = n"
  by (simp add: call_id_def word_unat_eq_iff)

definition ids_below :: "ipc \<Rightarrow> bool" where
  "ids_below c = (\<forall>i. pend c i \<noteq> None \<longrightarrow> (\<exists>n. i = call_id n \<and> 0 < n \<and> n \<le> next_id c))"

lemma word_less_Suc_not_wrap: "unat (n :: u64) + 1 < 2 ^ 64 \<Longrightarrow> n < n + 1 \<and> unat (n + 1) = unat n + 1"
proof -
  assume "unat n + 1 < 2 ^ 64"
  then have "unat (n + 1) = unat n + 1" using unat_add_lem [of n 1] by simp
  then show ?thesis by (simp add: word_less_nat_alt)
qed

lemma fresh_id:
  assumes "ids_below c" and "unat (next_id c) + 1 < 2 ^ 64"
  shows "pend c (call_id (next_id c + 1)) = None"
proof (rule ccontr)
  assume "pend c (call_id (next_id c + 1)) \<noteq> None"
  then have "next_id c + 1 \<le> next_id c" using assms(1) by (auto simp: ids_below_def call_id_inject)
  then show False using word_less_Suc_not_wrap [OF assms(2)] by (meson linorder_not_less)
qed

lemma ipc_step_ids:
  assumes "ipc_step c e c'" and "ids_below c" and "unat (next_id c) + 1 < 2 ^ 64"
  shows "ids_below c' \<and> unat (next_id c') \<le> unat (next_id c) + 1"
proof -
  note wrap = word_less_Suc_not_wrap [OF assms(3)]
  have grow: "ids_below c'"
    if nid: "next_id c' = next_id c + 1"
      and sub: "\<And>i. pend c' i \<noteq> None \<Longrightarrow> pend c i \<noteq> None \<or> i = call_id (next_id c + 1)" for c'
    unfolding ids_below_def
  proof (intro allI impI)
    fix i assume "pend c' i \<noteq> None"
    then consider "pend c i \<noteq> None" | "i = call_id (next_id c + 1)" using sub by blast
    then show "\<exists>n. i = call_id n \<and> 0 < n \<and> n \<le> next_id c'"
    proof cases
      case 1
      then obtain n where "i = call_id n" "0 < n" "n \<le> next_id c" using assms(2) by (auto simp: ids_below_def)
      then have "n \<le> next_id c'" using nid wrap by (metis order.strict_implies_order order_trans)
      with \<open>i = call_id n\<close> \<open>0 < n\<close> show ?thesis by blast
    next
      case 2
      then show ?thesis using nid wrap by (intro exI [of _ "next_id c + 1"]) (metis order_refl unat_eq_zero Suc_eq_plus1 nat.distinct(1) word_gt_0)
    qed
  qed
  have same: "ids_below c'" if "next_id c' = next_id c" "\<And>i. pend c' i \<noteq> None \<Longrightarrow> pend c i \<noteq> None" for c'
    using assms(2) that unfolding ids_below_def by auto
  show ?thesis
    using assms(1)
  proof cases
    case (called meth params i)
    from called(2) show ?thesis
    proof (cases rule: call_send_cases)
      case sent
      with wrap show ?thesis by (intro conjI grow) auto
    qed (use grow same wrap in auto)
  next
    case (refused meth params e)
    from refused(2) show ?thesis
    proof (cases rule: call_send_cases)
      case closed
      then show ?thesis using assms(2) by simp
    next
      case (failed e)
      with wrap show ?thesis by (intro conjI grow) (auto split: if_splits)
    next
      case sent
      then show ?thesis by simp
    qed
  next
    case (received payload h)
    have "pend c i \<noteq> None" if "pend c' i \<noteq> None" for i
      using that dispatch_entry [of h payload c i] unfolding received(2) by (auto split: option.splits if_splits)
    then show ?thesis using dispatch_entry [of h payload c] unfolding received(2) by (intro conjI same) simp_all
  next
    case (served m res)
    obtain w c2 where "ipc_write (control_frame (reply_payload m res)) c = (w, c2)"
      by (cases "ipc_write (control_frame (reply_payload m res)) c")
    then show ?thesis using served assms(2) by (auto simp: serve_inbound_def ids_below_def dest!: ipc_write_keeps)
  next
    case (sent i b n meth params)
    then show ?thesis using send_ops_keep [OF sent(2)] same [of c'] by simp
  next
    case (unsent i b e n meth params)
    then show ?thesis using send_ops_keep [OF unsent(2)] same [of c'] by simp
  qed (use assms(2) in \<open>auto simp: ids_below_def forget_pending_def ipc_close_def\<close>)
qed

lemma ipc_step_entry:
  assumes "ipc_step c e c'" and "ids_below c" and "unat (next_id c) + 1 < 2 ^ 64"
  shows "pend c' i = entry_after i e (pend c i)"
  using assms(1)
proof cases
  case (called meth params j)
  from called(2) show ?thesis by (cases rule: call_send_cases) (auto simp: called(1))
next
  case (refused meth params e')
  from refused(2) show ?thesis
  proof (cases rule: call_send_cases)
    case failed
    then show ?thesis using fresh_id [OF assms(2,3)] by (auto simp: refused(1))
  qed (simp_all add: refused(1))
next
  case (received payload h)
  then show ?thesis using dispatch_entry [of h payload c i] by simp
next
  case (served m res)
  obtain w c2 where w: "ipc_write (control_frame (reply_payload m res)) c = (w, c2)"
    by (cases "ipc_write (control_frame (reply_payload m res)) c")
  then show ?thesis using ipc_write_keeps [OF w] served by (simp add: serve_inbound_def)
next
  case (sent j b n meth params)
  then show ?thesis using send_ops_keep [OF sent(2)] by simp
next
  case (unsent j b e' n meth params)
  then show ?thesis using send_ops_keep [OF unsent(2)] by simp
qed (auto simp: forget_pending_def ipc_close_def)

lemma ipc_steps_snocE:
  assumes "ipc_steps c (es @ [e]) d"
  obtains c1 where "ipc_steps c es c1" and "ipc_step c1 e d"
  using assms by (cases rule: ipc_steps.cases) auto

lemma ipc_steps_ids:
  "ipc_steps new_ipc es c \<Longrightarrow> length es < 2 ^ 63 \<Longrightarrow> ids_below c \<and> unat (next_id c) \<le> length es"
proof (induction es arbitrary: c rule: rev_induct)
  case Nil
  then show ?case by (auto simp: new_ipc_def ids_below_def elim: ipc_steps.cases)
next
  case (snoc e es)
  from snoc.prems(1) obtain c1 where c1: "ipc_steps new_ipc es c1" "ipc_step c1 e c" by (rule ipc_steps_snocE)
  then have IH: "ids_below c1" "unat (next_id c1) \<le> length es" using snoc by simp_all
  then have "unat (next_id c1) + 1 < 2 ^ 64" using snoc.prems(2) by simp
  then show ?case using ipc_step_ids [OF c1(2) IH(1)] IH(2) by simp
qed

text \<open>The pending map is what the events say it is.\<close>

lemma pending_is_log:
  "ipc_steps new_ipc es c \<Longrightarrow> length es < 2 ^ 63 \<Longrightarrow> pend c i = fold (entry_after i) es None"
proof (induction es arbitrary: c rule: rev_induct)
  case Nil
  then show ?case by (auto simp: new_ipc_def elim: ipc_steps.cases)
next
  case (snoc e es)
  from snoc.prems(1) obtain c1 where c1: "ipc_steps new_ipc es c1" "ipc_step c1 e c" by (rule ipc_steps_snocE)
  then have "unat (next_id c1) + 1 < 2 ^ 64" "ids_below c1"
    using ipc_steps_ids [OF c1(1)] snoc.prems(2) by simp_all
  then show ?case using ipc_step_entry [OF c1(2)] snoc.IH [OF c1(1)] snoc.prems(2) by simp
qed

lemma entry_open:
  "fold (entry_after i) es None = Some None \<Longrightarrow>
     \<exists>a meth b. es = a @ EvCalled i meth # b \<and> (\<forall>e \<in> set b. \<not> touches i e \<and> \<not> answered_by i e)"
proof (induction es rule: rev_induct)
  case (snoc e es)
  show ?case
  proof (cases "touches i e")
    case True
    with snoc.prems obtain meth where "e = EvCalled i meth" by (cases e) (auto split: if_splits)
    then show ?thesis by (intro exI [of _ es] exI [of _ meth] exI [of _ "[]"]) simp
  next
    case False
    then have "fold (entry_after i) es None = Some None" "\<not> answered_by i e"
      using snoc.prems by (cases e; auto simp: answered_by_def answers_def split: option.splits if_splits)+
    with snoc.IH obtain a meth b where "es = a @ EvCalled i meth # b"
      "\<forall>e \<in> set b. \<not> touches i e \<and> \<not> answered_by i e" by blast
    with False \<open>\<not> answered_by i e\<close> show ?thesis
      by (intro exI [of _ a] exI [of _ meth] exI [of _ "b @ [e]"]) auto
  qed
qed simp

lemma entry_answered:
  "fold (entry_after i) es None = Some (Some m) \<Longrightarrow>
     \<exists>a meth b payload d. es = a @ EvCalled i meth # b @ EvReceived payload # d \<and> answers i payload m
       \<and> (\<forall>e \<in> set b. \<not> touches i e \<and> \<not> answered_by i e) \<and> (\<forall>e \<in> set d. \<not> touches i e)"
proof (induction es rule: rev_induct)
  case (snoc e es)
  show ?case
  proof (cases "fold (entry_after i) es None = Some (Some m) \<and> \<not> touches i e")
    case True
    with snoc.IH obtain a meth b payload d where "es = a @ EvCalled i meth # b @ EvReceived payload # d"
      "answers i payload m" "\<forall>e \<in> set b. \<not> touches i e \<and> \<not> answered_by i e" "\<forall>e \<in> set d. \<not> touches i e" by blast
    with True show ?thesis
      by (intro exI [of _ a] exI [of _ meth] exI [of _ b] exI [of _ payload] exI [of _ "d @ [e]"]) auto
  next
    case False
    then obtain payload where e: "e = EvReceived payload" "answers i payload m"
      and op: "fold (entry_after i) es None = Some None"
      using snoc.prems by (cases e) (auto simp: answers_def split: option.splits if_splits)
    from entry_open [OF op] obtain a meth b where "es = a @ EvCalled i meth # b"
      "\<forall>e \<in> set b. \<not> touches i e \<and> \<not> answered_by i e" by blast
    with e show ?thesis
      by (intro exI [of _ a] exI [of _ meth] exI [of _ b] exI [of _ payload] exI [of _ "[]"]) simp
  qed
qed simp

text \<open>
  C4. A call gets the answer to its own request: in every interleaving of callers, reader and handlers, the
  result a call returns is that of a response the host sent after this call was made, under this call's id,
  the first one; no other call is between them.
\<close>

theorem call_gets_its_answer:
  assumes "ipc_steps new_ipc (es @ [EvReturned i r]) c" and "length es < 2 ^ 63"
  shows "\<exists>a meth b payload d m. es = a @ EvCalled i meth # b @ EvReceived payload # d \<and> answers i payload m
     \<and> r = message_result m \<and> (\<forall>e \<in> set b. \<not> touches i e \<and> \<not> answered_by i e) \<and> (\<forall>e \<in> set d. \<not> touches i e)"
proof -
  from assms(1) obtain c1 where c1: "ipc_steps new_ipc es c1" "ipc_step c1 (EvReturned i r) c"
    by (rule ipc_steps_snocE)
  from c1(2) obtain m where m: "pend c1 i = Some (Some m)" "r = message_result m"
    by (cases rule: ipc_step.cases) auto
  then have "fold (entry_after i) es None = Some (Some m)" using pending_is_log [OF c1(1) assms(2)] by simp
  from entry_answered [OF this] m(2) show ?thesis by blast
qed

lemma called_ids:
  "ipc_steps new_ipc es c \<Longrightarrow> length es < 2 ^ 63 \<Longrightarrow> EvCalled i meth \<in> set es \<Longrightarrow>
     \<exists>n. i = call_id n \<and> unat n \<le> unat (next_id c)"
proof (induction es arbitrary: c rule: rev_induct)
  case (snoc e es)
  from snoc.prems(1) obtain c1 where c1: "ipc_steps new_ipc es c1" "ipc_step c1 e c" by (rule ipc_steps_snocE)
  have ids: "ids_below c1" "unat (next_id c1) + 1 < 2 ^ 64"
    using ipc_steps_ids [OF c1(1)] snoc.prems(2) by simp_all
  note wrap = word_less_Suc_not_wrap [OF ids(2)]
  have mono: "unat (next_id c1) \<le> unat (next_id c)"
    using c1(2)
  proof cases
    case (called meth params j)
    from called(2) show ?thesis by (cases rule: call_send_cases) (use wrap in auto)
  next
    case (refused meth params e')
    from refused(2) show ?thesis by (cases rule: call_send_cases) (use wrap in auto)
  next
    case (received payload h)
    then show ?thesis using dispatch_entry [of h payload c1] by simp
  next
    case (served m res)
    obtain w c2 where w: "ipc_write (control_frame (reply_payload m res)) c1 = (w, c2)"
      by (cases "ipc_write (control_frame (reply_payload m res)) c1")
    then show ?thesis using ipc_write_keeps [OF w] served by (simp add: serve_inbound_def)
  next
    case (sent j b n meth params)
    then show ?thesis using send_ops_keep [OF sent(2)] by simp
  next
    case (unsent j b e' n meth params)
    then show ?thesis using send_ops_keep [OF unsent(2)] by simp
  qed (simp_all add: forget_pending_def ipc_close_def)
  show ?case
  proof (cases "EvCalled i meth \<in> set es")
    case True
    then obtain n where "i = call_id n" "unat n \<le> unat (next_id c1)"
      using snoc.IH [OF c1(1)] snoc.prems(2) by auto
    with mono show ?thesis using order_trans by blast
  next
    case False
    then have "e = EvCalled i meth" using snoc.prems(3) by simp
    with c1(2) obtain params where "call_send meth params c1 = (Inr i, c)" by (cases rule: ipc_step.cases) auto
    then show ?thesis by (cases rule: call_send_cases) auto
  qed
qed simp

lemma new_call_fresh:
  assumes "ipc_steps new_ipc (es @ [EvCalled i meth]) c" and "length es < 2 ^ 62"
  shows "EvCalled i method' \<notin> set es"
proof
  assume called: "EvCalled i method' \<in> set es"
  from assms(1) obtain c1 where c1: "ipc_steps new_ipc es c1" "ipc_step c1 (EvCalled i meth) c"
    by (rule ipc_steps_snocE)
  from c1(2) obtain params where "call_send meth params c1 = (Inr i, c)" by (cases rule: ipc_step.cases) auto
  then have i: "i = call_id (next_id c1 + 1)" by (cases rule: call_send_cases) auto
  have small: "unat (next_id c1) + 1 < 2 ^ 64" using ipc_steps_ids [OF c1(1)] assms(2) by simp
  obtain n where "i = call_id n" "unat n \<le> unat (next_id c1)"
    using called_ids [OF c1(1) _ called] assms(2) by auto
  then show False using i word_less_Suc_not_wrap [OF small] by (simp add: call_id_inject)
qed

lemma entry_absent:
  "fold (entry_after i) (EvCalled i m # es) x = None \<longleftrightarrow> fold (entry_after i) es (Some None) = None"
  by simp

lemma entry_stays_absent:
  "\<forall>e \<in> set es. \<not> (\<exists>m. e = EvCalled i m) \<Longrightarrow> fold (entry_after i) es None = None"
proof (induction es)
  case (Cons e es)
  then have "entry_after i e None = None" by (cases e) (auto split: option.splits)
  with Cons show ?case by simp
qed simp

lemma ipc_steps_prefix:
  "ipc_steps c (us @ vs) d \<Longrightarrow> \<exists>d'. ipc_steps c us d'"
proof (induction vs arbitrary: d rule: rev_induct)
  case (snoc v vs)
  then have "ipc_steps c ((us @ vs) @ [v]) d" by simp
  then obtain d1 where "ipc_steps c (us @ vs) d1" by (rule ipc_steps_snocE)
  then show ?case by (rule snoc.IH)
qed auto

lemma calls_distinct:
  assumes "ipc_steps new_ipc (xs @ EvCalled i m # ys @ EvCalled i m' # zs) c"
    and "length (xs @ EvCalled i m # ys @ EvCalled i m' # zs) < 2 ^ 62"
  shows False
proof -
  have "ipc_steps new_ipc (((xs @ EvCalled i m # ys) @ [EvCalled i m']) @ zs) c" using assms(1) by simp
  then obtain d where "ipc_steps new_ipc ((xs @ EvCalled i m # ys) @ [EvCalled i m']) d"
    using ipc_steps_prefix by blast
  then have "EvCalled i m \<notin> set (xs @ EvCalled i m # ys)"
    by (rule new_call_fresh) (use assms(2) in simp)
  then show False by simp
qed

lemma ended_call_gone:
  assumes "ipc_steps new_ipc (xs @ e # ys) c" and "length (xs @ e # ys) < 2 ^ 62"
    and "touches i e" and "\<forall>x. e \<noteq> EvCalled i x"
  shows "pend c i = None"
proof -
  have "ipc_steps new_ipc ((xs @ [e]) @ ys) c" using assms(1) by simp
  then obtain d where "ipc_steps new_ipc (xs @ [e]) d" using ipc_steps_prefix by blast
  then obtain d0 where d0: "ipc_steps new_ipc xs d0" "ipc_step d0 e d" by (rule ipc_steps_snocE)
  have "pend d0 i \<noteq> None" using d0(2) assms(3,4) by (cases rule: ipc_step.cases) auto
  then have "fold (entry_after i) xs None \<noteq> None" using pending_is_log [OF d0(1)] assms(2) by simp
  then obtain x where "EvCalled i x \<in> set xs" by (metis entry_stays_absent)
  then obtain ys1 ys2 where xs: "xs = ys1 @ EvCalled i x # ys2" by (meson split_list)
  have "\<forall>e' \<in> set ys. \<not> (\<exists>x'. e' = EvCalled i x')"
  proof (intro ballI notI, elim exE)
    fix e' x' assume e': "e' \<in> set ys" "e' = EvCalled i x'"
    then obtain u v where "ys = u @ EvCalled i x' # v" by (meson split_list)
    then show False using calls_distinct [of ys1 i x "ys2 @ e # u" x' v c] assms(1,2) xs by simp
  qed
  then have "fold (entry_after i) ys None = None" by (rule entry_stays_absent)
  moreover have "entry_after i e y = None" for y
    using assms(3,4) by (cases e) auto
  ultimately have "fold (entry_after i) (xs @ e # ys) None = None" by simp
  then show ?thesis using pending_is_log [OF assms(1)] assms(2) by simp
qed

text \<open>
  Ids are not reused and nothing leaks: two calls of one run never carry the same id; and once a call
  has ended (answered, cancelled or lost), its entry is gone and a late response to it changes nothing.
\<close>

theorem call_ids_and_leaks:
  assumes "ipc_steps new_ipc es c" and "length es < 2 ^ 62"
  shows "(\<forall>xs i m ys m' zs. es \<noteq> xs @ EvCalled i m # ys @ EvCalled i m' # zs)
    \<and> (\<forall>xs e ys i. es = xs @ e # ys \<and> touches i e \<and> (\<forall>x. e \<noteq> EvCalled i x) \<longrightarrow>
          pend c i = None \<and> (\<forall>payload m h. answers i payload m \<longrightarrow> snd (dispatch_jsonrpc h payload c) = c))"
proof (intro conjI allI impI notI)
  show False if "es = xs @ EvCalled i m # ys @ EvCalled i m' # zs" for xs i m ys m' zs
    by (rule calls_distinct [of xs i m ys m' zs c]) (use assms that in simp_all)
next
  fix xs e ys i
  assume "es = xs @ e # ys \<and> touches i e \<and> (\<forall>x. e \<noteq> EvCalled i x)"
  then have e: "es = xs @ e # ys" "touches i e" "\<forall>x. e \<noteq> EvCalled i x" by blast+
  show gone: "pend c i = None"
    by (rule ended_call_gone [OF assms(1) [unfolded e(1)] assms(2) [unfolded e(1)] e(2,3)])
  show "snd (dispatch_jsonrpc h payload c) = c" if "answers i payload m" for payload m h
    using gone that by (simp add: dispatch_jsonrpc_def resume_def answers_def)
qed

definition sample_answer :: bytes where
  "sample_answer = bytes_of (print_json (JObj [(''id'', JStr ''d1''), (''result'', JNum ''7'')]))"

definition answer_message :: message where
  "answer_message = empty_message\<lparr>mId := Some (JStr ''d1''), mResult := Some (JNum ''7'')\<rparr>"

lemma sample_answer_decoded: "decode_message sample_answer = Some answer_message"
proof -
  have "decode_all dec_message empty_message (print_json (JObj [(''id'', JStr ''d1''), (''result'', JNum ''7'')]))
      = Some answer_message"
  proof -
    have "json_ok (JObj [(''id'', JStr ''d1''), (''result'', JNum ''7'')])" by code_simp
    then show ?thesis
      by (simp add: decode_all_def parse_all_print dec_message_obj unquote_keys message_select_keys lens_def
          dec_raw_def answer_message_def del: print_json.simps)
  qed
  then show ?thesis by (simp add: decode_message_def sample_answer_def del: print_json.simps)
qed

lemma sample_answer_answers: "answers ''d1'' sample_answer answer_message"
proof -
  have "unquote ''d1'' = ''d1''" by code_simp
  then show ?thesis
    by (simp add: answers_def sample_answer_decoded answer_message_def is_response_def id_text_def empty_message_def)
qed

lemma sample_run:
  "\<exists>c. ipc_steps new_ipc [EvCalled ''d1'' ''ping'', EvReceived sample_answer, EvReturned ''d1'' (Inr (Some (JNum ''7'')))] c"
proof -
  have "digit_char 1 = CHR ''1''"
    unfolding digit_char_def by (rule of_char_eqI [where 'a = nat]) simp
  moreover have "dec_nat (unat (1 :: u64)) = [digit_char 1]" by (simp add: dec_nat.simps)
  ultimately have one: "call_id 1 = ''d1''" unfolding call_id_def by (simp only:)
  have q: "quote ''2.0'' = ''2.0''" "quote ''d1'' = ''d1''" "quote ''ping'' = ''ping''" by code_simp+
  have "length (print_json (message_json (request_message ''d1'' ''ping'' None\<lparr>mJsonrpc := ''2.0''\<rparr>))) \<le> 1000"
    by (simp add: request_message_def message_json_def opt_member_def json_str_def q empty_message_def)
  then obtain b where b: "encode_message (request_message ''d1'' ''ping'' None) = Inr b" "length b \<le> 1000"
    by (simp add: bytes_length_print MaxJSONRPCFrame_def)
  have "frame_ok (control_frame b)"
    using b(2) by (simp add: frame_ok_def control_frame_def valid_kind_def kind_consts MaxFrameLength_def)
  then obtain c1 where c1: "call_send ''ping'' None new_ipc = (Inr ''d1'', c1)"
    using b(1) one by (auto simp: call_send_def register_pending_def new_ipc_def ipc_write_def write_frame_ok Let_def)
  have p1: "pend c1 ''d1'' = Some None" "\<not> ipc_closed c1"
    using c1 one by (auto elim: call_send_cases simp: new_ipc_def)
  let ?c2 = "snd (dispatch_jsonrpc True sample_answer c1)"
  have p2: "pend ?c2 ''d1'' = Some (Some answer_message)"
    using dispatch_entry [of True sample_answer c1 "''d1''"] sample_answer_answers p1(1)
    by (simp add: answers_def)
  have "message_result answer_message = Inr (Some (JNum ''7''))"
    by (simp add: message_result_def answer_message_def empty_message_def)
  then have step3: "ipc_step ?c2 (EvReturned ''d1'' (Inr (Some (JNum ''7'')))) (forget_pending ''d1'' ?c2)"
    using ipc_step.returned [of ?c2 "''d1''", OF p2] by simp
  have "ipc_steps new_ipc ([] @ [EvCalled ''d1'' ''ping'']) c1"
    by (rule ipc_steps.snoc [OF ipc_steps.none ipc_step.called [OF c1]])
  then have "ipc_steps new_ipc (([] @ [EvCalled ''d1'' ''ping'']) @ [EvReceived sample_answer]) ?c2"
    by (rule ipc_steps.snoc) (rule ipc_step.received [OF p1(2)])
  from ipc_steps.snoc [OF this step3] show ?thesis by auto
qed

lemma call_gets_its_answer_witness:
  "\<exists>a meth b payload d m. [EvCalled ''d1'' ''ping'', EvReceived sample_answer] = a @ EvCalled ''d1'' meth # b @ EvReceived payload # d
     \<and> answers ''d1'' payload m \<and> message_result m = Inr (Some (JNum ''7''))"
proof -
  obtain c where "ipc_steps new_ipc ([EvCalled ''d1'' ''ping'', EvReceived sample_answer] @ [EvReturned ''d1'' (Inr (Some (JNum ''7'')))]) c"
    using sample_run by auto
  moreover have "length [EvCalled ''d1'' ''ping'', EvReceived sample_answer] < 2 ^ 63" by simp
  ultimately show ?thesis using call_gets_its_answer by (metis (no_types, lifting))
qed

lemma call_ids_and_leaks_witness:
  "\<exists>c. pend c ''d1'' = None \<and> snd (dispatch_jsonrpc True sample_answer c) = c
     \<and> ipc_steps new_ipc [EvCalled ''d1'' ''ping'', EvReceived sample_answer, EvReturned ''d1'' (Inr (Some (JNum ''7'')))] c"
proof -
  obtain c where c: "ipc_steps new_ipc [EvCalled ''d1'' ''ping'', EvReceived sample_answer, EvReturned ''d1'' (Inr (Some (JNum ''7'')))] c"
    using sample_run by blast
  have "length [EvCalled ''d1'' ''ping'', EvReceived sample_answer, EvReturned ''d1'' (Inr (Some (JNum ''7'')))] < 2 ^ 62"
    by simp
  from call_ids_and_leaks [OF c this]
  have ended: "\<forall>xs e ys i. [EvCalled ''d1'' ''ping'', EvReceived sample_answer, EvReturned ''d1'' (Inr (Some (JNum ''7'')))] = xs @ e # ys
      \<and> touches i e \<and> (\<forall>x. e \<noteq> EvCalled i x) \<longrightarrow>
      pend c i = None \<and> (\<forall>payload m h. answers i payload m \<longrightarrow> snd (dispatch_jsonrpc h payload c) = c)"
    by (rule conjunct2)
  have "pend c ''d1'' = None \<and> (\<forall>payload m h. answers ''d1'' payload m \<longrightarrow> snd (dispatch_jsonrpc h payload c) = c)"
    by (rule ended [rule_format, of "[EvCalled ''d1'' ''ping'', EvReceived sample_answer]" "EvReturned ''d1'' (Inr (Some (JNum ''7'')))" "[]"]) simp
  then have "pend c ''d1'' = None \<and> snd (dispatch_jsonrpc True sample_answer c) = c"
    using sample_answer_answers by blast
  with c show ?thesis by blast
qed

text \<open>
  After the connection has ended the plugin is silent and nothing hangs: no frame is written any more,
  no call or send succeeds, and every call still waiting can give up with the closed error.
\<close>

theorem closed_is_silent:
  assumes "ipc_step c e c'" and "ipc_closed c"
  shows "ipc_closed c' \<and> wrote c' = wrote c \<and> (\<forall>i m. e \<noteq> EvCalled i m) \<and> (\<forall>f. e \<noteq> EvSent f)
    \<and> (\<forall>i. pend c i \<noteq> None \<longrightarrow> ipc_step c (EvLost i) (forget_pending i c))"
proof -
  have w: "ipc_write f c = (Some ErrConnClosed, c)" for f using assms(2) by (simp add: ipc_write_def)
  have sends: "write_channel i b c = (Some ErrConnClosed, c)" "grant_credit i n c = (Some ErrConnClosed, c)" for i b n
    unfolding write_channel_def grant_credit_def by (rule w)+
  have told: "\<exists>x. notify meth params c = (Some x, c)" for meth params
    unfolding notify_def by (cases "encode_message (empty_message\<lparr>mMethod := meth, mParams := params\<rparr>)") (simp_all add: w)
  have lost: "pend c i \<noteq> None \<Longrightarrow> ipc_step c (EvLost i) (forget_pending i c)" for i
    using ipc_step.lost [OF _ assms(2)] by auto
  from assms(1) have "ipc_closed c' \<and> wrote c' = wrote c \<and> (\<forall>i m. e \<noteq> EvCalled i m) \<and> (\<forall>f. e \<noteq> EvSent f)"
  proof cases
    case (called meth params i)
    from called(2) show ?thesis by (cases rule: call_send_cases) (use assms(2) in auto)
  next
    case (refused meth params e')
    from refused(2) show ?thesis by (cases rule: call_send_cases) (use assms(2) refused(1) in auto)
  next
    case (sent i b n meth params)
    then show ?thesis using sends(1) [of i b] sends(2) [of i n] told [of meth params] by auto
  next
    case (unsent i b e' n meth params)
    then show ?thesis using assms(2) sends(1) [of i b] sends(2) [of i n] told [of meth params] by auto
  qed (use assms(2) w in \<open>auto simp: forget_pending_def ipc_close_def serve_inbound_def\<close>)
  with lost show ?thesis by blast
qed

lemma closed_is_silent_witness:
  "ipc_closed (ipc_close new_ipc) \<and> wrote (serve_inbound sample_call (Inr None) (ipc_close new_ipc)) = []"
  using closed_is_silent [OF ipc_step.served, of "ipc_close new_ipc" sample_call "Inr None"]
  by (simp add: ipc_close_def new_ipc_def)

end
