(* ===== verification/Manager.thy ===== *)
theory Manager
  imports Channel Rpc
begin

text \<open>
  The channel manager (\<open>internal/infra/chanbus/manager.go\<close>) over the JSON-RPC client. Channels are Go
  pointers: a heap holds every channel made, by reference, and the manager's map takes a host channel id to
  a reference. The map iteration of \<open>CloseAll\<close> runs in any order, which is an argument.
\<close>

record manager =
  mipc :: ipc
  chans :: "nat \<Rightarrow> channel option"
  next_ref :: nat
  chan_map :: "u32 \<Rightarrow> nat option"

definition new_manager :: "ipc \<Rightarrow> manager" where
  "new_manager c = \<lparr>mipc = c, chans = (\<lambda>_. None), next_ref = 0, chan_map = (\<lambda>_. None)\<rparr>"

definition upd_chan :: "nat \<Rightarrow> (channel \<Rightarrow> channel) \<Rightarrow> manager \<Rightarrow> manager" where
  "upd_chan r f m = m\<lparr>chans := (chans m)(r := map_option f (chans m r))\<rparr>"

subsection \<open>Opening\<close>

definition execTemplate :: nat where "execTemplate = 0"

definition exec_hint :: json where
  "exec_hint = JObj [(''template'', json_nat execTemplate)]"

definition open_request :: "string \<Rightarrow> json" where
  "open_request session =
     JObj [(''purpose'', json_str ''exec''), (''parentSessionId'', json_str session),
           (''hint'', json_str (print_json exec_hint))]"

definition dec_channel_id :: "int dec" where
  "dec_channel_id = dec_struct [(''channelId'', dec_u32)]"

text \<open>\<open>OpenExec\<close> sends its call; when the answer is there (\<open>res\<close>), it makes the channel and enters it.\<close>

definition open_exec_call :: "string \<Rightarrow> manager \<Rightarrow> (go_error + string) \<times> manager" where
  "open_exec_call session m =
     (case call_send ''channel.open'' (Some (open_request session)) (mipc m) of
        (Inl e, c) \<Rightarrow> (Inl (wrap_open_exec e), m\<lparr>mipc := c\<rparr>)
      | (Inr i, c) \<Rightarrow> (Inr i, m\<lparr>mipc := c\<rparr>))"

definition open_exec_finish :: "go_error + json option \<Rightarrow> manager \<Rightarrow> (go_error + nat) \<times> manager" where
  "open_exec_finish res m =
     (case res of
        Inl e \<Rightarrow> (Inl (wrap_open_exec e), m)
      | Inr raw \<Rightarrow>
          (case (case raw of None \<Rightarrow> None | Some j \<Rightarrow> dec_channel_id j 0) of
             None \<Rightarrow> (Inl (EText ''chanbus: decode channel id''), m)
           | Some n \<Rightarrow>
               (let i = of_int n; r = next_ref m in
                (Inr r, m\<lparr>chans := (chans m)(r \<mapsto> new_channel i initialCredit), next_ref := r + 1,
                          chan_map := (chan_map m)(i \<mapsto> r)\<rparr>))))"

subsection \<open>Routing what arrives\<close>

definition manager_deliver :: "u32 \<Rightarrow> bytes \<Rightarrow> manager \<Rightarrow> manager" where
  "manager_deliver i payload m =
     (case chan_map m i of None \<Rightarrow> m | Some r \<Rightarrow> upd_chan r (deliver payload) m)"

definition manager_credit :: "u32 \<Rightarrow> u32 \<Rightarrow> manager \<Rightarrow> manager" where
  "manager_credit i n m =
     (case chan_map m i of None \<Rightarrow> m | Some r \<Rightarrow> upd_chan r (add_credit n) m)"

record close_note =
  cnChannel :: int
  cnReason :: string
  cnMessage :: string

definition dec_close_note :: "close_note dec" where
  "dec_close_note = dec_struct
     [(''channelId'', lens cnChannel cnChannel_update dec_u32), (''reason'', lens cnReason cnReason_update dec_str),
      (''message'', lens cnMessage cnMessage_update dec_str)]"

definition close_reason :: "close_note \<Rightarrow> string" where
  "close_reason n = (if cnMessage n = [] then cnReason n else cnMessage n)"

definition forget_channel :: "u32 \<Rightarrow> manager \<Rightarrow> manager" where
  "forget_channel i m = m\<lparr>chan_map := (chan_map m)(i := None)\<rparr>"

definition apply_close_note :: "close_note \<Rightarrow> manager \<Rightarrow> manager" where
  "apply_close_note n m =
     (let i = of_int (cnChannel n); m1 = forget_channel i m in
      case chan_map m i of
        None \<Rightarrow> m1
      | Some r \<Rightarrow> upd_chan r (close_remote (close_reason n)) m1)"

definition host_closed :: "json option \<Rightarrow> manager \<Rightarrow> manager" where
  "host_closed params m =
     (case (case params of None \<Rightarrow> None | Some j \<Rightarrow> dec_close_note j \<lparr>cnChannel = 0, cnReason = [], cnMessage = []\<rparr>) of
        None \<Rightarrow> m
      | Some n \<Rightarrow> apply_close_note n m)"

subsection \<open>The transport of the channels\<close>

definition chan_error :: "go_error \<Rightarrow> chan_err" where
  "chan_error e = ErrTransport (err_text e)"

definition manager_write :: "ipc \<Rightarrow> u32 \<Rightarrow> bytes \<Rightarrow> chan_err option \<times> ipc" where
  "manager_write c i b = (let (r, c') = write_channel i b c in (map_option chan_error r, c'))"

definition manager_grant :: "u32 \<Rightarrow> u32 \<Rightarrow> manager \<Rightarrow> manager" where
  "manager_grant i n m = m\<lparr>mipc := snd (grant_credit i n (mipc m))\<rparr>"

definition close_params :: "u32 \<Rightarrow> string \<Rightarrow> json" where
  "close_params i reason = JObj [(''channelId'', json_nat (unat i)), (''reason'', json_str reason)]"

definition close_channel :: "u32 \<Rightarrow> string \<Rightarrow> manager \<Rightarrow> manager" where
  "close_channel i reason m =
     (let m1 = forget_channel i m in
      m1\<lparr>mipc := snd (notify ''channel.close'' (Some (close_params i reason)) (mipc m1))\<rparr>)"

text \<open>The operations of one channel of this manager, by reference.\<close>

definition stream_read :: "nat \<Rightarrow> nat \<Rightarrow> manager \<Rightarrow> (chan_err + bytes) option \<times> manager" where
  "stream_read r k m =
     (case chans m r of
        None \<Rightarrow> (None, m)
      | Some c \<Rightarrow>
          (case chan_read k c of
             None \<Rightarrow> (None, m)
           | Some (res, grant, c') \<Rightarrow>
               (let m1 = m\<lparr>chans := (chans m)(r \<mapsto> c')\<rparr> in
                (Some res, if grant > 0 then manager_grant (ch_id c) grant m1 else m1))))"

definition stream_write :: "nat \<Rightarrow> bytes \<Rightarrow> nat \<Rightarrow> manager \<Rightarrow> write_result \<times> manager" where
  "stream_write r p written m =
     (case chans m r of
        None \<Rightarrow> (WBlocked written, m)
      | Some c \<Rightarrow>
          (case chan_write manager_write p written (mipc m) c of
             (res, w, c') \<Rightarrow> (res, m\<lparr>mipc := w, chans := (chans m)(r \<mapsto> c')\<rparr>)))"

definition stream_close :: "nat \<Rightarrow> manager \<Rightarrow> manager" where
  "stream_close r m =
     (case chans m r of
        None \<Rightarrow> m
      | Some c \<Rightarrow>
          (let (tell, c') = chan_close c; m1 = m\<lparr>chans := (chans m)(r \<mapsto> c')\<rparr> in
           if tell then close_channel (ch_id c) ''done'' m1 else m1))"

definition close_all :: "nat list \<Rightarrow> manager \<Rightarrow> manager" where
  "close_all order m = fold stream_close order (m\<lparr>chan_map := (\<lambda>_. None)\<rparr>)"

subsection \<open>The invariant\<close>

definition man_inv :: "manager \<Rightarrow> bool" where
  "man_inv m =
     ((\<forall>r. next_ref m \<le> r \<longrightarrow> chans m r = None)
      \<and> (\<forall>i r. chan_map m i = Some r \<longrightarrow> (\<exists>c. chans m r = Some c \<and> ch_id c = i \<and> \<not> closed c))
      \<and> (\<forall>r c. chans m r = Some c \<longrightarrow> chan_inv c))"

lemma man_inv_new: "man_inv (new_manager c)"
  by (simp add: man_inv_def new_manager_def)

lemma man_inv_mapped:
  "man_inv m \<Longrightarrow> chan_map m i = Some r \<Longrightarrow> \<exists>c. chans m r = Some c \<and> ch_id c = i \<and> \<not> closed c \<and> chan_inv c"
  unfolding man_inv_def by blast

lemma man_inv_ipc [simp]: "man_inv (m\<lparr>mipc := c\<rparr>) = man_inv m"
  by (simp add: man_inv_def)

lemma man_inv_forget: "man_inv m \<Longrightarrow> man_inv (forget_channel i m)"
  by (simp add: man_inv_def forget_channel_def)

lemma man_inv_set:
  assumes "man_inv m" and "chans m r = Some c" and "chan_inv c'" and "ch_id c' = ch_id c"
    and "closed c' \<Longrightarrow> \<forall>i. chan_map m i \<noteq> Some r"
  shows "man_inv (m\<lparr>chans := (chans m)(r \<mapsto> c')\<rparr>)"
proof -
  have "r < next_ref m" using assms(1,2) unfolding man_inv_def by (metis not_le option.distinct(1))
  then show ?thesis using assms unfolding man_inv_def by (auto split: if_splits) fastforce+
qed

lemma upd_chan_set: "chans m r = Some c \<Longrightarrow> upd_chan r f m = m\<lparr>chans := (chans m)(r \<mapsto> f c)\<rparr>"
  by (simp add: upd_chan_def)

lemma chan_inv_deliver: "chan_inv c \<Longrightarrow> chan_inv (deliver b c) \<and> ch_id (deliver b c) = ch_id c
    \<and> closed (deliver b c) = closed c"
  by (simp add: deliver_def chan_inv_def)

lemma chan_inv_credit: "chan_inv c \<Longrightarrow> chan_inv (add_credit n c) \<and> ch_id (add_credit n c) = ch_id c
    \<and> closed (add_credit n c) = closed c"
  by (simp add: add_credit_def chan_inv_def)

lemma chan_inv_close_remote: "chan_inv c \<Longrightarrow> chan_inv (close_remote why c) \<and> ch_id (close_remote why c) = ch_id c"
  by (simp add: close_remote_def chan_inv_def)

lemma man_inv_upd:
  assumes "man_inv m" and "chan_map m i = Some r"
    and "\<And>c. chan_inv c \<Longrightarrow> chan_inv (f c) \<and> ch_id (f c) = ch_id c \<and> closed (f c) = closed c"
  shows "man_inv (upd_chan r f m)"
proof -
  obtain c where c: "chans m r = Some c" "\<not> closed c" "chan_inv c"
    using man_inv_mapped [OF assms(1,2)] by blast
  then show ?thesis
    unfolding upd_chan_set [OF c(1)] using man_inv_set [OF assms(1) c(1), of "f c"] assms(3) [OF c(3)] by simp
qed

lemma man_inv_deliver: "man_inv m \<Longrightarrow> man_inv (manager_deliver i b m)"
  using man_inv_upd [OF _ _ chan_inv_deliver] by (simp add: manager_deliver_def split: option.split)

lemma man_inv_credit: "man_inv m \<Longrightarrow> man_inv (manager_credit i n m)"
  using man_inv_upd [OF _ _ chan_inv_credit] by (simp add: manager_credit_def split: option.split)

lemma mapped_once: "man_inv m \<Longrightarrow> chan_map m i = Some r \<Longrightarrow> chan_map m j = Some r \<Longrightarrow> i = j"
  using man_inv_mapped [of m i r] man_inv_mapped [of m j r] by auto

lemma man_inv_close_note: "man_inv m \<Longrightarrow> man_inv (apply_close_note n m)"
proof -
  assume inv: "man_inv m"
  let ?i = "of_int (cnChannel n) :: u32"
  show ?thesis
  proof (cases "chan_map m ?i")
    case None
    then show ?thesis using man_inv_forget [OF inv] by (simp add: apply_close_note_def Let_def)
  next
    case (Some r)
    then obtain c where c: "chans m r = Some c" "chan_inv c" using man_inv_mapped [OF inv Some] by blast
    have "chans (forget_channel ?i m) r = Some c" using c by (simp add: forget_channel_def)
    moreover have "\<forall>j. chan_map (forget_channel ?i m) j \<noteq> Some r"
      using mapped_once [OF inv Some] by (auto simp: forget_channel_def)
    ultimately show ?thesis
      using man_inv_set [OF man_inv_forget [OF inv]] chan_inv_close_remote [OF c(2)] Some
      by (simp add: apply_close_note_def Let_def upd_chan_set)
  qed
qed

lemma man_inv_host_closed: "man_inv m \<Longrightarrow> man_inv (host_closed params m)"
  by (auto simp: host_closed_def man_inv_close_note split: option.split)

lemma man_inv_open: "man_inv m \<Longrightarrow> open_exec_finish res m = (out, m') \<Longrightarrow> man_inv m'"
proof -
  assume inv: "man_inv m" and run: "open_exec_finish res m = (out, m')"
  have "man_inv (m\<lparr>chans := (chans m)(next_ref m \<mapsto> new_channel i initialCredit), next_ref := next_ref m + 1,
      chan_map := (chan_map m)(i \<mapsto> next_ref m)\<rparr>)" for i
  proof -
    have "chan_map m j \<noteq> Some (next_ref m)" for j
      using inv unfolding man_inv_def by (metis order_refl option.distinct(1))
    moreover have "\<not> closed (new_channel i initialCredit)" "ch_id (new_channel i initialCredit) = i"
      by (simp_all add: new_channel_def)
    ultimately show ?thesis using inv chan_inv_new unfolding man_inv_def by (auto split: if_splits)
  qed
  then show ?thesis using run inv by (auto simp: open_exec_finish_def Let_def split: sum.splits option.splits)
qed

lemma chan_read_keeps:
  "chan_read k c = Some (res, g, c') \<Longrightarrow> chan_inv c \<Longrightarrow> chan_inv c' \<and> ch_id c' = ch_id c \<and> closed c' = closed c"
proof (cases res)
  case (Inl e)
  assume "chan_read k c = Some (res, g, c')" "chan_inv c"
  with Inl show ?thesis using chan_read_Inl [of k c e g c'] by simp
next
  case (Inr b)
  assume "chan_read k c = Some (res, g, c')" "chan_inv c"
  with Inr show ?thesis using chan_read_Inr [of k c b g c'] by simp
qed

lemma man_inv_read: "man_inv m \<Longrightarrow> stream_read r k m = (out, m') \<Longrightarrow> man_inv m'"
proof -
  assume inv: "man_inv m" and run: "stream_read r k m = (out, m')"
  show ?thesis
  proof (cases "chans m r")
    case None
    with run inv show ?thesis by (simp add: stream_read_def)
  next
    case (Some c)
    note c = this
    have ic: "chan_inv c" using inv Some unfolding man_inv_def by blast
    show ?thesis
    proof (cases "chan_read k c")
      case None
      with run inv c show ?thesis by (simp add: stream_read_def)
    next
      case (Some x)
      obtain res g c' where x: "x = (res, g, c')" by (cases x) auto
      note keeps = chan_read_keeps [OF Some [unfolded x] ic]
      have "\<forall>i. chan_map m i \<noteq> Some r" if "closed c'"
        using man_inv_mapped [OF inv] c keeps that by fastforce
      then have "man_inv (m\<lparr>chans := (chans m)(r \<mapsto> c')\<rparr>)"
        using man_inv_set [OF inv c, of c'] keeps by blast
      then show ?thesis
        using run c Some x by (auto simp: stream_read_def manager_grant_def Let_def split: if_splits)
    qed
  qed
qed

subsection \<open>The transport contract\<close>

text \<open>The data frames on the wire for one channel, in order.\<close>

definition data_sent :: "ipc \<Rightarrow> u32 \<Rightarrow> bytes list" where
  "data_sent c i = map fPayload (filter (\<lambda>f. fKind f = KindChannelData \<and> fChannel f = i) (wrote c))"

definition ipc_up :: "ipc \<Rightarrow> bool" where
  "ipc_up c = (\<not> ipc_closed c \<and> pipe_err c = None)"

lemma data_frame_ok: "length b \<le> MaxChannelFrame \<Longrightarrow> frame_ok \<lparr>fKind = KindChannelData, fChannel = i, fPayload = b\<rparr>"
  by (simp add: frame_ok_def valid_kind_def kind_consts MaxChannelFrame_def MaxFrameLength_def)

lemma ipc_write_cases:
  assumes "ipc_write f c = (r, c')"
  obtains (ok) "r = None" "c' = c\<lparr>wrote := wrote c @ [f]\<rparr>" | (err) e where "r = Some e" "c' = c"
proof (cases r)
  case None
  then have "c' = c\<lparr>wrote := wrote c @ [f]\<rparr>"
    using assms by (auto simp: ipc_write_def split: if_splits sum.splits option.splits)
  with None show thesis by (rule ok)
next
  case (Some e)
  then have "c' = c" using assms by (auto simp: ipc_write_def split: if_splits sum.splits option.splits)
  with Some show thesis by (rule err)
qed

interpretation wire: transport manager_write data_sent ipc_up
proof unfold_locales
  fix w i b r w'
  assume up: "ipc_up w" and len: "length b \<le> MaxChannelFrame" and send: "manager_write w i b = (r, w')"
  show "r = None \<and> ipc_up w'"
    using send up by (simp add: manager_write_def write_channel_def ipc_write_def ipc_up_def
        write_frame_ok [OF data_frame_ok [OF len]] split: prod.splits) auto
next
  fix w i b w'
  assume send: "manager_write w i b = (None, w')"
  obtain r c' where w: "ipc_write \<lparr>fKind = KindChannelData, fChannel = i, fPayload = b\<rparr> w = (r, c')"
    by (cases "ipc_write \<lparr>fKind = KindChannelData, fChannel = i, fPayload = b\<rparr> w")
  show "data_sent w' i = data_sent w i @ [b]"
    using send w by (cases rule: ipc_write_cases [OF w]) (auto simp: manager_write_def write_channel_def data_sent_def)
next
  fix w i b r w' and j :: u32
  assume send: "manager_write w i b = (r, w')" and "j \<noteq> i"
  obtain r' c' where w: "ipc_write \<lparr>fKind = KindChannelData, fChannel = i, fPayload = b\<rparr> w = (r', c')"
    by (cases "ipc_write \<lparr>fKind = KindChannelData, fChannel = i, fPayload = b\<rparr> w")
  show "data_sent w' j = data_sent w j"
    using send w \<open>j \<noteq> i\<close> by (cases rule: ipc_write_cases [OF w]) (auto simp: manager_write_def write_channel_def data_sent_def)
next
  fix w i b e w'
  assume send: "manager_write w i b = (Some e, w')"
  obtain r' c' where w: "ipc_write \<lparr>fKind = KindChannelData, fChannel = i, fPayload = b\<rparr> w = (r', c')"
    by (cases "ipc_write \<lparr>fKind = KindChannelData, fChannel = i, fPayload = b\<rparr> w")
  show "data_sent w' i = data_sent w i"
    using send w by (cases rule: ipc_write_cases [OF w]) (auto simp: manager_write_def write_channel_def data_sent_def)
qed

lemma chan_write_keeps:
  "chan_write send p n w c = (res, w', c') \<Longrightarrow>
     chan_inv c \<Longrightarrow> chan_inv c' \<and> closed c' = closed c \<and> ch_id c' = ch_id c
       \<and> inbound c' = inbound c \<and> pending c' = pending c"
proof (induction "length p - n" arbitrary: n w c rule: less_induct)
  case less
  show ?case
  proof (cases "n < length p \<and> (\<exists>c1 w1. await_credit c = Some (Inr c1)
      \<and> send w (ch_id c) (take MaxChannelFrame (drop n p)) = (None, w1))")
    case True
    then obtain c1 w1 where c1: "await_credit c = Some (Inr c1)" and n: "n < length p"
      and w1: "send w (ch_id c) (take MaxChannelFrame (drop n p)) = (None, w1)" by blast
    let ?n = "n + length (take MaxChannelFrame (drop n p))"
    have "chan_write send p ?n w1 c1 = (res, w', c')"
      using less.prems(1) c1 w1 n unfolding chan_write.simps [of send p n w c] Let_def by simp
    moreover have "length p - ?n < length p - n" using n by (simp add: MaxChannelFrame_def)
    moreover have "chan_inv c1" using await_credit_Inr [OF c1] less.prems(2) by (simp add: chan_inv_def)
    ultimately show ?thesis using less.hyps [of ?n w1 c1] await_credit_Inr [OF c1] by simp
  next
    case False
    then show ?thesis
      using less.prems unfolding chan_write.simps [of send p n w c] Let_def
      by (auto simp: chan_inv_def split: if_splits option.splits sum.splits prod.splits dest: await_credit_Inr)
  qed
qed

lemma man_inv_write: "man_inv m \<Longrightarrow> stream_write r p n m = (out, m') \<Longrightarrow> man_inv m'"
proof -
  assume inv: "man_inv m" and run: "stream_write r p n m = (out, m')"
  show ?thesis
  proof (cases "chans m r")
    case None
    with run inv show ?thesis by (simp add: stream_write_def)
  next
    case (Some c)
    have ic: "chan_inv c" using inv Some unfolding man_inv_def by blast
    obtain res w c' where w: "chan_write manager_write p n (mipc m) c = (res, w, c')"
      by (metis prod_cases3)
    note keeps = chan_write_keeps [OF w ic]
    have "\<forall>i. chan_map m i \<noteq> Some r" if "closed c'"
      using man_inv_mapped [OF inv] Some keeps that by fastforce
    then have "man_inv (m\<lparr>chans := (chans m)(r \<mapsto> c')\<rparr>)"
      using man_inv_set [OF inv Some, of c'] keeps by blast
    moreover have "m' = m\<lparr>chans := (chans m)(r \<mapsto> c')\<rparr>\<lparr>mipc := w\<rparr>"
      using run Some w by (cases m) (simp add: stream_write_def)
    ultimately show ?thesis by (simp only: man_inv_ipc)
  qed
qed

lemma chan_inv_close: "chan_inv c \<Longrightarrow> chan_inv (snd (chan_close c)) \<and> ch_id (snd (chan_close c)) = ch_id c
    \<and> closed (snd (chan_close c))"
  by (simp add: chan_close_def chan_inv_def)

lemma stream_close_open:
  assumes "chans m r = Some c" and "\<not> closed c"
  shows "stream_close r m =
    close_channel (ch_id c) ''done'' (m\<lparr>chans := (chans m)(r \<mapsto> snd (chan_close c))\<rparr>)"
  using assms by (simp add: stream_close_def chan_close_def)

lemma stream_close_closed:
  "chans m r = Some c \<Longrightarrow> closed c \<Longrightarrow> stream_close r m = m\<lparr>chans := (chans m)(r \<mapsto> c)\<rparr>"
  by (simp add: stream_close_def chan_close_def)

lemma man_inv_close: "man_inv m \<Longrightarrow> man_inv (stream_close r m)"
proof -
  assume inv: "man_inv m"
  show ?thesis
  proof (cases "chans m r")
    case None
    with inv show ?thesis by (simp add: stream_close_def)
  next
    case (Some c)
    have ic: "chan_inv c" using inv Some unfolding man_inv_def by blast
    show ?thesis
    proof (cases "closed c")
      case True
      then have "m\<lparr>chans := (chans m)(r \<mapsto> c)\<rparr> = m" using Some by (simp add: fun_upd_idem)
      then show ?thesis using stream_close_closed [OF Some True] inv by simp
    next
      case False
      let ?c' = "snd (chan_close c)"
      have fr: "man_inv (forget_channel (ch_id c) m)" by (rule man_inv_forget [OF inv])
      have "\<forall>i. chan_map (forget_channel (ch_id c) m) i \<noteq> Some r"
        using man_inv_mapped [OF inv, of _ r] Some by (auto simp: forget_channel_def)
      moreover have "chans (forget_channel (ch_id c) m) r = Some c" using Some by (simp add: forget_channel_def)
      ultimately have "man_inv ((forget_channel (ch_id c) m)\<lparr>chans := (chans m)(r \<mapsto> ?c')\<rparr>)"
        using man_inv_set [OF fr, of r c ?c'] chan_inv_close [OF ic] by (simp add: forget_channel_def)
      then show ?thesis
        unfolding stream_close_open [OF Some False]
        by (simp add: close_channel_def forget_channel_def Let_def man_inv_def)
    qed
  qed
qed

lemma man_inv_close_all: "man_inv m \<Longrightarrow> man_inv (close_all order m)"
proof -
  assume "man_inv m"
  then have "man_inv (m\<lparr>chan_map := (\<lambda>_. None)\<rparr>)" by (simp add: man_inv_def)
  then have "man_inv (fold stream_close order (m\<lparr>chan_map := (\<lambda>_. None)\<rparr>))"
    by (induction order arbitrary: m rule: rev_induct) (simp_all add: man_inv_close)
  then show ?thesis by (simp add: close_all_def)
qed

subsection \<open>Properties\<close>

text \<open>
  C15. The manager's bookkeeping holds under every operation, in any order: an id in the map leads to an open
  channel of that id, no two ids share a channel, and every channel keeps its own invariant, through opens,
  frames, credit, closes from either side, reads, writes and the shutdown.
\<close>

theorem manager_invariant:
  assumes "man_inv m"
  shows "man_inv (snd (open_exec_finish res m)) \<and> man_inv (manager_deliver i b m)
    \<and> man_inv (manager_credit i n m) \<and> man_inv (host_closed params m) \<and> man_inv (snd (stream_read r k m))
    \<and> man_inv (snd (stream_write r p 0 m)) \<and> man_inv (stream_close r m) \<and> man_inv (close_all order m)
    \<and> (chan_map m i = Some r \<and> chan_map m j = Some r \<longrightarrow> i = j)"
proof (intro conjI impI)
  show "man_inv (snd (open_exec_finish res m))"
    by (cases "open_exec_finish res m") (use man_inv_open [OF assms] in simp)
  show "man_inv (snd (stream_read r k m))"
    by (cases "stream_read r k m") (use man_inv_read [OF assms] in simp)
  show "man_inv (snd (stream_write r p 0 m))"
    by (cases "stream_write r p 0 m") (use man_inv_write [OF assms] in simp)
  show "chan_map m i = Some r \<and> chan_map m j = Some r \<Longrightarrow> i = j" using mapped_once [OF assms] by blast
qed (use assms in \<open>simp_all add: man_inv_deliver man_inv_credit man_inv_host_closed man_inv_close man_inv_close_all\<close>)

text \<open>An open channel of a fresh manager: the host answered with id 7.\<close>

definition sample_manager :: manager where
  "sample_manager = snd (open_exec_finish (Inr (Some (JObj [(''channelId'', JNum ''7'')]))) (new_manager new_ipc))"

lemma dec_channel_id_7: "dec_channel_id (JObj [(''channelId'', JNum ''7'')]) 0 = Some 7"
  by code_simp

lemma sample_manager_eq:
  "sample_manager = \<lparr>mipc = new_ipc, chans = [0 \<mapsto> new_channel 7 initialCredit], next_ref = 1, chan_map = [7 \<mapsto> 0]\<rparr>"
  unfolding sample_manager_def open_exec_finish_def sum.case option.case dec_channel_id_7
  by (simp add: new_manager_def Let_def)

lemma sample_manager_inv: "man_inv sample_manager"
  unfolding sample_manager_def
  by (rule man_inv_open [OF man_inv_new surjective_pairing])

lemma manager_invariant_witness: "man_inv (close_all [0] sample_manager) \<and> chan_map sample_manager 7 = Some 0"
  using manager_invariant [OF sample_manager_inv] by (simp add: sample_manager_eq)

text \<open>
  C38. Frames go to their own channel and to no other: data for an id the manager knows is queued at the end
  of that one channel and every other channel is untouched; data or credit for an id it does not know
  changes nothing at all.
\<close>

theorem frames_routed_by_id:
  assumes "man_inv m"
  shows "case chan_map m i of
      None \<Rightarrow> manager_deliver i b m = m \<and> manager_credit i n m = m
    | Some r \<Rightarrow> (\<exists>c. chans m r = Some c \<and> ch_id c = i
        \<and> chans (manager_deliver i b m) = (chans m)(r \<mapsto> c\<lparr>inbound := inbound c @ [b]\<rparr>)
        \<and> chans (manager_credit i n m) = (chans m)(r \<mapsto> c\<lparr>credit := credit c + n\<rparr>)
        \<and> chan_map (manager_deliver i b m) = chan_map m \<and> mipc (manager_deliver i b m) = mipc m)"
proof (cases "chan_map m i")
  case (Some r)
  then obtain c where c: "chans m r = Some c" "ch_id c = i" "\<not> closed c" using man_inv_mapped [OF assms] by blast
  then have "deliver b c = c\<lparr>inbound := inbound c @ [b]\<rparr>" by (simp add: deliver_def)
  with Some c show ?thesis
    by (simp add: manager_deliver_def manager_credit_def upd_chan_set add_credit_def)
qed (simp add: manager_deliver_def manager_credit_def)

lemma frames_routed_by_id_witness:
  "map_option inbound (chans (manager_deliver 7 [1, 2] sample_manager) 0) = Some [[1, 2]]
   \<and> manager_deliver 8 [1, 2] sample_manager = sample_manager"
proof -
  have maps: "chan_map sample_manager 7 = Some 0" "chan_map sample_manager 8 = None"
    "chans sample_manager 0 = Some (new_channel 7 initialCredit)"
    by (simp_all add: sample_manager_eq)
  show ?thesis
    using frames_routed_by_id [OF sample_manager_inv, of 7 "[1, 2]" 0]
      frames_routed_by_id [OF sample_manager_inv, of 8 "[1, 2]" 0] maps
    by (auto simp: new_channel_def)
qed

text \<open>
  C25. What is written to a stream is what goes on the wire: whatever ends a write, the data frames it has put
  out for its channel are, in order, the first of the buffer's chunks of at most 1 MiB, and the frames of
  every other channel are as before; with credit for all of them and a host that is there, all go out.
\<close>

theorem stream_write_on_wire:
  assumes "chans m r = Some c" and "stream_write r p 0 m = (res, m')"
  shows "(\<exists>fs gs. chunks p = fs @ gs \<and> data_sent (mipc m') (ch_id c) = data_sent (mipc m) (ch_id c) @ fs
        \<and> (\<forall>f \<in> set fs. f \<noteq> [] \<and> length f \<le> 2 ^ 20)
        \<and> (\<forall>n. res = WDone n \<longrightarrow> n = length p \<and> concat fs = p))
    \<and> (\<forall>j. j \<noteq> ch_id c \<longrightarrow> data_sent (mipc m') j = data_sent (mipc m) j)
    \<and> (ipc_up (mipc m) \<and> \<not> closed c \<and> length (chunks p) \<le> unat (credit c) \<longrightarrow> res = WDone (length p))"
proof -
  obtain w c' where w: "chan_write manager_write p 0 (mipc m) c = (res, w, c')" and m': "mipc m' = w"
    using assms by (auto simp: stream_write_def split: prod.splits)
  obtain fs gs k where fs: "chunks p = fs @ gs" "data_sent w (ch_id c) = data_sent (mipc m) (ch_id c) @ fs"
    "\<forall>j. j \<noteq> ch_id c \<longrightarrow> data_sent w j = data_sent (mipc m) j" "take k p = concat fs"
    "res = WDone k \<and> k = length p \<or> (\<exists>e. res = WFailed k e) \<or> res = WBlocked k \<and> k < length p \<and> credit c' = 0 \<and> \<not> closed c'"
    using wire.write_progress [OF w] by auto
  have bounds: "\<forall>f \<in> set fs. f \<noteq> [] \<and> length f \<le> 2 ^ 20"
    using chunks_bounds [of _ p] fs(1) by (auto simp: MaxChannelFrame_def)
  have whole: "\<forall>n. res = WDone n \<longrightarrow> n = length p \<and> concat fs = p"
    using fs(4,5) by auto
  have full: "res = WDone (length p)" if "ipc_up (mipc m)" "\<not> closed c" "length (chunks p) \<le> unat (credit c)"
    using wire.write_completes [OF that(1,2), of 0 p] that(3) w by auto
  show ?thesis
    unfolding m' using fs(1,2,3) bounds whole full by blast
qed

lemma stream_write_on_wire_witness:
  "data_sent (mipc (snd (stream_write 0 [1, 2, 3] 0 sample_manager))) 7 = [[1, 2, 3]]"
proof -
  let ?c = "new_channel 7 initialCredit"
  have c: "chans sample_manager 0 = Some ?c" by (simp add: sample_manager_eq)
  obtain res m' where run: "stream_write 0 [1, 2, 3] 0 sample_manager = (res, m')"
    by (cases "stream_write 0 [1, 2, 3] 0 sample_manager")
  have ch: "chunks [1, 2, 3 :: byte] = [[1, 2, 3]]"
  proof -
    have "length [1, 2, 3 :: byte] \<le> MaxChannelFrame" by (simp add: MaxChannelFrame_def)
    then show ?thesis using chunks_eq [of "[1, 2, 3 :: byte]"] by (simp only: take_all drop_all) (simp add: chunks_def)
  qed
  have up: "ipc_up (mipc sample_manager)" "\<not> closed ?c" "length (chunks [1, 2, 3 :: byte]) \<le> unat (credit ?c)" "ch_id ?c = 7"
    "data_sent (mipc sample_manager) 7 = []"
    by (simp_all add: sample_manager_eq ipc_up_def new_ipc_def new_channel_def initialCredit_def ch data_sent_def)
  note on_wire = stream_write_on_wire [OF c run]
  have "res = WDone (length [1, 2, 3 :: byte])" using on_wire up(1,2,3) by blast
  with on_wire obtain fs gs where fs: "chunks [1, 2, 3] = fs @ gs" "concat fs = [1, 2, 3]"
    "data_sent (mipc m') (ch_id ?c) = data_sent (mipc sample_manager) (ch_id ?c) @ fs" by blast
  have "fs = [[1, 2, 3]]" using fs(1,2) unfolding ch by (cases fs) simp_all
  then show ?thesis using fs(3) unfolding up(4,5) run by simp
qed

definition close_frame :: "u32 \<Rightarrow> string \<Rightarrow> bytes \<Rightarrow> bool" where
  "close_frame i reason b =
     (encode_message (empty_message\<lparr>mMethod := ''channel.close'', mParams := Some (close_params i reason)\<rparr>) = Inr b)"

lemma close_frame_ex: "\<exists>b. close_frame i ''done'' b \<and> length b \<le> 2000"
proof -
  have "unat i < 10 ^ 10" using unsigned_less [where 'a = nat, of i] by simp
  then have "length (dec_nat (unat i)) \<le> 10" using dec_nat_length [of "unat i" 10] by simp
  moreover have "quote ''2.0'' = ''2.0''" "quote ''channel.close'' = ''channel.close''" "quote ''done'' = ''done''"
    by code_simp+
  ultimately have "length (print_json (message_json ((empty_message\<lparr>mMethod := ''channel.close'',
      mParams := Some (close_params i ''done'')\<rparr>)\<lparr>mJsonrpc := ''2.0''\<rparr>))) \<le> 2000"
    by (simp add: message_json_def opt_member_def json_str_def json_nat_def empty_message_def close_params_def)
  then show ?thesis by (simp add: close_frame_def bytes_length_print MaxJSONRPCFrame_def)
qed

text \<open>
  A close is told once and then the channel is gone: closing an open stream puts exactly one frame on
  the wire, the close notification for its id, and none when the host closed it first or it is closed again;
  either way the id is forgotten, so a frame that comes late changes nothing.
\<close>

theorem close_told_once:
  assumes "man_inv m" and "chans m r = Some c" and "\<not> closed c" and "ipc_up (mipc m)"
  shows "\<exists>b. close_frame (ch_id c) ''done'' b \<and> wrote (mipc (stream_close r m)) = wrote (mipc m) @ [control_frame b]
    \<and> stream_close r (stream_close r m) = stream_close r m
    \<and> chan_map (stream_close r m) (ch_id c) = None
    \<and> manager_deliver (ch_id c) x (stream_close r m) = stream_close r m"
proof -
  let ?m = "stream_close r m"
  obtain b where b: "close_frame (ch_id c) ''done'' b" "length b \<le> 2000" using close_frame_ex by blast
  have "frame_ok (control_frame b)"
    using b(2) by (simp add: frame_ok_def control_frame_def valid_kind_def kind_consts MaxFrameLength_def)
  then have "notify ''channel.close'' (Some (close_params (ch_id c) ''done'')) (mipc m)
      = (None, (mipc m)\<lparr>wrote := wrote (mipc m) @ [control_frame b]\<rparr>)"
    using b(1) assms(4) by (simp add: notify_def close_frame_def ipc_write_def write_frame_ok ipc_up_def)
  then have "wrote (mipc ?m) = wrote (mipc m) @ [control_frame b]" "chan_map ?m (ch_id c) = None"
    "chans ?m r = Some (snd (chan_close c))"
    using stream_close_open [OF assms(2,3)]
    by (simp_all add: close_channel_def forget_channel_def)
  moreover have "closed (snd (chan_close c))" by (simp add: chan_close_def)
  ultimately show ?thesis
    using b(1) stream_close_closed [of ?m r] by (auto simp: manager_deliver_def fun_upd_idem)
qed

lemma close_told_once_witness:
  "\<exists>b. close_frame 7 ''done'' b \<and> wrote (mipc (stream_close 0 sample_manager)) = [control_frame b]
    \<and> manager_deliver 7 [1] (stream_close 0 sample_manager) = stream_close 0 sample_manager"
proof -
  let ?c = "new_channel 7 initialCredit"
  have c: "chans sample_manager 0 = Some ?c" "\<not> closed ?c" "ipc_up (mipc sample_manager)" "ch_id ?c = 7"
    "wrote (mipc sample_manager) = []"
    by (simp_all add: sample_manager_eq new_channel_def ipc_up_def new_ipc_def)
  show ?thesis using close_told_once [OF sample_manager_inv c(1,2,3), of "[1]"] unfolding c(4,5) by auto
qed

text \<open>
  The host's close ends the stream with its reason and is not answered: the channel is closed with the
  host's message (its reason where there is none), data that had arrived stays readable, the id is
  forgotten, and neither the note nor a later close of that stream writes anything.
\<close>

theorem host_close_ends_stream:
  assumes "man_inv m" and "chan_map m (of_int (cnChannel n)) = Some r"
  shows "\<exists>c. chans m r = Some c
    \<and> chans (apply_close_note n m) r = Some (close_remote (close_reason n) c)
    \<and> closeErr (close_remote (close_reason n) c)
        = Some (if close_reason n = [] then ErrChannelClosed else ErrChannelClosedFor (close_reason n))
    \<and> inbound (close_remote (close_reason n) c) = inbound c
    \<and> chan_map (apply_close_note n m) (of_int (cnChannel n)) = None
    \<and> mipc (apply_close_note n m) = mipc m \<and> mipc (stream_close r (apply_close_note n m)) = mipc m"
proof -
  obtain c where c: "chans m r = Some c" "\<not> closed c" using man_inv_mapped [OF assms] by blast
  let ?m = "apply_close_note n m" and ?c = "close_remote (close_reason n) c"
  have m: "chans ?m r = Some ?c" "mipc ?m = mipc m" "chan_map ?m (of_int (cnChannel n)) = None"
    using assms(2) c by (simp_all add: apply_close_note_def forget_channel_def upd_chan_def Let_def)
  have closed: "closed ?c" by (simp add: close_remote_def)
  then have "mipc (stream_close r ?m) = mipc m" using stream_close_closed [OF m(1)] m(2) by simp
  with c m show ?thesis by (auto simp: close_remote_def)
qed

lemma host_close_ends_stream_witness:
  "map_option closeErr (chans (apply_close_note \<lparr>cnChannel = 7, cnReason = ''exit'', cnMessage = ''exit status 1''\<rparr> sample_manager) 0)
     = Some (Some (ErrChannelClosedFor ''exit status 1''))"
  using host_close_ends_stream [OF sample_manager_inv, of "\<lparr>cnChannel = 7, cnReason = ''exit'', cnMessage = ''exit status 1''\<rparr>" 0]
  by (auto simp: sample_manager_eq close_reason_def)

text \<open>
  A close that comes before the channel is entered is lost: if the host's close note for an id arrives
  after the answer to \<open>channel.open\<close> but before the caller has entered the channel, the note has no effect
  at all, and the stream handed out is open although the host has ended it; entered first, the same note
  closes it.
\<close>

theorem early_close_is_lost:
  assumes "chan_map m (of_int (cnChannel n)) = None"
    and "dec_channel_id raw 0 = Some (cnChannel n)"
  shows "open_exec_finish (Inr (Some raw)) (apply_close_note n m) = open_exec_finish (Inr (Some raw)) m
    \<and> map_option closed (chans (snd (open_exec_finish (Inr (Some raw)) (apply_close_note n m))) (next_ref m)) = Some False
    \<and> map_option closed (chans (apply_close_note n (snd (open_exec_finish (Inr (Some raw)) m))) (next_ref m)) = Some True"
proof -
  have "(chan_map m)(of_int (cnChannel n) := None) = chan_map m" using assms(1) by (simp add: fun_upd_idem)
  then have early: "apply_close_note n m = m" using assms(1) by (simp add: apply_close_note_def forget_channel_def Let_def)
  show ?thesis
    unfolding early using assms(2)
    by (simp add: open_exec_finish_def apply_close_note_def forget_channel_def upd_chan_def new_channel_def
        close_remote_def Let_def)
qed

lemma early_close_is_lost_witness:
  "map_option closed (chans (snd (open_exec_finish (Inr (Some (JObj [(''channelId'', JNum ''7'')])))
     (apply_close_note \<lparr>cnChannel = 7, cnReason = ''exit'', cnMessage = []\<rparr> (new_manager new_ipc)))) 0) = Some False"
proof -
  let ?n = "\<lparr>cnChannel = 7, cnReason = ''exit'', cnMessage = []\<rparr> :: close_note"
  have "chan_map (new_manager new_ipc) (of_int (cnChannel ?n)) = None"
    "dec_channel_id (JObj [(''channelId'', JNum ''7'')]) 0 = Some (cnChannel ?n)" "next_ref (new_manager new_ipc) = 0"
    using dec_channel_id_7 by (simp_all add: new_manager_def)
  then show ?thesis using early_close_is_lost [of "new_manager new_ipc" ?n "JObj [(''channelId'', JNum ''7'')]"] by auto
qed

end
