(* ===== verification/Handlers.thy ===== *)
theory Handlers
  imports Details Manager
begin

text \<open>
  Decoding what the host sends (\<open>internal/presentation/handlers.go\<close>) and the one switch over every method
  (\<open>cmd/xqs-docker/main.go\<close>). A handler that answers gives an error or a result, \<open>None\<close> for no result; the work
  it leaves to a goroutine is a task of the service.
\<close>

text \<open>\<open>json.Unmarshal\<close> of the parameters; missing ones do not decode.\<close>

definition decode_params :: "'a dec \<Rightarrow> 'a \<Rightarrow> json option \<Rightarrow> 'a option" where
  "decode_params dc z p = (case p of None \<Rightarrow> None | Some j \<Rightarrow> dc j z)"

record observe_params =
  obSession :: string
  obNodes :: "string list"

record invoke_params =
  ivSession :: string
  ivNodes :: "string list"
  ivAction :: string

record node_params =
  npSession :: string
  npNode :: string
  npValues :: "(string \<times> string) list"

record surface_params =
  spSurface :: string
  spData :: string
  spCols :: int
  spRows :: int

record dialog_params =
  dpDialog :: string
  dpValues :: "(string \<times> string) list"

definition dec_observe_params :: "observe_params dec" where
  "dec_observe_params = dec_struct
     [(''sessionId'', lens obSession obSession_update dec_str), (''nodeIds'', lens obNodes obNodes_update dec_strings)]"

definition dec_invoke_params :: "invoke_params dec" where
  "dec_invoke_params = dec_struct
     [(''sessionId'', lens ivSession ivSession_update dec_str), (''nodeIds'', lens ivNodes ivNodes_update dec_strings),
      (''actionId'', lens ivAction ivAction_update dec_str)]"

definition dec_node_params :: "node_params dec" where
  "dec_node_params = dec_struct
     [(''sessionId'', lens npSession npSession_update dec_str), (''nodeId'', lens npNode npNode_update dec_str),
      (''values'', lens npValues npValues_update dec_string_map)]"

definition dec_surface_params :: "surface_params dec" where
  "dec_surface_params = dec_struct
     [(''surfaceId'', lens spSurface spSurface_update dec_str), (''dataBase64'', lens spData spData_update dec_str),
      (''cols'', lens spCols spCols_update dec_i64), (''rows'', lens spRows spRows_update dec_i64)]"

definition dec_dialog_params :: "dialog_params dec" where
  "dec_dialog_params = dec_struct
     [(''dialogId'', lens dpDialog dpDialog_update dec_str), (''values'', lens dpValues dpValues_update dec_string_map)]"

definition observe_request :: "json option \<Rightarrow> observe_params option" where
  "observe_request = decode_params dec_observe_params \<lparr>obSession = [], obNodes = []\<rparr>"
definition invoke_request :: "json option \<Rightarrow> invoke_params option" where
  "invoke_request = decode_params dec_invoke_params \<lparr>ivSession = [], ivNodes = [], ivAction = []\<rparr>"
definition node_request :: "json option \<Rightarrow> node_params option" where
  "node_request = decode_params dec_node_params \<lparr>npSession = [], npNode = [], npValues = []\<rparr>"
definition surface_request :: "json option \<Rightarrow> surface_params option" where
  "surface_request = decode_params dec_surface_params \<lparr>spSurface = [], spData = [], spCols = 0, spRows = 0\<rparr>"
definition dialog_request :: "json option \<Rightarrow> dialog_params option" where
  "dialog_request = decode_params dec_dialog_params \<lparr>dpDialog = [], dpValues = []\<rparr>"

type_synonym reply = "go_error + json option"

definition bad_params :: reply where "bad_params = Inl (EText ''json'')"
definition ok_reply :: reply where "ok_reply = Inr (Some (JObj [(''ok'', JBool True)]))"

subsection \<open>The handlers\<close>

definition handle_observe :: "json option \<Rightarrow> plugin \<Rightarrow> plugin" where
  "handle_observe p sw =
     (case observe_request p of None \<Rightarrow> sw | Some q \<Rightarrow> observe (obSession q) (obNodes q) sw)"

definition handle_invoke :: "json option \<Rightarrow> plugin \<Rightarrow> reply \<times> plugin" where
  "handle_invoke p sw =
     (case invoke_request p of
        None \<Rightarrow> (bad_params, sw)
      | Some q \<Rightarrow> (ok_reply, invoke_action (ivSession q) (ivNodes q) (ivAction q) sw))"

definition handle_describe :: "json option \<Rightarrow> plugin \<Rightarrow> reply \<times> plugin" where
  "handle_describe p sw =
     (case node_request p of
        None \<Rightarrow> (bad_params, sw)
      | Some q \<Rightarrow>
          (case describe_node (npSession q) (npNode q) sw of
             (Inl e, sw1) \<Rightarrow> (Inl e, sw1)
           | (Inr d, sw1) \<Rightarrow> (Inr (Some (details_json d)), sw1)))"

definition handle_apply :: "json option \<Rightarrow> plugin \<Rightarrow> reply \<times> plugin" where
  "handle_apply p sw =
     (case node_request p of
        None \<Rightarrow> (bad_params, sw)
      | Some q \<Rightarrow>
          (case apply_details (npSession q) (npNode q) (npValues q) sw of
             (Some e, sw1) \<Rightarrow> (Inl e, sw1)
           | (None, sw1) \<Rightarrow> (ok_reply, sw1)))"

definition handle_input :: "json option \<Rightarrow> plugin \<Rightarrow> plugin" where
  "handle_input p sw =
     (case surface_request p of
        None \<Rightarrow> sw
      | Some q \<Rightarrow>
          (case base64_std_decode (spData q) of None \<Rightarrow> sw | Some d \<Rightarrow> surface_input (spSurface q) d sw))"

definition handle_resize :: "json option \<Rightarrow> plugin \<Rightarrow> plugin" where
  "handle_resize p sw =
     (case surface_request p of
        None \<Rightarrow> sw
      | Some q \<Rightarrow>
          (if spCols q \<le> 0 \<or> spRows q \<le> 0 then sw else surface_resize (spSurface q) (spCols q) (spRows q) sw))"

definition handle_closed :: "json option \<Rightarrow> plugin \<Rightarrow> plugin" where
  "handle_closed p sw =
     (case surface_request p of None \<Rightarrow> sw | Some q \<Rightarrow> (surface_closed (spSurface q) (fst sw), snd sw))"

definition handle_submit :: "json option \<Rightarrow> plugin \<Rightarrow> plugin" where
  "handle_submit p sw =
     (case dialog_request p of
        None \<Rightarrow> sw | Some q \<Rightarrow> (dialog_submitted (dpDialog q) (dpValues q) (fst sw), snd sw))"

definition handle_cancel :: "json option \<Rightarrow> plugin \<Rightarrow> plugin" where
  "handle_cancel p sw =
     (case dialog_request p of None \<Rightarrow> sw | Some q \<Rightarrow> (dialog_cancelled (dpDialog q) (fst sw), snd sw))"

subsection \<open>The switch\<close>

text \<open>
  The whole process: the service with the world, and the channels. \<open>order\<close> is the walk of \<open>CloseAll\<close> over the
  channels.
\<close>

type_synonym process = "plugin \<times> manager"

definition silent :: "(plugin \<Rightarrow> plugin) \<Rightarrow> process \<Rightarrow> reply \<times> process" where
  "silent f pr = (Inr None, f (fst pr), snd pr)"

definition answering :: "(plugin \<Rightarrow> reply \<times> plugin) \<Rightarrow> process \<Rightarrow> reply \<times> process" where
  "answering f pr = (case f (fst pr) of (a, sw) \<Rightarrow> (a, sw, snd pr))"

definition shut_down :: "nat list \<Rightarrow> process \<Rightarrow> process" where
  "shut_down order pr = (shutdown (fst pr), close_all order (snd pr))"

text \<open>\<open>main\<close>: what the process starts with, and what it does when \<open>Serve\<close> has returned, with an error or without.\<close>

definition process_start :: "world \<Rightarrow> process" where
  "process_start w = ((new_service, w), new_manager new_ipc)"

definition process_end :: "nat list \<Rightarrow> process \<Rightarrow> process" where
  "process_end order pr = shut_down order pr"

definition pong :: reply where "pong = Inr (Some (JObj [(''pong'', json_str ''ok'')]))"

definition not_found :: reply where "not_found = Inl (ERpc (- 32601) ''method not found'')"

definition dispatch :: "nat list \<Rightarrow> string \<Rightarrow> json option \<Rightarrow> process \<Rightarrow> reply \<times> process" where
  "dispatch order m p pr =
     (if m \<in> {''initialize'', ''activate'', ''deactivate''} then (ok_reply, pr)
      else if m = ''ping'' then (pong, pr)
      else if m = ''shutdown'' then (ok_reply, shut_down order pr)
      else if m = ''discovery.observe'' then silent (handle_observe p) pr
      else if m = ''discovery.invokeAction'' then answering (handle_invoke p) pr
      else if m = ''discovery.describeNode'' then answering (handle_describe p) pr
      else if m = ''discovery.applyDetails'' then answering (handle_apply p) pr
      else if m = ''surface.input'' then silent (handle_input p) pr
      else if m = ''surface.resize'' then silent (handle_resize p) pr
      else if m = ''surface.closed'' then silent (handle_closed p) pr
      else if m = ''dialog.submit'' then silent (handle_submit p) pr
      else if m = ''dialog.cancel'' then silent (handle_cancel p) pr
      else if m = ''channel.close'' then (Inr None, fst pr, host_closed p (snd pr))
      else (not_found, pr))"

end
