(* ===== verification/Effects.thy ===== *)
theory Effects
  imports Details
begin

text \<open>
  What the operations of the service do to the connections and the outside, in two relations that every handler
  and task is built from: \<open>conn_step\<close> for what happens through one connection, \<open>calm\<close> for a sequence of such
  operations, calls to the host and changes that concern no stream. Both keep every stream with its owner.
\<close>

subsection \<open>Through one connection\<close>

definition held :: "connection \<Rightarrow> nat set" where
  "held c = (case cxControl c of None \<Rightarrow> {} | Some d \<Rightarrow> {dkStream d})"

definition conn_ok :: "connection \<Rightarrow> bool" where
  "conn_ok c = (resolved_ok c \<and> (cxClosed c \<longrightarrow> cxControl c = None))"

definition conn_step :: "connection \<times> world \<Rightarrow> connection \<times> world \<Rightarrow> bool" where
  "conn_step cw cw' =
     (later (snd cw) (snd cw') \<and> cxSession (fst cw') = cxSession (fst cw)
      \<and> (cxClosed (fst cw) \<longrightarrow> cxClosed (fst cw'))
      \<and> (conn_ok (fst cw) \<longrightarrow> conn_ok (fst cw'))
      \<and> (held (fst cw) \<subseteq> live_streams (snd cw) \<longrightarrow>
           held (fst cw') \<subseteq> live_streams (snd cw')
           \<and> live_streams (snd cw') - held (fst cw') = live_streams (snd cw) - held (fst cw))
      \<and> held (fst cw') - held (fst cw) \<subseteq> {opened (wTrace (snd cw))..})"

lemma conn_step_refl [simp]: "conn_step cw cw"
  by (simp add: conn_step_def)

lemma later_opened: "later w w' \<Longrightarrow> opened (wTrace w) \<le> opened (wTrace w')"
  by (auto simp: later_def)

lemma conn_step_trans [trans]:
  assumes "conn_step a b" and "conn_step b c"
  shows "conn_step a c"
proof -
  have "opened (wTrace (snd a)) \<le> opened (wTrace (snd b))" using assms(1) later_opened by (simp add: conn_step_def)
  then have "held (fst c) - held (fst a) \<subseteq> {opened (wTrace (snd a))..}"
    using assms unfolding conn_step_def by fastforce
  then show ?thesis using assms later_trans unfolding conn_step_def by simp blast
qed

lemma asked_later: "asked w w' \<Longrightarrow> later w w'"
  unfolding asked_def later_def by blast

lemma conn_step_asked: "asked w w' \<Longrightarrow> conn_step (c, w) (c, w')"
  by (simp add: conn_step_def asked_live asked_later)

lemma dial_number:
  assumes "dial c w = (Inr d, c1, w1)"
  shows "dkStream d = opened (wTrace w)"
proof -
  obtain q c2 w2 where o: "dial_open c w = (q, c2, w2)" by (rule prod_cases3)
  then have q: "q = Inr n \<Longrightarrow> n = opened (wTrace w)" for n
    by (auto simp: dial_open_def open_exec_def Let_def mark_gone_def split: option.splits if_splits)
  show ?thesis
  proof (cases q)
    case (Inr n)
    obtain p w3 where n: "dial_negotiate n w2 = (p, w3)" by (rule prod.exhaust)
    from n show ?thesis
      by (cases rule: dial_negotiate_cases) (use assms Inr q in \<open>auto simp: dial_def o n\<close>)
  qed (use assms in \<open>simp add: dial_def o\<close>)
qed

lemma dial_fails:
  assumes "dial c w = (Inl e, c1, w1)"
  shows "c1 = c \<and> live_streams w1 = live_streams w
    \<or> c1 = c\<lparr>cxClosed := True, cxControl := None\<rparr> \<and> live_streams w1 = live_streams w - held c"
proof -
  obtain q c2 w2 where o: "dial_open c w = (q, c2, w2)" by (rule prod_cases3)
  from o show ?thesis
  proof (cases rule: dial_open_cases)
    case (1 n)
    obtain p w3 where n: "dial_negotiate n w2 = (p, w3)" by (rule prod.exhaust)
    from n show ?thesis
      by (cases rule: dial_negotiate_cases) (use assms 1 in \<open>auto simp: dial_def o n\<close>)
  qed (use assms in \<open>auto simp: dial_def o held_def\<close>)
qed

lemma conn_step_gone:
  assumes "c1 = c\<lparr>cxClosed := True, cxControl := None\<rparr>" and "live_streams w1 = live_streams w - held c" and "later w w1"
  shows "conn_step (c, w) (c1, w1)"
  unfolding conn_step_def fst_conv snd_conv using assms by (simp add: held_def conn_ok_def resolved_ok_def)

lemma conn_step_dial:
  assumes "dial c w = (r, c1, w1)"
  shows "case r of
      Inl e \<Rightarrow> conn_step (c, w) (c1, w1)
    | Inr d \<Rightarrow> c1 = c \<and> later w w1 \<and> dkStream d \<notin> live_streams w \<and> live_streams w1 = insert (dkStream d) (live_streams w)"
proof -
  have l: "later w w1" using uncalled_dial [of w c] by (auto simp: assms uncalled_def later_def)
  show ?thesis
  proof (cases r)
    case (Inr d)
    then show ?thesis using dial_live [OF assms] l by simp
  next
    case (Inl e)
    from dial_fails [OF assms [unfolded Inl]] show ?thesis
    proof
      assume "c1 = c \<and> live_streams w1 = live_streams w"
      with l show ?thesis by (simp add: Inl conn_step_def)
    next
      assume "c1 = c\<lparr>cxClosed := True, cxControl := None\<rparr> \<and> live_streams w1 = live_streams w - held c"
      with l conn_step_gone show ?thesis by (simp add: Inl)
    qed
  qed
qed

lemma conn_step_control: "conn_step (c, w) (snd (control c w))"
proof -
  obtain r c1 w1 where d: "dial c w = (r, c1, w1)" by (rule prod_cases3)
  show ?thesis
  proof (cases r)
    case (Inl e)
    then show ?thesis
      using conn_step_dial [OF d] by (auto simp: control_def control_check_def d split: option.splits)
  next
    case (Inr dk)
    then have k: "c1 = c" "later w w1" "dkStream dk \<notin> live_streams w" "live_streams w1 = insert (dkStream dk) (live_streams w)"
      using conn_step_dial [OF d] by simp_all
    then show ?thesis
      using Inr dial_number [of c w dk c1 w1] d
      by (auto simp: control_def control_check_def control_install_def d conn_step_def held_def conn_ok_def resolved_ok_def
          split: option.splits)
  qed
qed

lemma conn_step_store:
  assumes "dkStream d' = dkStream d"
  shows "conn_step (c, w) (store_client d' c, w)"
  by (auto simp: conn_step_def store_client_def held_def conn_ok_def resolved_ok_def split: option.splits)

lemma conn_step_publish: "conn_step cw (publish node ch state msg cw)"
proof -
  obtain c w where cw: "cw = (c, w)" by (rule prod.exhaust)
  have "held (fold remember_row ns c) = held c" for ns by (simp add: held_def)
  then show ?thesis
    by (auto simp: cw conn_step_def publish_def host_call_def conn_ok_def resolved_ok_remember)
qed

lemma conn_step_readyI: "conn_step cw (c, w) \<Longrightarrow> conn_step cw (publish_ready node ns (c, w))"
  unfolding publish_ready_def by (rule conn_step_trans [OF _ conn_step_publish])

lemma conn_step_errorI: "conn_step cw (c, w) \<Longrightarrow> conn_step cw (publish_error node e (c, w))"
  unfolding publish_error_def by (rule conn_step_trans [OF _ conn_step_publish])

lemma conn_step_root: "conn_step cw (refresh_root cw)"
proof -
  obtain c w where cw: "cw = (c, w)" by (rule prod.exhaust)
  obtain r c1 w1 where k: "control c w = (r, c1, w1)" by (rule prod_cases3)
  have 1: "conn_step (c, w) (c1, w1)" using conn_step_control [of c w] by (simp add: k)
  show ?thesis
  proof (cases r)
    case (Inl e)
    then show ?thesis using conn_step_readyI [OF 1] by (simp add: cw refresh_root_def k)
  next
    case (Inr d)
    obtain q d1 w2 where n: "negotiate d w1 = (q, d1, w2)" by (rule prod_cases3)
    have "asked w1 w2" using asked_negotiate [of w1 d] by (simp add: n)
    moreover have "dkStream d1 = dkStream d" using live_negotiate [OF n] by simp
    ultimately have "conn_step (c, w) (store_client d1 c1, w2)"
      using conn_step_trans [OF conn_step_trans [OF 1 conn_step_asked] conn_step_store] by blast
    then show ?thesis
      using Inr by (cases q) (auto simp: cw refresh_root_def k n intro: conn_step_readyI)
  qed
qed

lemma conn_step_groups: "conn_step cw (publish_root_groups cw)"
proof -
  obtain c w where cw: "cw = (c, w)" by (rule prod.exhaust)
  obtain r c1 w1 where k: "control c w = (r, c1, w1)" by (rule prod_cases3)
  have 1: "conn_step (c, w) (c1, w1)" using conn_step_control [of c w] by (simp add: k)
  then show ?thesis
    using conn_step_trans [OF 1 conn_step_asked [OF asked_count_groups]]
    by (cases r) (auto simp: cw publish_root_groups_def k Let_def split_beta intro: conn_step_readyI conn_step_errorI)
qed

lemma conn_step_containers: "conn_step cw (refresh_containers d cw)"
proof -
  obtain c w where cw: "cw = (c, w)" by (rule prod.exhaust)
  obtain r w1 where l: "list_containers d w = (r, w1)" by (rule prod.exhaust)
  have 1: "asked w w1" using asked_lists(1) [of w d] by (simp add: l)
  have "conn_step (c, w) (c, snd (container_nodes d cs w1))" for cs
    unfolding container_nodes_def by (rule conn_step_asked [OF asked_trans [OF 1 asked_container_rows]])
  then show ?thesis
    using conn_step_asked [OF 1]
    by (cases r) (auto simp: cw refresh_containers_def l Let_def split_beta intro: conn_step_readyI conn_step_errorI)
qed

lemma conn_step_used:
  assumes "\<And>w. asked w (snd (listing d w))"
  shows "conn_step cw (refresh_used node listing rows d cw)"
proof -
  obtain c w where cw: "cw = (c, w)" by (rule prod.exhaust)
  obtain r w1 where l: "listing d w = (r, w1)" by (rule prod.exhaust)
  have 1: "asked w w1" using assms [of w] by (simp add: l)
  have "conn_step (c, w) (c, snd (usage_containers d w1))"
    by (rule conn_step_asked [OF asked_trans [OF 1 asked_usage]])
  then show ?thesis
    using conn_step_asked [OF 1]
    by (cases r) (auto simp: cw refresh_used_def l Let_def split_beta intro: conn_step_readyI conn_step_errorI)
qed

lemma conn_step_branch: "conn_step cw (refresh_branch node cw)"
proof -
  obtain c w where cw: "cw = (c, w)" by (rule prod.exhaust)
  obtain r c1 w1 where k: "control c w = (r, c1, w1)" by (rule prod_cases3)
  have 1: "conn_step (c, w) (c1, w1)" using conn_step_control [of c w] by (simp add: k)
  show ?thesis
  proof (cases r)
    case (Inl e)
    then show ?thesis using conn_step_errorI [OF 1] by (simp add: cw refresh_branch_def k)
  next
    case (Inr d)
    show ?thesis
      using 1 conn_step_trans [OF 1 conn_step_root] conn_step_trans [OF 1 conn_step_groups]
        conn_step_trans [OF 1 conn_step_containers [of _ d]]
        conn_step_trans [OF 1 conn_step_used [of list_images d, OF asked_lists(2)]]
        conn_step_trans [OF 1 conn_step_used [of list_volumes d, OF asked_lists(3)]]
        conn_step_trans [OF 1 conn_step_used [of list_networks d, OF asked_lists(4)]]
      by (simp add: cw refresh_branch_def k Inr)
  qed
qed

lemma conn_step_each: "conn_step cw (refresh_each nodes cw)"
proof (induction nodes arbitrary: cw)
  case (Cons n ns)
  show ?case using conn_step_trans [OF conn_step_branch Cons] by simp
qed simp

lemma conn_step_open: "conn_step cw (refresh_open cw)"
  by (simp add: refresh_open_def refresh_all_def conn_step_each)

lemma conn_step_flush: "conn_step cw (flush_branches order cw)"
proof -
  have "conn_step cw (fold refresh_branch order cw)"
  proof (induction order arbitrary: cw)
    case (Cons n ns)
    show ?case using conn_step_trans [OF conn_step_branch Cons] by simp
  qed simp
  then show ?thesis unfolding flush_branches_def by (rule conn_step_trans [OF _ conn_step_branch])
qed

lemma conn_step_reconcile: "conn_step cw (reconcile_tick cw)"
proof -
  obtain c w where cw: "cw = (c, w)" by (rule prod.exhaust)
  show ?thesis by (simp add: cw reconcile_tick_def refresh_all_def conn_step_each)
qed

lemma conn_step_close: "conn_step (c, w) (conn_close c w)"
  by (auto simp: conn_step_def conn_close_def close_control_def close_client_def held_def conn_ok_def resolved_ok_def
      split: option.splits)

lemma conn_step_follow: "conn_step (c, w) (snd (follow_events (c, w)))"
proof -
  obtain r c1 w1 where d: "dial c w = (r, c1, w1)" by (rule prod_cases3)
  show ?thesis
  proof (cases r)
    case (Inl e)
    then show ?thesis using conn_step_dial [OF d] by (simp add: follow_events_def open_stream_def d)
  next
    case (Inr dk)
    then have k: "c1 = c" "later w w1" "dkStream dk \<notin> live_streams w" "live_streams w1 = insert (dkStream dk) (live_streams w)"
      using conn_step_dial [OF d] by simp_all
    obtain q w2 where a: "api_events dk w1 = (q, w2)" by (rule prod.exhaust)
    have "asked w1 w2" using asked_api_events [of w1 dk] by (simp add: a)
    then have "live_streams (close_client dk w2) = live_streams w" "later w w2"
      using k asked_live [of w1 w2] later_trans [OF k(2) asked_later] by auto
    then have "live_streams (close_client dk w2) = live_streams w" "later w (close_client dk w2)"
      using later_trans [OF _ later_happen] by (simp_all add: close_client_def)
    then have "conn_step (c, w) (c, close_client dk w2)" by (auto simp: conn_step_def)
    then show ?thesis
      using Inr k(1) by (cases q) (auto simp: follow_events_def open_stream_def d a Let_def split_beta)
  qed
qed

subsection \<open>Through the service\<close>

fun work_targets :: "dialog_work \<Rightarrow> target list" where
  "work_targets CreateVolume = []"
| "work_targets CreateNetwork = []"
| "work_targets (RemoveContainers ts) = ts"
| "work_targets (RemoveImages ts) = ts"
| "work_targets (RemoveVolumes ts) = ts"

definition pending_ok :: "nat \<Rightarrow> pending_dialog \<Rightarrow> bool" where
  "pending_ok n p = (pdConn p < n \<and> list_all (\<lambda>t. valid_docker_id (tgId t)) (work_targets (pdWork p)))"

inductive calm :: "plugin \<Rightarrow> plugin \<Rightarrow> bool" where
  same: "calm sw sw"
| conn: "calm sw (s, w) \<Longrightarrow> r < length (svHeap s) \<Longrightarrow> conn_step (conn_at r s, w) (c, w1) \<Longrightarrow> calm sw (put_conn r c s, w1)"
| outside: "calm sw (s, w) \<Longrightarrow> later w w1 \<Longrightarrow> live_streams w1 = live_streams w \<Longrightarrow> calm sw (s, w1)"
| dialog: "calm sw (s, w) \<Longrightarrow> pending_ok (length (svHeap s)) p \<Longrightarrow> calm sw (s\<lparr>svDialogs := (svDialogs s)(i \<mapsto> p)\<rparr>, w)"
| stored: "calm sw (s, w) \<Longrightarrow> calm sw (s\<lparr>svStore := st\<rparr>, w)"

lemma calm_trans [trans]:
  assumes "calm a b" and "calm b c"
  shows "calm a c"
  using assms(2,1) by (induction rule: calm.induct) (auto intro: calm.intros)

lemma put_conn_simps [simp]:
  "length (svHeap (put_conn r c s)) = length (svHeap s)" "svConns (put_conn r c s) = svConns s"
  "svSurfaces (put_conn r c s) = svSurfaces s" "svDialogs (put_conn r c s) = svDialogs s" "svInput (put_conn r c s) = svInput s"
  "svWatchers (put_conn r c s) = svWatchers s" "svStore (put_conn r c s) = svStore s" "svContexts (put_conn r c s) = svContexts s"
  "svCancelled (put_conn r c s) = svCancelled s" "svTasks (put_conn r c s) = svTasks s"
  "svHeap (put_conn r c s) = (svHeap s)[r := c]"
  by (simp_all add: put_conn_def)

lemma put_conn_same: "put_conn r (svHeap s ! r) s = s"
  by (cases s) (simp add: put_conn_def)

lemma calm_length: "calm sw sw' \<Longrightarrow> length (svHeap (fst sw')) = length (svHeap (fst sw))"
  by (induction rule: calm.induct) simp_all

lemma calm_later: "calm sw sw' \<Longrightarrow> later (snd sw) (snd sw')"
  by (induction rule: calm.induct) (auto simp: conn_step_def intro: later_trans)

text \<open>What it leaves alone.\<close>

lemma calm_keeps:
  assumes "calm sw sw'"
  shows "svConns (fst sw') = svConns (fst sw) \<and> svSurfaces (fst sw') = svSurfaces (fst sw) \<and> svInput (fst sw') = svInput (fst sw)
    \<and> svWatchers (fst sw') = svWatchers (fst sw) \<and> svContexts (fst sw') = svContexts (fst sw)
    \<and> svCancelled (fst sw') = svCancelled (fst sw) \<and> svTasks (fst sw') = svTasks (fst sw)"
  using assms by (induction rule: calm.induct) simp_all

lemma calm_conns:
  assumes "calm sw sw'"
  shows "cxSession (svHeap (fst sw') ! r) = cxSession (svHeap (fst sw) ! r)
    \<and> (cxClosed (svHeap (fst sw) ! r) \<longrightarrow> cxClosed (svHeap (fst sw') ! r))"
  using assms
proof (induction rule: calm.induct)
  case (conn sw s w r' c w1)
  then show ?case by (cases "r = r'") (auto simp: conn_step_def conn_at_def nth_list_update)
qed simp_all

subsection \<open>Calm operations\<close>

lemma calm_asked: "asked w w' \<Longrightarrow> calm (s, w) (s, w')"
  using calm.outside [OF calm.same] by (simp add: asked_later asked_live)

lemma later_host_call: "later w (snd (host_call m p w))"
  by (simp add: host_call_def)

lemma calm_call: "calm (s, w) (s, snd (host_call m p w))"
  by (rule calm.outside [OF calm.same later_host_call]) simp

lemma host_ask_world: "snd (host_ask m p dc z w) = snd (host_call m p w)"
  by (auto simp: host_ask_def split: prod.splits sum.splits option.splits)

lemma calm_on_conn:
  assumes "r < length (svHeap s)" and "conn_step (conn_at r s, w) (snd (f (conn_at r s) w))"
  shows "calm (s, w) (snd (on_conn r f (s, w)))"
  using calm.conn [OF calm.same assms(1), of w] assms(2)
  by (cases "f (conn_at r s) w"; cases "snd (f (conn_at r s) w)") (simp add: on_conn_def)

lemma calm_control: "r < length (svHeap s) \<Longrightarrow> calm (s, w) (snd (control_of r (s, w)))"
  using calm_on_conn [of r s w control] conn_step_control by simp

lemma calm_on_tree:
  assumes "r < length (svHeap (fst sw))" and "\<And>cw. conn_step cw (f cw)"
  shows "calm sw (on_tree r f sw)"
proof -
  obtain s w where sw: "sw = (s, w)" by (rule prod.exhaust)
  obtain c w1 where f: "f (conn_at r s, w) = (c, w1)" by (rule prod.exhaust)
  show ?thesis
    using calm.conn [OF calm.same, of r s w c w1] assms(1) assms(2) [of "(conn_at r s, w)"] by (simp add: sw on_tree_def f)
qed

lemma calm_refresh: "r < length (svHeap (fst sw)) \<Longrightarrow> calm sw (on_tree r refresh_open sw)"
  by (rule calm_on_tree [OF _ conn_step_open])

lemma calm_open_dialog:
  assumes "case handle of None \<Rightarrow> True | Some p \<Rightarrow> pending_ok (length (svHeap (fst sw))) p"
  shows "calm sw (open_dialog kind title submit sections vals handle sw)"
proof -
  obtain s w where sw: "sw = (s, w)" by (rule prod.exhaust)
  obtain q w1 where h: "host_ask ''dialog.open'' (dialog_payload kind title submit sections vals) dec_dialog_id [] w = (q, w1)"
    by (rule prod.exhaust)
  have 1: "calm (s, w) (s, w1)"
    using calm_call host_ask_world [of "''dialog.open''" "dialog_payload kind title submit sections vals" dec_dialog_id "[]" w]
    by (simp add: h)
  then show ?thesis
    using calm.dialog [OF 1] assms
    by (auto simp: sw open_dialog_def on_world_def h split: sum.splits option.splits)
qed

lemma calm_message: "calm sw (message_dialog title msg sw)"
  unfolding message_dialog_def by (rule calm_open_dialog) simp

lemma calm_message_after: "calm sw sw1 \<Longrightarrow> calm sw (message_dialog title msg sw1)"
  by (rule calm_trans [OF _ calm_message])

lemma calm_name:
  assumes "r < length (svHeap (fst sw))"
  shows "calm sw (snd (container_name r i sw))"
proof -
  obtain s w where sw: "sw = (s, w)" by (rule prod.exhaust)
  obtain q s1 w1 where k: "control_of r sw = (q, s1, w1)" by (rule prod_cases3)
  have 1: "calm sw (s1, w1)" using calm_control [of r s w] assms k by (simp add: sw)
  show ?thesis
  proof (cases q)
    case (Inr d)
    obtain p w2 where l: "inspect_container d i w1 = (p, w2)" by (rule prod.exhaust)
    have "calm sw (s1, w2)" using calm_trans [OF 1 calm_asked] asked_lists(5) [of w1 d i] by (simp add: l)
    then show ?thesis by (cases p) (simp_all add: container_name_def k Inr on_world_def l)
  qed (simp add: container_name_def k 1)
qed

lemma calm_label: "r < length (svHeap (fst sw)) \<Longrightarrow> calm sw (snd (target_label r t sw))"
  by (simp add: target_label_def calm_name calm.same)

text \<open>An operation of the API on one object: traffic on the client's stream.\<close>

definition api_op :: "target_op \<Rightarrow> bool" where
  "api_op f = (\<forall>d i w. asked w (snd (f d i w)))"

lemma api_ops [simp]:
  "api_op start_container" "api_op stop_container" "api_op restart_container" "api_op kill_container"
  "api_op pause_container" "api_op unpause_container" "api_op remove_network" "api_op (\<lambda>d i. remove_container d i a b)"
  "api_op (\<lambda>d i. remove_image d i a b)" "api_op (\<lambda>d i. remove_volume d i a)"
  by (simp_all add: api_op_def start_container_def stop_container_def restart_container_def kill_container_def
      pause_container_def unpause_container_def container_post_def remove_network_def remove_container_def remove_image_def
      remove_volume_def asked_post_json asked_api_delete)

lemma calm_run_each:
  assumes "api_op f" and "r < length (svHeap (fst sw))"
  shows "calm sw (snd (run_each f r d ts sw))"
  using assms(2)
proof (induction ts arbitrary: sw)
  case (Cons t ts)
  obtain s w where sw: "sw = (s, w)" by (rule prod.exhaust)
  obtain q w1 where f: "f d (tgId t) w = (q, w1)" by (rule prod.exhaust)
  have 1: "calm sw (s, w1)" using calm_asked [of w w1 s] assms(1) f unfolding api_op_def sw by (metis snd_conv)
  show ?case
  proof (cases q)
    case None
    then show ?thesis using calm_trans [OF 1 Cons.IH] Cons.prems by (simp add: sw on_world_def f)
  next
    case (Some e)
    obtain l sw2 where l: "target_label r t (s, w1) = (l, sw2)" by (rule prod.exhaust)
    have 2: "calm sw sw2" using calm_trans [OF 1 calm_label [of r]] Cons.prems l by (metis fst_conv snd_conv sw)
    show ?thesis
      using calm_trans [OF 2 Cons.IH] calm_length [OF 2] Cons.prems Some
      by (simp add: sw on_world_def f l split_beta)
  qed
qed (simp add: calm.same)

lemma calm_report: "calm sw (report_batch fs sw)"
  by (simp add: report_batch_def calm_message calm.same)

lemma calm_remove_each:
  assumes "api_op f" and "r < length (svHeap (fst sw))"
  shows "calm sw (snd (remove_each f r ts sw))"
proof -
  obtain q sw1 where k: "control_of r sw = (q, sw1)" by (rule prod.exhaust)
  have 1: "calm sw sw1" using calm_control [of r "fst sw" "snd sw"] assms(2) k by simp
  show ?thesis
  proof (cases q)
    case (Inr d)
    obtain fs sw2 where e: "run_each f r d ts sw1 = (fs, sw2)" by (rule prod.exhaust)
    have 2: "calm sw sw2"
      using calm_trans [OF 1 calm_run_each [OF assms(1)]] calm_length [OF 1] assms(2) e by (metis snd_conv)
    then have "calm sw (report_batch fs (on_tree r refresh_open sw2))"
      using calm_trans [OF calm_trans [OF 2 calm_refresh] calm_report] calm_length [OF 2] assms(2) by simp
    then show ?thesis by (simp add: remove_each_def k Inr e)
  qed (simp add: remove_each_def k 1)
qed

lemma calm_create_one:
  assumes "\<And>d w. asked w (snd (f d w))" and "r < length (svHeap (fst sw))"
  shows "calm sw (snd (create_one f r sw))"
proof -
  obtain q s1 w1 where k: "control_of r sw = (q, s1, w1)" by (rule prod_cases3)
  have 1: "calm sw (s1, w1)" using calm_control [of r "fst sw" "snd sw"] assms(2) k by simp
  show ?thesis
  proof (cases q)
    case (Inr d)
    obtain p w2 where e: "f d w1 = (p, w2)" by (rule prod.exhaust)
    have 2: "calm sw (s1, w2)" using calm_trans [OF 1 calm_asked] assms(1) [of w1 d] e by simp
    show ?thesis
      using 2 calm_trans [OF 2 calm_refresh] calm_length [OF 2] assms(2)
      by (cases p) (simp_all add: create_one_def k Inr on_world_def e)
  qed (simp add: create_one_def k 1)
qed

lemma calm_answer:
  assumes "pdConn p < length (svHeap (fst sw))"
  shows "calm sw (answer_dialog p vals sw)"
proof -
  have "calm sw (snd (dialog_handle p vals sw))"
    using assms
    by (cases "pdWork p")
      (simp_all add: dialog_handle_def calm_remove_each calm_create_one create_volume_def create_network_def asked_post_json)
  then show ?thesis
    unfolding answer_dialog_def
    by (cases "dialog_handle p vals sw"; cases "fst (dialog_handle p vals sw)") (auto intro: calm_message_after)
qed

lemma asked_inspect_raw: "asked w (snd (inspect_raw d k i w))"
  by (simp add: inspect_raw_def asked_get_raw)

lemma calm_inspect:
  assumes "r < length (svHeap (fst sw))"
  shows "calm sw (inspect_dialog r t sw)"
proof -
  obtain q s1 w1 where k: "control_of r sw = (q, s1, w1)" by (rule prod_cases3)
  have 1: "calm sw (s1, w1)" using calm_control [of r "fst sw" "snd sw"] assms k by simp
  show ?thesis
  proof (cases q)
    case (Inl e)
    then show ?thesis using calm_message_after [OF 1] by (simp add: inspect_dialog_def k)
  next
    case (Inr d)
    obtain p w2 where l: "inspect_raw d (tgKind t) (tgId t) w1 = (p, w2)" by (rule prod.exhaust)
    have 2: "calm sw (s1, w2)" using calm_trans [OF 1 calm_asked] asked_inspect_raw [of w1 d "tgKind t" "tgId t"] by (simp add: l)
    show ?thesis
    proof (cases p)
      case (Inl e)
      then show ?thesis using calm_message_after [OF 2] by (simp add: inspect_dialog_def k Inr on_world_def l)
    next
      case (Inr raw)
      show ?thesis
        using calm_trans [OF 2 calm_open_dialog [where handle = None]]
        by (simp add: inspect_dialog_def k \<open>q = Inr d\<close> on_world_def l Inr)
    qed
  qed
qed

lemma calm_questions:
  assumes "r < length (svHeap (fst sw))" and "list_all (\<lambda>t. valid_docker_id (tgId t)) ts"
  shows "calm sw (create_volume_dialog r sw)" and "calm sw (create_network_dialog r sw)"
    and "calm sw (remove_image_dialog r ts sw)" and "calm sw (remove_volume_dialog r ts sw)"
    and "calm sw (remove_container_dialog r ts sw)"
proof -
  have ask: "calm sw (remove_dialog title form r work sw)" if "list_all (\<lambda>t. valid_docker_id (tgId t)) (work_targets work)"
    and "r < length (svHeap (fst sw))" for title form work sw
    unfolding remove_dialog_def by (rule calm_open_dialog) (use that in \<open>simp add: pending_ok_def\<close>)
  show "calm sw (create_volume_dialog r sw)" "calm sw (create_network_dialog r sw)"
    unfolding create_volume_dialog_def create_network_dialog_def
    by (rule calm_open_dialog, use assms in \<open>simp add: pending_ok_def\<close>)+
  show "calm sw (remove_image_dialog r ts sw)" "calm sw (remove_volume_dialog r ts sw)"
    using assms by (simp_all add: remove_image_dialog_def remove_volume_dialog_def ask)
  obtain name sw1 where n: "container_name r (tgId (ts ! 0)) sw = (name, sw1)" by (rule prod.exhaust)
  have 1: "calm sw sw1" using calm_name [OF assms(1), of "tgId (ts ! 0)"] by (simp add: n)
  show "calm sw (remove_container_dialog r ts sw)"
    using calm_trans [OF 1 ask [of "RemoveContainers ts"]] ask [of "RemoveContainers ts" sw] calm_length [OF 1] assms
    by (simp add: remove_container_dialog_def n)
qed

lemma immediate_api: "immediate_op a = Some f \<Longrightarrow> api_op f"
  by (auto simp: immediate_op_def split: if_splits)

lemma calm_over_targets:
  assumes "r < length (svHeap (fst sw))"
  shows "calm sw (snd (run_over_targets r ts a sw))"
proof -
  obtain q sw1 where k: "control_of r sw = (q, sw1)" by (rule prod.exhaust)
  have 1: "calm sw sw1" using calm_control [of r "fst sw" "snd sw"] assms k by simp
  show ?thesis
  proof (cases q)
    case (Inr d)
    show ?thesis
    proof (cases "immediate_op a")
      case (Some f)
      then show ?thesis
        using calm_trans [OF 1 calm_run_each [OF immediate_api [OF Some]]] calm_length [OF 1] assms
        by (simp add: run_over_targets_def k Inr)
    qed (simp add: run_over_targets_def k Inr 1)
  qed (simp add: run_over_targets_def k 1)
qed

lemma asked_start_exec: "asked w (snd (start_exec d i tty w))"
  by (auto simp: start_exec_def Let_def asked_http split: http_reply.splits)

lemma asked_create_exec: "asked w (snd (create_exec d i cfg w))"
  by (auto simp: create_exec_def asked_post_json_out [THEN asked_trans [OF asked_refl]] split: prod.splits sum.splits
      intro: asked_post_json_out)
    (metis asked_post_json_out snd_conv)+

lemma calm_resize:
  assumes "\<And>sur. svSurfaces (fst sw) sid = Some sur \<Longrightarrow> sfConn sur < length (svHeap (fst sw))"
  shows "calm sw (surface_resize sid cols rows sw)"
proof (cases "svSurfaces (fst sw) sid")
  case (Some sur)
  obtain q s1 w1 where k: "control_of (sfConn sur) sw = (q, s1, w1)" by (rule prod_cases3)
  have 1: "calm sw (s1, w1)" using calm_control [of "sfConn sur" "fst sw" "snd sw"] assms [OF Some] k by simp
  have 2: "calm sw (s1, snd (resize_exec d (sfExec sur) cols rows w1))" for d
    using calm_trans [OF 1 calm_asked] by (simp add: resize_exec_def asked_post_json)
  show ?thesis
    using 1 2 by (cases q) (simp_all add: surface_resize_def Some k calm.same on_world_def split_beta)
qed (simp add: surface_resize_def calm.same)

lemma calm_input: "calm sw (surface_input sid d sw)"
proof -
  obtain s w where sw: "sw = (s, w)" by (rule prod.exhaust)
  have "calm (s, w) (s, happen (EvSend n d) w)" for n by (rule calm.outside [OF calm.same later_happen]) simp
  then show ?thesis by (simp add: sw surface_input_def calm.same split: option.split)
qed

lemma calm_write: "calm (s, w) (s, snd (write_surface sid d stream w))"
  using calm_call [of s w] by (auto simp: write_surface_def split: prod.splits sum.splits) (metis snd_conv)+

lemma calm_error: "calm (s, w) (s, surface_error sid msg w)"
  by (simp add: surface_error_def calm_call)

lemma calm_log_round: "calm sw (snd (log_round ctx sid rd sw))"
proof -
  obtain s w where sw: "sw = (s, w)" by (rule prod.exhaust)
  show ?thesis
    using calm_write [of s w] calm_error [of s w]
    by (auto simp: sw log_round_def calm.same split: prod.splits sum.splits option.splits) (metis snd_conv)+
qed

lemma calm_console_round: "calm sw (snd (console_round ctx sid chunk failed sw))"
proof -
  obtain s w where sw: "sw = (s, w)" by (rule prod.exhaust)
  obtain q w1 where r: "(if chunk = [] then (None, w) else write_surface sid chunk ''stdout'' w) = (q, w1)" by (rule prod.exhaust)
  have 1: "calm (s, w) (s, w1)" using calm_write [of s w sid chunk "''stdout''"] r by (auto simp: calm.same split: if_splits)
  show ?thesis
    using 1 calm_trans [OF 1 calm_error]
    by (simp add: sw console_round_def r calm.same split: option.split)
qed

lemma conn_step_negotiate:
  assumes "negotiate d w = (q, d1, w1)"
  shows "conn_step (c, w) (store_client d1 c, w1)"
proof -
  have "asked w w1" "dkStream d1 = dkStream d" using asked_negotiate [of w d] live_negotiate [OF assms] by (simp_all add: assms)
  then show ?thesis using conn_step_trans [OF conn_step_asked conn_step_store] by blast
qed

lemma calm_list:
  assumes "\<And>w. asked w (snd (f w))"
  shows "calm sw (snd (list_summary label say f sw))"
proof -
  obtain q w1 where l: "f (snd sw) = (q, w1)" by (rule prod.exhaust)
  have "calm sw (fst sw, w1)" using calm_asked [of "snd sw" w1 "fst sw"] assms [of "snd sw"] by (simp add: l)
  then show ?thesis by (cases q) (simp_all add: list_summary_def on_world_def l)
qed

lemma calm_version:
  assumes "r < length (svHeap (fst sw))"
  shows "calm sw (snd (version_summary label r d sw))"
proof -
  obtain s w where sw: "sw = (s, w)" by (rule prod.exhaust)
  obtain q d1 w1 where n: "negotiate d w = (q, d1, w1)" by (rule prod_cases3)
  have "calm sw (put_conn r (store_client d1 (conn_at r s)) s, w1)"
    unfolding sw by (rule calm.conn [OF calm.same _ conn_step_negotiate [OF n]]) (use assms sw in simp)
  then show ?thesis by (cases q) (simp_all add: version_summary_def on_conn_def sw n)
qed

lemma calm_group:
  assumes "r < length (svHeap (fst sw))"
  shows "calm sw (snd (group_details r node sw))"
proof -
  obtain q sw1 where k: "control_of r sw = (q, sw1)" by (rule prod.exhaust)
  have 1: "calm sw sw1" using calm_control [of r "fst sw" "snd sw"] assms k by simp
  have 2: "calm sw1 (snd (group_summary node label r d sw1))" for label d
    using calm_length [OF 1] assms by (simp add: group_summary_def calm_list calm_version asked_lists)
  show ?thesis
    using 1 calm_trans [OF 1 2] by (cases q) (simp_all add: group_details_def k Let_def split_beta)
qed

lemma calm_read_only:
  assumes "r < length (svHeap (fst sw))"
  shows "calm sw (snd (read_only_details r k i sw))"
proof -
  obtain q s1 w1 where c: "control_of r sw = (q, s1, w1)" by (rule prod_cases3)
  have 1: "calm sw (s1, w1)" using calm_control [of r "fst sw" "snd sw"] assms c by simp
  show ?thesis
  proof (cases q)
    case (Inr d)
    obtain p w2 where l: "inspect_raw d k i w1 = (p, w2)" by (rule prod.exhaust)
    have "calm sw (s1, w2)" using calm_trans [OF 1 calm_asked] asked_inspect_raw [of w1 d k i] by (simp add: l)
    then show ?thesis by (cases p) (simp_all add: read_only_details_def c Inr on_world_def l)
  qed (simp add: read_only_details_def c 1)
qed

subsection \<open>Opening a tab\<close>

text \<open>The ids the host has given to tabs, and a host that never gives one twice.\<close>

definition tab_reply :: "world \<Rightarrow> event list \<Rightarrow> json \<Rightarrow> string option" where
  "tab_reply w es p = (case wCall w es ''surface.open'' p of Inr (Some j) \<Rightarrow> dec_surface_id j [] | _ \<Rightarrow> None)"

definition tabs_opened :: "world \<Rightarrow> string set" where
  "tabs_opened w =
     {sid. \<exists>es p fs. wTrace w = es @ EvCall ''surface.open'' p # fs \<and> tab_reply w es p = Some sid}"

definition fresh_tabs :: "world \<Rightarrow> bool" where
  "fresh_tabs w =
     (\<forall>es p fs q sid. tab_reply w es p = Some sid \<longrightarrow> tab_reply w (es @ EvCall ''surface.open'' p # fs) q \<noteq> Some sid)"

lemma later_oracles:
  assumes "later w w'"
  shows "wCall w' = wCall w" "wOpen w' = wOpen w" "wHttp w' = wHttp w" "wWalk w' = wWalk w"
  using assms by (auto simp: later_def)

lemma tab_reply_later: "later w w' \<Longrightarrow> tab_reply w' = tab_reply w"
  by (rule ext)+ (simp add: tab_reply_def later_oracles)

lemma fresh_tabs_later: "later w w' \<Longrightarrow> fresh_tabs w' = fresh_tabs w"
  by (simp add: fresh_tabs_def tab_reply_later)

lemma tabs_opened_later:
  assumes "later w w'"
  shows "tabs_opened w \<subseteq> tabs_opened w'"
proof
  fix sid assume "sid \<in> tabs_opened w"
  then obtain es p fs where 1: "wTrace w = es @ EvCall ''surface.open'' p # fs" "tab_reply w es p = Some sid"
    by (auto simp: tabs_opened_def)
  obtain gs where "wTrace w' = wTrace w @ gs" using assms by (auto simp: later_def)
  with 1 have "wTrace w' = es @ EvCall ''surface.open'' p # (fs @ gs)" by simp
  then show "sid \<in> tabs_opened w'" using 1(2) tab_reply_later [OF assms] unfolding tabs_opened_def by auto
qed

lemma open_surface_Inr:
  assumes "open_surface session kind title w = (Inr sid, w1)"
  shows "w1 = happen (EvCall ''surface.open'' (open_params session kind title)) w"
    and "sid \<in> tabs_opened w1" and "fresh_tabs w \<Longrightarrow> sid \<notin> tabs_opened w"
proof -
  have w1: "w1 = happen (EvCall ''surface.open'' (open_params session kind title)) w"
    using host_ask_world [of "''surface.open''" "open_params session kind title" dec_surface_id "[]" w] assms
    by (simp add: open_surface_def host_call_def)
  have reply: "tab_reply w (wTrace w) (open_params session kind title) = Some sid"
    using assms
    by (auto simp: open_surface_def host_ask_def host_call_def tab_reply_def split: sum.splits option.splits)
  show "w1 = happen (EvCall ''surface.open'' (open_params session kind title)) w" by (rule w1)
  have "tab_reply w1 = tab_reply w" unfolding w1 by (rule tab_reply_later) simp
  then show "sid \<in> tabs_opened w1" using reply by (auto simp: tabs_opened_def w1 happen_def)
  show "sid \<notin> tabs_opened w" if "fresh_tabs w"
  proof
    assume "sid \<in> tabs_opened w"
    then obtain es p fs where "wTrace w = es @ EvCall ''surface.open'' p # fs" "tab_reply w es p = Some sid"
      by (auto simp: tabs_opened_def)
    with that reply show False unfolding fresh_tabs_def by metis
  qed
qed

text \<open>
  Everything before the tab is tracked: a calm part, and then one stream more, which nobody had, and an id for
  the tab.
\<close>

definition stream_out :: "plugin \<Rightarrow> docker \<Rightarrow> plugin \<Rightarrow> bool" where
  "stream_out sw d sw' =
     (\<exists>s w w'. calm sw (s, w) \<and> sw' = (s, w') \<and> later w w' \<and> live_streams w' = insert (dkStream d) (live_streams w)
        \<and> dkStream d \<notin> live_streams w \<and> dkStream d = opened (wTrace w) \<and> opened (wTrace w) < opened (wTrace w'))"

definition new_tab :: "plugin \<Rightarrow> docker \<Rightarrow> string \<Rightarrow> plugin \<Rightarrow> bool" where
  "new_tab sw d sid sw' =
     (stream_out sw d sw' \<and> sid \<in> tabs_opened (snd sw') \<and> (fresh_tabs (snd sw) \<longrightarrow> sid \<notin> tabs_opened (snd sw)))"

lemma stream_out_step:
  assumes "stream_out sw d (s, w)" and "later w w1" and "live_streams w1 = live_streams w"
  shows "stream_out sw d (s, w1)"
  using assms later_opened [OF assms(2)] unfolding stream_out_def by (fastforce intro: later_trans)

lemma stream_out_asked: "stream_out sw d (s, w) \<Longrightarrow> asked w w1 \<Longrightarrow> stream_out sw d (s, w1)"
  by (rule stream_out_step) (simp_all add: asked_later asked_live)

text \<open>Closing the stream again leaves a calm operation.\<close>

lemma stream_back:
  assumes "stream_out sw d (s, w)" and "later (close_client d w) w1" and "live_streams w1 = live_streams (close_client d w)"
  shows "calm sw (s, w1)"
proof -
  obtain w0 where 0: "calm sw (s, w0)" "later w0 w" "live_streams w = insert (dkStream d) (live_streams w0)"
    "dkStream d \<notin> live_streams w0"
    using assms(1) by (auto simp: stream_out_def)
  have "later w (close_client d w)" by (simp add: close_client_def)
  with 0 assms(2,3) have "later w0 w1" "live_streams w1 = live_streams w0" by (auto intro: later_trans)
  then show ?thesis by (rule calm.outside [OF 0(1)])
qed

lemma stream_closed: "stream_out sw d (s, w) \<Longrightarrow> calm sw (close_dialog d title msg (s, w))"
  unfolding close_dialog_def by (rule calm_message_after) (simp add: stream_back)

lemma stream_opened:
  assumes "r < length (svHeap s)" and "on_conn r open_stream (s, w) = (q, sw1)"
  shows "case q of Inl e \<Rightarrow> calm (s, w) sw1 | Inr d \<Rightarrow> stream_out (s, w) d sw1"
proof -
  obtain p c1 w1 where d: "dial (conn_at r s) w = (p, c1, w1)" by (rule prod_cases3)
  have q: "q = p" "sw1 = (put_conn r c1 s, w1)" using assms(2) by (simp_all add: on_conn_def open_stream_def d)
  show ?thesis
  proof (cases p)
    case (Inl e)
    then show ?thesis using calm.conn [OF calm.same assms(1)] conn_step_dial [OF d] q by simp
  next
    case (Inr dk)
    then have k: "c1 = conn_at r s" "later w w1" "dkStream dk \<notin> live_streams w"
      "live_streams w1 = insert (dkStream dk) (live_streams w)"
      using conn_step_dial [OF d] by simp_all
    moreover have "dkStream dk = opened (wTrace w)" using dial_number d Inr by blast
    moreover from this have "opened (wTrace w) < opened (wTrace w1)" using live_below [of "dkStream dk" w1] k(4) by simp
    ultimately show ?thesis
      using q Inr calm.same by (simp add: stream_out_def conn_at_def put_conn_same) (rule exI [of _ w], simp)
  qed
qed

lemma stream_out_after: "calm a b \<Longrightarrow> stream_out b d c \<Longrightarrow> stream_out a d c"
  unfolding stream_out_def using calm_trans by blast

lemma new_tabI:
  assumes "stream_out sw d (s, w)" and "open_surface session kind title w = (Inr sid, w1)"
  shows "new_tab sw d sid (s, w1)"
proof -
  have o: "w1 = happen (EvCall ''surface.open'' (open_params session kind title)) w"
    "sid \<in> tabs_opened w1" "fresh_tabs w \<Longrightarrow> sid \<notin> tabs_opened w"
    using open_surface_Inr [OF assms(2)] by blast+
  obtain w0 where 0: "calm sw (s, w0)" "later w0 w" using assms(1) by (auto simp: stream_out_def)
  have l: "later (snd sw) w" using later_trans [OF calm_later [OF 0(1)]] 0(2) by simp
  have "stream_out sw d (s, w1)" by (rule stream_out_step [OF assms(1)]) (simp_all add: o(1))
  moreover have "fresh_tabs (snd sw) \<longrightarrow> sid \<notin> tabs_opened (snd sw)"
    using o(3) tabs_opened_later [OF l] fresh_tabs_later [OF l] by blast
  ultimately show ?thesis using o(2) by (simp add: new_tab_def)
qed

lemma new_tab_step:
  assumes "new_tab sw d sid (s, w)" and "asked w w1"
  shows "new_tab sw d sid (s, w1)"
  using assms stream_out_asked [of sw d s w w1] tabs_opened_later [OF asked_later [OF assms(2)]]
  by (auto simp: new_tab_def)

lemma open_surface_world:
  "snd (open_surface session kind title w) = happen (EvCall ''surface.open'' (open_params session kind title)) w"
  using host_ask_world by (simp add: open_surface_def host_call_def)

lemma log_surface_cases:
  assumes "r < length (svHeap (fst sw))"
  obtains "calm sw (log_surface r i sw)"
  | d sid body sw' where "new_tab sw d sid sw'" "log_surface r i sw = start_logs r d sid body sw'"
proof -
  obtain name s1 w1 where n: "container_name r i sw = (name, s1, w1)" by (rule prod_cases3)
  have 1: "calm sw (s1, w1)" using calm_name [OF assms, of i] by (simp add: n)
  obtain q s2 w2 where k: "on_conn r open_stream (s1, w1) = (q, s2, w2)" by (rule prod_cases3)
  have "r < length (svHeap s1)" using calm_length [OF 1] assms by simp
  note opened_stream = stream_opened [OF this k]
  show ?thesis
  proof (cases q)
    case (Inl e)
    then have "calm sw (s2, w2)" using opened_stream calm_trans [OF 1] by simp
    then show ?thesis
      using that(1) calm_message_after by (simp add: log_surface_def n k Inl)
  next
    case (Inr d)
    then have 2: "stream_out sw d (s2, w2)" using opened_stream stream_out_after [OF 1] by simp
    let ?open = "open_surface (cxSession (conn_at r s2)) ''log'' (tab_title ''Logs'' name) w2"
    obtain p w3 where o: "?open = (p, w3)" by (rule prod.exhaust)
    have 3: "stream_out sw d (s2, w3)"
      using stream_out_step [OF 2] open_surface_world o by (metis later_happen live_happen(4) snd_conv)
    show ?thesis
    proof (cases p)
      case (Inl e)
      then show ?thesis
        using that(1) stream_closed [OF 3] by (simp add: log_surface_def n k \<open>q = Inr d\<close> on_world_def o)
    next
      case (Inr sid)
      have tab: "new_tab sw d sid (s2, w3)" using new_tabI [OF 2 o [unfolded Inr]] .
      let ?opts = "\<lparr>loFollow = True, loTimestamps = rsLogStamps (settings_for name (conn_at r s1)),
        loTail = rsLogTail (settings_for name (conn_at r s1))\<rparr>"
      obtain t w4 where l: "container_logs d i ?opts w3 = (t, w4)" by (rule prod.exhaust)
      have a: "asked w3 w4" using asked_api_request [of w3 d] l unfolding container_logs_def by (metis snd_conv)
      show ?thesis
      proof (cases t)
        case (Inl e)
        have "stream_out sw d (s2, surface_error sid (user_message (Some e)) w4)"
          unfolding surface_error_def
          by (rule stream_out_step [OF stream_out_asked [OF 3 a] later_host_call live_host_call])
        from stream_back [OF this later_refl refl]
        have "calm sw (s2, close_client d (surface_error sid (user_message (Some e)) w4))" .
        then show ?thesis
          using that(1) by (simp add: log_surface_def n k \<open>q = Inr d\<close> on_world_def o \<open>p = Inr sid\<close> l Inl del: user_message.simps)
      next
        case (Inr body)
        then show ?thesis
          using that(2) [OF new_tab_step [OF tab a]]
          by (simp add: log_surface_def n k \<open>q = Inr d\<close> on_world_def o \<open>p = Inr sid\<close> l)
      qed
    qed
  qed
qed

lemma console_surface_cases:
  assumes "r < length (svHeap (fst sw))"
  obtains "calm sw (console_surface r i sw)"
  | d exec sid sw' where "new_tab sw d sid sw'" "exec \<noteq> []" "console_surface r i sw = start_console r d exec sid sw'"
proof -
  obtain name s1 w1 where n: "container_name r i sw = (name, s1, w1)" by (rule prod_cases3)
  have 1: "calm sw (s1, w1)" using calm_name [OF assms, of i] by (simp add: n)
  obtain q s2 w2 where k: "on_conn r open_stream (s1, w1) = (q, s2, w2)" by (rule prod_cases3)
  have "r < length (svHeap s1)" using calm_length [OF 1] assms by simp
  note opened_stream = stream_opened [OF this k]
  show ?thesis
  proof (cases q)
    case (Inl e)
    then have "calm sw (s2, w2)" using opened_stream calm_trans [OF 1] by simp
    then show ?thesis
      using that(1) calm_message_after by (simp add: console_surface_def n k Inl)
  next
    case (Inr d)
    then have 2: "stream_out sw d (s2, w2)" using opened_stream stream_out_after [OF 1] by simp
    let ?cfg = "console_exec (settings_for name (conn_at r s1))"
    obtain p w3 where c: "create_exec d i ?cfg w2 = (p, w3)" by (rule prod.exhaust)
    have 3: "stream_out sw d (s2, w3)" using stream_out_asked [OF 2] asked_create_exec [of w2 d i ?cfg] by (simp add: c)
    show ?thesis
    proof (cases p)
      case (Inl e)
      then show ?thesis
        using that(1) stream_closed [OF 3] by (simp add: console_surface_def n k \<open>q = Inr d\<close> on_world_def c del: user_message.simps)
    next
      case (Inr exec)
      have exec: "exec \<noteq> []" using c Inr by (auto simp: create_exec_def split: prod.splits sum.splits if_splits)
      obtain t w4 where e: "start_exec d exec True w3 = (t, w4)" by (rule prod.exhaust)
      have 4: "stream_out sw d (s2, w4)" using stream_out_asked [OF 3] asked_start_exec [of w3 d exec True] by (simp add: e)
      show ?thesis
      proof (cases t)
        case (Some e')
        then show ?thesis
          using that(1) stream_closed [OF 4]
          by (simp add: console_surface_def n k \<open>q = Inr d\<close> on_world_def c Inr e del: user_message.simps)
      next
        case None
        obtain u w5 where o: "open_surface (cxSession (conn_at r s2)) ''terminal'' (tab_title ''Console'' name) w4 = (u, w5)"
          by (rule prod.exhaust)
        have 5: "stream_out sw d (s2, w5)"
          using stream_out_step [OF 4] open_surface_world o by (metis later_happen live_happen(4) snd_conv)
        show ?thesis
        proof (cases u)
          case (Inl e')
          have "calm sw (s2, close_client d (close_client d w5))"
            by (rule stream_back [OF 5]) (simp_all add: close_client_def)
          then have "calm sw (close_dialog d console_title (surface_failure (Some e')) (s2, close_client d w5))"
            unfolding close_dialog_def by (intro calm_message_after) simp
          then show ?thesis
            using that(1)
            by (simp add: console_surface_def n k \<open>q = Inr d\<close> on_world_def c Inr e None o Inl del: surface_failure.simps)
        next
          case (Inr sid)
          then show ?thesis
            using that(2) [OF new_tabI [OF 4 o [unfolded Inr]] exec]
            by (simp add: console_surface_def n k \<open>q = Inr d\<close> on_world_def c \<open>p = Inr exec\<close> e None o)
        qed
      qed
    qed
  qed
qed

end
