(* ===== verification/Lifecycle.thy ===== *)
theory Lifecycle
  imports Effects
begin

text \<open>
  The running service: the host's messages and the goroutines' tasks in any order, each in one piece, and what
  every order keeps. A task's turn comes with what the outside decides meanwhile: how much of a log has
  arrived and how it ends, what a console printed. The loops of \<open>watchEvents\<close> and \<open>reconcile\<close> and the pumps take
  one round a turn.
\<close>

subsection \<open>Messages\<close>

datatype host_message =
    Observe string "string list"
  | Invoke string "string list" string
  | Describe string string
  | Apply string string "(string \<times> string) list"
  | Input string string
  | Resize string int int
  | Closed string
  | Submit string "(string \<times> string) list"
  | Cancel string
  | Shutdown

fun hear :: "host_message \<Rightarrow> plugin \<Rightarrow> plugin" where
  "hear (Observe session ids) sw = observe session ids sw"
| "hear (Invoke session ids act) sw = invoke_action session ids act sw"
| "hear (Describe session node) sw = snd (describe_node session node sw)"
| "hear (Apply session node vals) sw = snd (apply_details session node vals sw)"
| "hear (Input sid d) sw = surface_input sid d sw"
| "hear (Resize sid cols rows) sw = surface_resize sid cols rows sw"
| "hear (Closed sid) sw = (surface_closed sid (fst sw), snd sw)"
| "hear (Submit i vals) sw = (dialog_submitted i vals (fst sw), snd sw)"
| "hear (Cancel i) sw = (dialog_cancelled i (fst sw), snd sw)"
| "hear Shutdown sw = (spawn (TClose (shutdown_list sw)) (shutdown_clear (fst sw)), snd sw)"

subsection \<open>Turns\<close>

text \<open>
  A round of \<open>watchEvents\<close>: cancelled, it ends; refused for good or with its session over, it drops the session;
  after any other error it waits.
\<close>

definition watch_round :: "nat \<Rightarrow> nat \<Rightarrow> plugin \<Rightarrow> plugin" where
  "watch_round ctx r sw =
     (if ctx \<in> svCancelled (fst sw) then sw
      else
        (case on_conn r (\<lambda>c w. follow_events (c, w)) sw of
           ((err, es), s1, w1) \<Rightarrow>
             if (case err of Some e \<Rightarrow> errors_is ErrSessionGone e | None \<Rightarrow> False) \<or> gone (conn_at r s1)
             then forget (cxSession (conn_at r s1)) (s1, w1)
             else (spawn (TWatch ctx r) s1, if err = None then w1 else happen EvWait w1)))"

definition reconcile_round :: "nat \<Rightarrow> nat \<Rightarrow> plugin \<Rightarrow> plugin" where
  "reconcile_round ctx r sw =
     (if ctx \<in> svCancelled (fst sw) \<or> gone (conn_at r (fst sw)) then sw
      else (case on_tree r reconcile_tick sw of (s1, w1) \<Rightarrow> (spawn (TReconcile ctx r) s1, w1)))"

record arrival =
  arBytes :: nat
  arError :: read_err
  arChunk :: string
  arFailed :: bool

definition log_turn :: "arrival \<Rightarrow> nat \<Rightarrow> string \<Rightarrow> bytes \<Rightarrow> plugin \<Rightarrow> plugin" where
  "log_turn a ctx sid rest sw =
     (case log_round ctx sid \<lparr>rbuf = take (arBytes a) rest, rend = arError a\<rparr> sw of
        (None, sw1) \<Rightarrow> sw1
      | (Some rd, s1, w1) \<Rightarrow> (spawn (TLogPump ctx sid (rbuf rd @ drop (arBytes a) rest)) s1, w1))"

definition console_turn :: "arrival \<Rightarrow> nat \<Rightarrow> string \<Rightarrow> plugin \<Rightarrow> plugin" where
  "console_turn a ctx sid sw =
     (case console_round ctx sid (arChunk a) (arFailed a) sw of
        (again, s1, w1) \<Rightarrow> (if again then spawn (TConsolePump ctx sid) s1 else s1, w1))"

fun close_turn :: "closing list \<Rightarrow> plugin \<Rightarrow> plugin" where
  "close_turn [] sw = sw"
| "close_turn (x # xs) sw = (case close_one x sw of (s1, w1) \<Rightarrow> (spawn (TClose xs) s1, w1))"

fun run_task :: "arrival \<Rightarrow> task \<Rightarrow> plugin \<Rightarrow> plugin" where
  "run_task a (TObserve r) sw = run_observe r sw"
| "run_task a (TAction r ids act) sw = run_action r ids act sw"
| "run_task a (TAnswer p vals) sw = answer_dialog p vals sw"
| "run_task a (TWatch ctx r) sw = watch_round ctx r sw"
| "run_task a (TReconcile ctx r) sw = reconcile_round ctx r sw"
| "run_task a (TLogPump ctx sid rest) sw = log_turn a ctx sid rest sw"
| "run_task a (TConsolePump ctx sid) sw = console_turn a ctx sid sw"
| "run_task a (TClose xs) sw = close_turn xs sw"

text \<open>
  The steps. A flush is started by a timer that nothing stops, so it can come at any time and for whatever
  branches an event named.
\<close>

inductive plugin_step :: "plugin \<Rightarrow> plugin \<Rightarrow> bool" where
  hears: "plugin_step sw (hear m sw)"
| runs: "svTasks s = xs @ t # ys \<Longrightarrow> plugin_step (s, w) (run_task a t (s\<lparr>svTasks := xs @ ys\<rparr>, w))"
| flushes: "r < length (svHeap (fst sw)) \<Longrightarrow> plugin_step sw (on_tree r (flush_branches order) sw)"

inductive plugin_steps :: "plugin \<Rightarrow> plugin \<Rightarrow> bool" where
  start: "plugin_steps sw sw"
| further: "plugin_steps sw sw1 \<Longrightarrow> plugin_step sw1 sw2 \<Longrightarrow> plugin_steps sw sw2"

subsection \<open>The invariant\<close>

definition closings :: "service \<Rightarrow> closing set" where
  "closings s = {x. \<exists>xs. TClose xs \<in> set (svTasks s) \<and> x \<in> set xs}"

text \<open>Who answers for a stream: a connection's shared client, an open tab, or a goroutine about to close it.\<close>

datatype holder = HoldsConn nat | HoldsTab string | HoldsClosing

fun holds :: "service \<Rightarrow> holder \<Rightarrow> nat \<Rightarrow> bool" where
  "holds s (HoldsConn r) n = (r < length (svHeap s) \<and> n \<in> held (svHeap s ! r))"
| "holds s (HoldsTab sid) n = (\<exists>sur. svSurfaces s sid = Some sur \<and> dkStream (sfClient sur) = n)"
| "holds s HoldsClosing n = (CloseStream n \<in> closings s)"

definition streams_ok :: "plugin \<Rightarrow> bool" where
  "streams_ok sw =
     ((\<forall>n \<in> live_streams (snd sw). \<exists>x. holds (fst sw) x n)
      \<and> (\<forall>x n. holds (fst sw) x n \<and> x \<noteq> HoldsClosing \<longrightarrow> n \<in> live_streams (snd sw))
      \<and> (\<forall>x y n. holds (fst sw) x n \<and> holds (fst sw) y n \<longrightarrow> x = y)
      \<and> (\<forall>n. holds (fst sw) HoldsClosing n \<longrightarrow> n < opened (wTrace (snd sw))))"

fun task_ok :: "nat \<Rightarrow> task \<Rightarrow> bool" where
  "task_ok n (TObserve r) = (r < n)"
| "task_ok n (TAction r ids act) = (r < n)"
| "task_ok n (TAnswer p vals) = pending_ok n p"
| "task_ok n (TWatch ctx r) = (r < n)"
| "task_ok n (TReconcile ctx r) = (r < n)"
| "task_ok n (TLogPump ctx sid rest) = True"
| "task_ok n (TConsolePump ctx sid) = True"
| "task_ok n (TClose xs) = (\<forall>r. CloseConn r \<in> set xs \<longrightarrow> r < n)"

text \<open>References point somewhere, and sessions are found under their own id.\<close>

definition refs_ok :: "service \<Rightarrow> bool" where
  "refs_ok s =
     (let n = length (svHeap s) in
      (\<forall>session r. svConns s session = Some r \<longrightarrow> r < n \<and> cxSession (svHeap s ! r) = session)
      \<and> (\<forall>sid sur. svSurfaces s sid = Some sur \<longrightarrow> sfConn sur < n)
      \<and> (\<forall>i p. svDialogs s i = Some p \<longrightarrow> pending_ok n p)
      \<and> list_all (task_ok n) (svTasks s))"

text \<open>A connection that is not over is in the map of sessions or about to be closed.\<close>

definition none_lost :: "service \<Rightarrow> bool" where
  "none_lost s =
     (\<forall>r < length (svHeap s). cxClosed (svHeap s ! r)
        \<or> svConns s (cxSession (svHeap s ! r)) = Some r \<or> CloseConn r \<in> closings s)"

definition plugin_inv :: "plugin \<Rightarrow> bool" where
  "plugin_inv sw =
     (refs_ok (fst sw) \<and> list_all conn_ok (svHeap (fst sw)) \<and> none_lost (fst sw) \<and> streams_ok sw
      \<and> finite (dom (svSurfaces (fst sw))) \<and> dom (svSurfaces (fst sw)) \<subseteq> tabs_opened (snd sw))"

subsection \<open>Calm operations keep it\<close>

lemma streams_okD:
  assumes "streams_ok (s, w)"
  shows "n \<in> live_streams w \<Longrightarrow> \<exists>x. holds s x n"
    and "holds s x n \<Longrightarrow> x \<noteq> HoldsClosing \<Longrightarrow> n \<in> live_streams w"
    and "holds s x n \<Longrightarrow> holds s y n \<Longrightarrow> x = y"
    and "holds s x n \<Longrightarrow> n < opened (wTrace w)"
proof -
  show "n \<in> live_streams w \<Longrightarrow> \<exists>x. holds s x n" and "holds s x n \<Longrightarrow> holds s y n \<Longrightarrow> x = y"
    and 1: "holds s x n \<Longrightarrow> x \<noteq> HoldsClosing \<Longrightarrow> n \<in> live_streams w" for x n
    using assms unfolding streams_ok_def fst_conv snd_conv by blast+
  show "holds s x n \<Longrightarrow> n < opened (wTrace w)"
    using 1 live_below assms unfolding streams_ok_def by (cases "x = HoldsClosing") auto
qed

lemma streams_okI:
  assumes "\<And>n. n \<in> live_streams w \<Longrightarrow> \<exists>x. holds s x n"
    and "\<And>x n. holds s x n \<Longrightarrow> x \<noteq> HoldsClosing \<Longrightarrow> n \<in> live_streams w"
    and "\<And>x y n. holds s x n \<Longrightarrow> holds s y n \<Longrightarrow> x = y"
    and "\<And>n. holds s HoldsClosing n \<Longrightarrow> n < opened (wTrace w)"
  shows "streams_ok (s, w)"
  using assms unfolding streams_ok_def by auto

text \<open>A change of the holders, stream by stream.\<close>

lemma streams_ok_change:
  assumes ok: "streams_ok (s, w)" and later: "later w w'"
    and holders: "\<And>x n. holds s' x n \<longleftrightarrow> (if n \<in> new then x = who else holds s x n \<and> n \<notin> lost x)"
    and lost: "\<And>x n. n \<in> lost x \<Longrightarrow> holds s x n"
    and live: "live_streams w' = (live_streams w - \<Union> (range lost)) \<union> new"
    and new: "\<And>n. n \<in> new \<Longrightarrow> n < opened (wTrace w')"
  shows "streams_ok (s', w')"
proof (rule streams_okI)
  have ge: "opened (wTrace w) \<le> opened (wTrace w')" by (rule later_opened [OF later])
  show "\<exists>x. holds s' x n" if n: "n \<in> live_streams w'" for n
  proof (cases "n \<in> new")
    case False
    then obtain x where "holds s x n" "n \<notin> lost x" using n streams_okD(1) [OF ok, of n] live by auto
    then show ?thesis using holders False by auto
  qed (use holders in auto)
  show "n \<in> live_streams w'" if "holds s' x n" "x \<noteq> HoldsClosing" for x n
  proof (cases "n \<in> new")
    case False
    then have h: "holds s x n" "n \<notin> lost x" using that holders by auto
    then have "n \<notin> lost y" for y using lost [of n y] streams_okD(3) [OF ok, of x n y] by auto
    then show ?thesis using live streams_okD(2) [OF ok h(1) that(2)] by auto
  qed (use live in auto)
  show "x = y" if "holds s' x n" "holds s' y n" for x y n
    using that holders streams_okD(3) [OF ok, of x n y] by (auto split: if_splits)
  show "n < opened (wTrace w')" if "holds s' HoldsClosing n" for n
    using that holders [of HoldsClosing n] streams_okD(4) [OF ok, of HoldsClosing n] ge new [of n]
    by (cases "n \<in> new") simp_all
qed

lemma closings_simps [simp]:
  "closings (put_conn r c s) = closings s" "closings (s\<lparr>svDialogs := m\<rparr>) = closings s"
  "closings (s\<lparr>svStore := st\<rparr>) = closings s" "closings (s\<lparr>svConns := cs\<rparr>) = closings s"
  "closings (s\<lparr>svHeap := h\<rparr>) = closings s" "closings (s\<lparr>svSurfaces := t\<rparr>) = closings s"
  "closings (s\<lparr>svInput := i\<rparr>) = closings s" "closings (s\<lparr>svWatchers := a\<rparr>) = closings s"
  "closings (s\<lparr>svCancelled := k\<rparr>) = closings s" "closings (s\<lparr>svContexts := x\<rparr>) = closings s"
  by (simp_all add: closings_def)

lemma streams_ok_conn:
  assumes ok: "streams_ok (s, w)" and r: "r < length (svHeap s)" and step: "conn_step (conn_at r s, w) (c, w1)"
  shows "streams_ok (put_conn r c s, w1)"
proof -
  have old: "held (conn_at r s) \<subseteq> live_streams w"
    using streams_okD(2) [OF ok, of "HoldsConn r"] r by (auto simp: conn_at_def)
  with step have st: "later w w1" "held c \<subseteq> live_streams w1" "live_streams w1 - held c = live_streams w - held (conn_at r s)"
    "held c - held (conn_at r s) \<subseteq> {opened (wTrace w)..}"
    by (simp_all add: conn_step_def)
  have fresh: "holds s x n \<Longrightarrow> n \<in> held c \<Longrightarrow> x = HoldsConn r" for x n
    using streams_okD(3) [OF ok, of x n "HoldsConn r"] streams_okD(4) [OF ok, of x n] st(4) r by (auto simp: conn_at_def)
  show ?thesis
  proof (rule streams_ok_change [OF ok st(1), where new = "held c" and who = "HoldsConn r"
        and lost = "\<lambda>x. if x = HoldsConn r then held (conn_at r s) else {}"])
    show "holds (put_conn r c s) x n \<longleftrightarrow>
        (if n \<in> held c then x = HoldsConn r
         else holds s x n \<and> n \<notin> (if x = HoldsConn r then held (conn_at r s) else {}))" for x n
      using r fresh [of x n] by (cases x) (auto simp: conn_at_def nth_list_update)
    show "live_streams w1
        = live_streams w - \<Union> (range (\<lambda>x. if x = HoldsConn r then held (conn_at r s) else {})) \<union> held c"
      using st(2,3) by (auto split: if_splits)
  qed (use r st(2) live_below in \<open>auto simp: conn_at_def split: if_splits\<close>)
qed

lemma list_all_update: "list_all P xs \<Longrightarrow> P x \<Longrightarrow> list_all P (xs[i := x])"
  by (auto simp: list_all_iff dest: set_update_subset_insert [THEN subsetD])

lemma refs_ok_put:
  assumes "refs_ok s" and "r < length (svHeap s)" and "cxSession c = cxSession (svHeap s ! r)"
  shows "refs_ok (put_conn r c s)"
  using assms by (auto simp: refs_ok_def Let_def nth_list_update)

lemma none_lost_put:
  assumes "none_lost s" and "r < length (svHeap s)" and "cxSession c = cxSession (svHeap s ! r)"
    and "cxClosed (svHeap s ! r) \<longrightarrow> cxClosed c"
  shows "none_lost (put_conn r c s)"
  unfolding none_lost_def
proof (intro allI impI)
  fix i assume "i < length (svHeap (put_conn r c s))"
  then show "cxClosed (svHeap (put_conn r c s) ! i)
      \<or> svConns (put_conn r c s) (cxSession (svHeap (put_conn r c s) ! i)) = Some i \<or> CloseConn i \<in> closings (put_conn r c s)"
    using assms unfolding none_lost_def by (cases "i = r") auto
qed

lemma plugin_inv_calm:
  assumes "calm sw sw'" and "plugin_inv sw"
  shows "plugin_inv sw'"
  using assms
proof (induction rule: calm.induct)
  case (conn sw s w r c w1)
  then have inv: "plugin_inv (s, w)" by simp
  have st: "later w w1" "cxSession c = cxSession (svHeap s ! r)" "cxClosed (svHeap s ! r) \<longrightarrow> cxClosed c"
    "conn_ok (svHeap s ! r) \<longrightarrow> conn_ok c"
    using conn.hyps(3) by (simp_all add: conn_step_def conn_at_def)
  have "conn_ok c" using inv st(4) conn.hyps(2) by (simp add: plugin_inv_def list_all_length)
  moreover have "none_lost (put_conn r c s)"
    by (rule none_lost_put) (use inv st(2,3) conn.hyps(2) in \<open>simp_all add: plugin_inv_def\<close>)
  ultimately show ?case
    using inv st refs_ok_put [of s r c] conn.hyps(2) streams_ok_conn [OF _ conn.hyps(2,3)] tabs_opened_later [OF st(1)]
    by (auto simp: plugin_inv_def list_all_update)
next
  case (outside sw s w w1)
  then have inv: "plugin_inv (s, w)" by simp
  have "streams_ok (s, w1)"
    by (rule streams_ok_change [of s w, where new = "{}" and lost = "\<lambda>_. {}" and who = HoldsClosing])
      (use inv outside.hyps in \<open>auto simp: plugin_inv_def\<close>)
  then show ?case using inv tabs_opened_later [OF outside.hyps(2)] by (auto simp: plugin_inv_def)
next
  case (dialog sw s w p i)
  then have inv: "plugin_inv (s, w)" by simp
  have h: "holds (s\<lparr>svDialogs := m\<rparr>) x n = holds s x n" for m x n by (cases x) simp_all
  have "streams_ok (s\<lparr>svDialogs := m\<rparr>, w)" for m using inv h by (simp add: plugin_inv_def streams_ok_def)
  then show ?case using inv dialog.hyps(2)
    by (auto simp: plugin_inv_def refs_ok_def Let_def none_lost_def)
next
  case (stored sw s w st)
  then have inv: "plugin_inv (s, w)" by simp
  have h: "holds (s\<lparr>svStore := st\<rparr>) x n = holds s x n" for x n by (cases x) simp_all
  show ?case using inv h
    by (simp add: plugin_inv_def refs_ok_def Let_def none_lost_def streams_ok_def)
qed

subsection \<open>The other changes\<close>

text \<open>The tasks: what closes something alive stays, or moves to another task.\<close>

lemma holds_tasks:
  "x \<noteq> HoldsClosing \<Longrightarrow> holds (s\<lparr>svTasks := ts\<rparr>) x n = holds s x n"
  by (cases x) simp_all

lemma plugin_inv_tasks:
  assumes inv: "plugin_inv (s, w)" and ok: "list_all (task_ok (length (svHeap s))) ts"
    and sub: "\<And>n. CloseStream n \<in> closings (s\<lparr>svTasks := ts\<rparr>) \<Longrightarrow> CloseStream n \<in> closings s"
    and streams: "\<And>n. n \<in> live_streams w \<Longrightarrow> CloseStream n \<in> closings s \<Longrightarrow> CloseStream n \<in> closings (s\<lparr>svTasks := ts\<rparr>)"
    and conns: "\<And>r. r < length (svHeap s) \<Longrightarrow> CloseConn r \<in> closings s \<Longrightarrow>
      cxClosed (svHeap s ! r) \<or> CloseConn r \<in> closings (s\<lparr>svTasks := ts\<rparr>)"
  shows "plugin_inv (s\<lparr>svTasks := ts\<rparr>, w)"
proof -
  have so: "streams_ok (s, w)" using inv by (simp add: plugin_inv_def)
  have sub': "holds (s\<lparr>svTasks := ts\<rparr>) x n \<Longrightarrow> holds s x n" for x n
    using sub [of n] holds_tasks by (cases "x = HoldsClosing") auto
  have "streams_ok (s\<lparr>svTasks := ts\<rparr>, w)"
  proof (rule streams_okI)
    show "\<exists>x. holds (s\<lparr>svTasks := ts\<rparr>) x n" if live: "n \<in> live_streams w" for n
    proof -
      obtain x where "holds s x n" using streams_okD(1) [OF so live] ..
      then have "holds (s\<lparr>svTasks := ts\<rparr>) x n"
        using holds_tasks [of x] streams [OF live] by (cases "x = HoldsClosing") auto
      then show ?thesis ..
    qed
  qed (use sub' streams_okD(2-4) [OF so] in blast)+
  moreover have "none_lost (s\<lparr>svTasks := ts\<rparr>)"
    using inv conns unfolding plugin_inv_def none_lost_def by auto
  ultimately show ?thesis using inv ok by (simp add: plugin_inv_def refs_ok_def Let_def)
qed

lemma closings_spawn [simp]:
  "closings (spawn t s) = closings s \<union> (case t of TClose xs \<Rightarrow> set xs | _ \<Rightarrow> {})"
  by (auto simp: closings_def spawn_def split: task.splits)

lemma plugin_inv_spawn:
  assumes "plugin_inv (s, w)" and "task_ok (length (svHeap s)) t" and "\<And>xs. t \<noteq> TClose xs"
  shows "plugin_inv (spawn t s, w)"
proof -
  have "closings (s\<lparr>svTasks := svTasks s @ [t]\<rparr>) = closings s" using assms(3) by (auto simp: closings_def)
  moreover have "list_all (task_ok (length (svHeap s))) (svTasks s)"
    using assms(1) by (simp add: plugin_inv_def refs_ok_def Let_def)
  ultimately show ?thesis unfolding spawn_def using assms(1,2) by (intro plugin_inv_tasks) simp_all
qed

lemma plugin_inv_other [simp]:
  "plugin_inv (s\<lparr>svWatchers := a\<rparr>, w) = plugin_inv (s, w)" "plugin_inv (s\<lparr>svCancelled := k\<rparr>, w) = plugin_inv (s, w)"
  "plugin_inv (s\<lparr>svContexts := x\<rparr>, w) = plugin_inv (s, w)" "plugin_inv (s\<lparr>svInput := i\<rparr>, w) = plugin_inv (s, w)"
proof -
  have h: "holds (s\<lparr>svWatchers := a\<rparr>) y n = holds s y n" "holds (s\<lparr>svCancelled := k\<rparr>) y n = holds s y n"
    "holds (s\<lparr>svContexts := x\<rparr>) y n = holds s y n" "holds (s\<lparr>svInput := i\<rparr>) y n = holds s y n" for y n
    by (cases y; simp)+
  show "plugin_inv (s\<lparr>svWatchers := a\<rparr>, w) = plugin_inv (s, w)" "plugin_inv (s\<lparr>svCancelled := k\<rparr>, w) = plugin_inv (s, w)"
    "plugin_inv (s\<lparr>svContexts := x\<rparr>, w) = plugin_inv (s, w)" "plugin_inv (s\<lparr>svInput := i\<rparr>, w) = plugin_inv (s, w)"
    by (simp_all add: plugin_inv_def refs_ok_def Let_def none_lost_def streams_ok_def h)
qed

lemma connection_for_ref:
  assumes "refs_ok s" and "connection_for session s = (r, s1)"
  shows "r < length (svHeap s1)" and "cxSession (conn_at r s1) = session"
  using assms
  by (auto simp: connection_for_def refs_ok_def Let_def conn_at_def new_connection_def split: option.splits)

lemma pending_ok_mono: "pending_ok n p \<Longrightarrow> n \<le> m \<Longrightarrow> pending_ok m p"
  by (simp add: pending_ok_def)

lemma task_ok_mono: "task_ok n t \<Longrightarrow> n \<le> m \<Longrightarrow> task_ok m t"
  by (cases t) (auto intro: pending_ok_mono)

lemma refs_ok_more:
  assumes "refs_ok s"
  shows "(svConns s session = Some r \<longrightarrow> r < Suc (length (svHeap s)) \<and> cxSession ((svHeap s @ [c]) ! r) = session)
    \<and> (svSurfaces s sid = Some sur \<longrightarrow> sfConn sur < Suc (length (svHeap s)))
    \<and> (svDialogs s i = Some p \<longrightarrow> pending_ok (Suc (length (svHeap s))) p)"
proof -
  have "svConns s session = Some r \<Longrightarrow> r < length (svHeap s) \<and> cxSession (svHeap s ! r) = session"
    "svSurfaces s sid = Some sur \<Longrightarrow> sfConn sur < length (svHeap s)"
    "svDialogs s i = Some p \<Longrightarrow> pending_ok (length (svHeap s)) p"
    using assms by (simp_all add: refs_ok_def Let_def)
  then show ?thesis using pending_ok_mono [of "length (svHeap s)" p] by (auto simp: nth_append)
qed

lemma plugin_inv_session:
  assumes inv: "plugin_inv (s, w)" and "connection_for session s = (r, s1)"
  shows "plugin_inv (s1, w)"
proof (cases "svConns s session")
  case (Some r')
  then show ?thesis using assms by (simp add: connection_for_def)
next
  case None
  let ?c = "new_connection session" and ?n = "length (svHeap s)"
  have s1: "s1 = s\<lparr>svHeap := svHeap s @ [?c], svConns := (svConns s)(session \<mapsto> ?n)\<rparr>"
    using assms(2) None by (auto simp: connection_for_def)
  have parts: "refs_ok s" "list_all conn_ok (svHeap s)" "none_lost s" "streams_ok (s, w)"
    using inv by (simp_all add: plugin_inv_def)
  have c: "held ?c = {}" "conn_ok ?c" "cxSession ?c = session"
    by (simp_all add: held_def new_connection_def conn_ok_def resolved_ok_def)
  have h: "holds s1 x n = holds s x n" for x n
    using c(1) by (cases x) (auto simp: s1 nth_append split: if_splits)
  have "closings s1 = closings s" by (simp add: s1)
  then have "streams_ok (s1, w)" using parts(4) by (simp add: streams_ok_def h)
  moreover have "none_lost s1"
    unfolding none_lost_def
  proof (intro allI impI)
    fix i assume i: "i < length (svHeap s1)"
    show "cxClosed (svHeap s1 ! i) \<or> svConns s1 (cxSession (svHeap s1 ! i)) = Some i \<or> CloseConn i \<in> closings s1"
    proof (cases "i = ?n")
      case False
      then have "i < ?n" "svHeap s1 ! i = svHeap s ! i" using i by (simp_all add: s1 nth_append)
      then show ?thesis using parts(3) None \<open>closings s1 = closings s\<close> by (auto simp: none_lost_def s1)
    qed (simp add: s1 c(3))
  qed
  moreover have "list_all (task_ok (Suc ?n)) (svTasks s)"
    using parts(1) task_ok_mono [of ?n _ "Suc ?n"] by (auto simp: refs_ok_def Let_def list_all_iff)
  then have "refs_ok s1"
    using parts(1) c(3) refs_ok_more [of s _ _ ?c] by (simp add: s1 refs_ok_def Let_def)
  ultimately show ?thesis using inv c(2) by (simp add: plugin_inv_def s1)
qed

text \<open>A stream moves to the goroutine that closes it.\<close>

lemma plugin_inv_retire:
  assumes inv: "plugin_inv (s, w)"
    and s': "s' = (spawn (TClose xs) s)\<lparr>svSurfaces := tabs, svConns := conns\<rparr>"
    and tabs: "\<And>sid. tabs sid = svSurfaces s sid \<or> tabs sid = None"
    and retired: "\<And>n. CloseStream n \<in> set xs \<longleftrightarrow> (\<exists>sid. tabs sid = None \<and> holds s (HoldsTab sid) n)"
    and conns: "\<And>session. conns session = svConns s session \<or> conns session = None"
    and closing: "\<And>session r. conns session = None \<Longrightarrow> svConns s session = Some r \<Longrightarrow> CloseConn r \<in> set xs"
    and refs: "\<And>r. CloseConn r \<in> set xs \<Longrightarrow> r < length (svHeap s)"
  shows "plugin_inv (s', w)"
proof -
  have parts: "refs_ok s" "list_all conn_ok (svHeap s)" "none_lost s" "streams_ok (s, w)" "finite (dom (svSurfaces s))"
    "dom (svSurfaces s) \<subseteq> tabs_opened w"
    using inv by (simp_all add: plugin_inv_def)
  have heap: "svHeap s' = svHeap s" "svDialogs s' = svDialogs s" "svTasks s' = svTasks s @ [TClose xs]"
    "svSurfaces s' = tabs" "svConns s' = conns" "closings s' = closings s \<union> set xs"
    by (simp_all add: s' spawn_def) (auto simp: closings_def)
  have one: "x = HoldsTab sid" if "holds s x n" "holds s (HoldsTab sid) n" for x n sid
    using streams_okD(3) [OF parts(4) that] .
  have alive: "n \<in> live_streams w" if "CloseStream n \<in> set xs" for n
    using retired that streams_okD(2) [OF parts(4), of "HoldsTab _" n] by blast
  have "streams_ok (s', w)"
  proof (rule streams_ok_change [OF parts(4) later_refl, where who = HoldsClosing and new = "{n. CloseStream n \<in> set xs}"
        and lost = "\<lambda>x. {n. CloseStream n \<in> set xs \<and> holds s x n}"])
    show "holds s' x n \<longleftrightarrow> (if n \<in> {n. CloseStream n \<in> set xs} then x = HoldsClosing
        else holds s x n \<and> n \<notin> {n. CloseStream n \<in> set xs \<and> holds s x n})" for x n
    proof (cases x)
      case (HoldsConn r)
      then show ?thesis using retired [of n] one [of x n] by (auto simp: heap)
    next
      case (HoldsTab sid)
      have "holds s' x n \<longleftrightarrow> tabs sid \<noteq> None \<and> holds s (HoldsTab sid) n"
        using tabs [of sid] by (cases "tabs sid") (auto simp: HoldsTab heap)
      moreover have "tabs sid = None" if "CloseStream n \<in> set xs" "holds s (HoldsTab sid) n"
        using retired [of n] that one [of "HoldsTab sid" n] by blast
      moreover have "CloseStream n \<in> set xs" if "tabs sid = None" "holds s (HoldsTab sid) n"
        using retired [of n] that by blast
      ultimately show ?thesis unfolding HoldsTab by (simp only: mem_Collect_eq) (simp del: holds.simps, blast)
    qed (auto simp: heap)
    show "live_streams w = live_streams w - \<Union> (range (\<lambda>x. {n. CloseStream n \<in> set xs \<and> holds s x n}))
        \<union> {n. CloseStream n \<in> set xs}"
    proof (intro equalityI subsetI)
      fix n assume n: "n \<in> live_streams w"
      show "n \<in> live_streams w - \<Union> (range (\<lambda>x. {n. CloseStream n \<in> set xs \<and> holds s x n})) \<union> {n. CloseStream n \<in> set xs}"
        using n by (cases "CloseStream n \<in> set xs") simp_all
    qed (use alive in blast)
    show "n < opened (wTrace w)" if "n \<in> {n. CloseStream n \<in> set xs}" for n
      using that retired streams_okD(4) [OF parts(4)] by blast
  qed auto
  moreover have "none_lost s'"
    using parts(3) conns closing unfolding none_lost_def heap by (metis Un_iff)
  moreover have "refs_ok s'"
    unfolding refs_ok_def Let_def heap
  proof (intro conjI allI impI)
    fix session r assume "conns session = Some r"
    then have "svConns s session = Some r" using conns [of session] by auto
    then show "r < length (svHeap s)" "cxSession (svHeap s ! r) = session" using parts(1) by (simp_all add: refs_ok_def Let_def)
  next
    fix sid sur assume "tabs sid = Some sur"
    then have "svSurfaces s sid = Some sur" using tabs [of sid] by auto
    then show "sfConn sur < length (svHeap s)" using parts(1) unfolding refs_ok_def Let_def by blast
  qed (use parts(1) refs in \<open>auto simp: refs_ok_def Let_def\<close>)
  moreover have "dom tabs \<subseteq> dom (svSurfaces s)" using tabs by (metis (no_types) domIff subsetI)
  ultimately show ?thesis
    using parts finite_subset by (auto simp: plugin_inv_def heap)
qed

lemma stop_list_streams: "CloseStream n \<in> set (stop_list sur) \<longleftrightarrow> n = dkStream (sfClient sur)"
  by (auto simp: stop_list_def)

lemma stop_list_conns [simp]: "CloseConn r \<notin> set (stop_list sur)"
  by (simp add: stop_list_def)

lemma plugin_inv_surface_closed:
  assumes "plugin_inv (s, w)"
  shows "plugin_inv (surface_closed sid s, w)"
proof (cases "svSurfaces s sid")
  case None
  then have "(svSurfaces s)(sid := None) = svSurfaces s" by auto
  then show ?thesis using assms None by (simp add: surface_closed_def)
next
  case (Some sur)
  let ?s = "(spawn (TClose (stop_list sur)) s)\<lparr>svSurfaces := (svSurfaces s)(sid := None), svConns := svConns s\<rparr>"
  have "plugin_inv (?s, w)"
    by (rule plugin_inv_retire [OF assms refl])
      (use Some in \<open>auto simp: stop_list_streams plugin_inv_def\<close>)
  moreover have "surface_closed sid s = ?s\<lparr>svInput := (svInput s)(sid := None)\<rparr>"
    using Some by (cases s) (simp add: surface_closed_def Let_def spawn_def)
  ultimately show ?thesis by simp
qed

lemma walk_map_ran:
  assumes "walks w" and "finite (dom m)"
  shows "set (walk_map w m) = ran m"
  using assms by (force simp: walk_map_def walks_def map_filter_def ran_def dom_def image_iff)

lemma finite_conns:
  assumes "refs_ok s"
  shows "finite (dom (svConns s))"
proof (rule finite_subset)
  show "dom (svConns s) \<subseteq> (\<lambda>r. cxSession (svHeap s ! r)) ` {..<length (svHeap s)}"
    using assms by (force simp: refs_ok_def Let_def)
qed simp

lemma plugin_inv_shutdown:
  assumes inv: "plugin_inv (s, w)" and "walks w"
  shows "plugin_inv (hear Shutdown (s, w))"
proof -
  let ?xs = "shutdown_list (s, w)"
  let ?s = "(spawn (TClose ?xs) s)\<lparr>svSurfaces := \<lambda>_. None, svConns := \<lambda>_. None\<rparr>"
  have tabs: "set (walk_map w (svSurfaces s)) = ran (svSurfaces s)"
    using inv by (intro walk_map_ran assms(2)) (simp add: plugin_inv_def)
  have conns: "set (walk_map w (svConns s)) = ran (svConns s)"
    using inv by (intro walk_map_ran assms(2) finite_conns) (simp add: plugin_inv_def)
  have "plugin_inv (?s, w)"
  proof (rule plugin_inv_retire [OF inv refl])
    show "CloseStream n \<in> set ?xs \<longleftrightarrow> (\<exists>sid. None = None \<and> holds s (HoldsTab sid) n)" for n
      by (auto simp: shutdown_list_def tabs stop_list_streams ran_def)
    show "CloseConn r \<in> set ?xs" if "svConns s session = Some r" for session r
      using that by (auto simp: shutdown_list_def conns ran_def)
    show "r < length (svHeap s)" if "CloseConn r \<in> set ?xs" for r
      using that inv by (auto simp: shutdown_list_def conns ran_def plugin_inv_def refs_ok_def Let_def)
  qed simp_all
  moreover have "hear Shutdown (s, w)
      = (?s\<lparr>svWatchers := \<lambda>_. None, svCancelled := svCancelled s \<union> ran (svWatchers s)\<rparr>, w)"
    by (cases s) (simp add: shutdown_clear_def stop_watchers_def spawn_def)
  ultimately show ?thesis by simp
qed

lemma plugin_inv_watcher:
  assumes "plugin_inv (s, w)" and "r < length (svHeap s)"
  shows "plugin_inv (ensure_watcher r s, w)"
proof (cases "svWatchers s (cxSession (conn_at r s))")
  case None
  let ?s = "s\<lparr>svWatchers := (svWatchers s)(cxSession (conn_at r s) \<mapsto> svContexts s), svContexts := svContexts s + 1\<rparr>"
  have "plugin_inv (spawn (TReconcile (svContexts s) r) (spawn (TWatch (svContexts s) r) ?s), w)"
    by (intro plugin_inv_spawn) (use assms in \<open>simp_all add: spawn_def\<close>)
  then show ?thesis by (simp add: ensure_watcher_def None Let_def)
qed (simp add: ensure_watcher_def assms)

lemma calm_close: "r < length (svHeap (fst sw)) \<Longrightarrow> calm sw (close_one (CloseConn r) sw)"
  unfolding close_one.simps by (rule calm_on_tree) (use conn_step_close in auto)

lemma close_conn_closed:
  "r < length (svHeap (fst sw)) \<Longrightarrow> cxClosed (svHeap (fst (close_one (CloseConn r) sw)) ! r)"
  by (auto simp: on_tree_def conn_close_def split_beta)

lemma plugin_inv_unmap:
  assumes "plugin_inv (s, w)" and "\<And>r. svConns s session = Some r \<Longrightarrow> cxClosed (svHeap s ! r)"
  shows "plugin_inv (s\<lparr>svConns := (svConns s)(session := None)\<rparr>, w)"
proof -
  have h: "holds (s\<lparr>svConns := c\<rparr>) x n = holds s x n" for c x n by (cases x) simp_all
  have "none_lost (s\<lparr>svConns := (svConns s)(session := None)\<rparr>)"
    unfolding none_lost_def
  proof (intro allI impI)
    fix r assume "r < length (svHeap (s\<lparr>svConns := (svConns s)(session := None)\<rparr>))"
    then show "cxClosed (svHeap (s\<lparr>svConns := (svConns s)(session := None)\<rparr>) ! r)
        \<or> svConns (s\<lparr>svConns := (svConns s)(session := None)\<rparr>) (cxSession (svHeap (s\<lparr>svConns := (svConns s)(session := None)\<rparr>) ! r)) = Some r
        \<or> CloseConn r \<in> closings (s\<lparr>svConns := (svConns s)(session := None)\<rparr>)"
      using assms by (simp add: plugin_inv_def none_lost_def) metis
  qed
  moreover have "refs_ok (s\<lparr>svConns := (svConns s)(session := None)\<rparr>)"
    using assms(1) by (simp add: plugin_inv_def refs_ok_def Let_def)
  ultimately show ?thesis using assms(1) by (simp add: plugin_inv_def streams_ok_def h)
qed

lemma plugin_inv_forget:
  assumes inv: "plugin_inv sw"
  shows "plugin_inv (forget session sw)"
proof -
  obtain s w where sw: "sw = (s, w)" by (rule prod.exhaust)
  have other: "plugin_inv (cancel_watcher a t, w') = plugin_inv (t, w')" for a t w'
    by (simp add: cancel_watcher_def cancel_def split: option.split)
  show ?thesis
  proof (cases "svConns s session")
    case None
    then have "plugin_inv (s\<lparr>svConns := (svConns s)(session := None)\<rparr>, w)"
      using plugin_inv_unmap [of s w session] inv by (simp add: sw)
    then show ?thesis by (simp add: sw forget_def None other)
  next
    case (Some r)
    have r: "r < length (svHeap s)" using inv Some by (simp add: sw plugin_inv_def refs_ok_def Let_def)
    obtain s1 w1 where c: "close_one (CloseConn r) (s, w) = (s1, w1)" by (rule prod.exhaust)
    have calm: "calm (s, w) (s1, w1)" using calm_close [of r "(s, w)"] r unfolding c by simp
    have "svConns s1 = svConns s" using calm_keeps [OF calm] by simp
    moreover have "cxClosed (svHeap s1 ! r)" using close_conn_closed [of r "(s, w)"] r unfolding c by simp
    ultimately have "plugin_inv (s1\<lparr>svConns := (svConns s)(session := None)\<rparr>, w1)"
      using plugin_inv_unmap [of s1 w1 session] plugin_inv_calm [OF calm] inv Some by (simp add: sw)
    moreover have "\<exists>a k. forget session sw
        = (s1\<lparr>svConns := (svConns s)(session := None), svWatchers := a, svCancelled := k\<rparr>, w1)"
      using c Some
      by (cases s; cases "svWatchers s session")
        (auto simp: sw forget_def cancel_watcher_def cancel_def on_tree_def conn_at_def put_conn_def split_beta)
    ultimately show ?thesis by (metis plugin_inv_other(1,2))
  qed
qed

text \<open>A new tab takes over the stream opened for it.\<close>

lemma plugin_inv_track:
  assumes inv: "plugin_inv sw" and tab: "new_tab sw d sid (s, w)" and fresh: "fresh_tabs (snd sw)"
    and sur: "sfClient sur = d" "sfConn sur < length (svHeap s)"
  shows "plugin_inv (track_surface sid sur s, w)"
proof -
  obtain w0 where 0: "calm sw (s, w0)" "later w0 w" "live_streams w = insert (dkStream d) (live_streams w0)"
    "dkStream d \<notin> live_streams w0" "dkStream d = opened (wTrace w0)" "opened (wTrace w0) < opened (wTrace w)"
    using tab by (auto simp: new_tab_def stream_out_def)
  have inv0: "plugin_inv (s, w0)" by (rule plugin_inv_calm [OF 0(1) inv])
  then have ok: "streams_ok (s, w0)" by (simp add: plugin_inv_def)
  have "dom (svSurfaces s) \<subseteq> tabs_opened (snd sw)" using inv calm_keeps [OF 0(1)] by (simp add: plugin_inv_def)
  then have free: "svSurfaces s sid = None" using tab fresh by (auto simp: new_tab_def)
  have "streams_ok (track_surface sid sur s, w)"
  proof (rule streams_ok_change [OF ok 0(2), where new = "{dkStream d}" and who = "HoldsTab sid" and lost = "\<lambda>_. {}"])
    show "holds (track_surface sid sur s) x n \<longleftrightarrow> (if n \<in> {dkStream d} then x = HoldsTab sid else holds s x n \<and> n \<notin> {})"
      for x n
      using streams_okD(4) [OF ok, of x n] 0(5) free sur(1) by (cases x) (auto simp: track_surface_def)
  qed (use 0 in auto)
  moreover have "sid \<in> tabs_opened w" using tab by (simp add: new_tab_def)
  moreover have "none_lost (track_surface sid sur s)" "refs_ok (track_surface sid sur s)"
    using inv0 sur(2) by (simp_all add: plugin_inv_def none_lost_def refs_ok_def Let_def track_surface_def)
  ultimately show ?thesis
    using inv0 tabs_opened_later [OF 0(2)] by (auto simp: plugin_inv_def track_surface_def)
qed

lemma new_tab_length: "new_tab sw d sid sw' \<Longrightarrow> length (svHeap (fst sw')) = length (svHeap (fst sw))"
  using calm_length by (fastforce simp: new_tab_def stream_out_def)

lemma plugin_inv_contexts_track:
  "track_surface sid sur (s\<lparr>svContexts := n\<rparr>) = (track_surface sid sur s)\<lparr>svContexts := n\<rparr>"
  by (cases s) (simp add: track_surface_def)

lemma plugin_inv_ready: "plugin_inv (s, w) \<Longrightarrow> plugin_inv (s, surface_ready sid w)"
  unfolding surface_ready_def by (rule plugin_inv_calm [OF calm_call])

lemma plugin_inv_start_logs:
  assumes "plugin_inv sw" and "new_tab sw d sid sw'" and "fresh_tabs (snd sw)" and "r < length (svHeap (fst sw))"
  shows "plugin_inv (start_logs r d sid body sw')"
proof -
  obtain s w where sw': "sw' = (s, w)" by (rule prod.exhaust)
  have "r < length (svHeap s)" using new_tab_length [OF assms(2)] assms(4) by (simp add: sw')
  then show ?thesis
    using plugin_inv_track [OF assms(1) assms(2) [unfolded sw'] assms(3)]
    by (simp add: sw' start_logs_def Let_def plugin_inv_ready plugin_inv_spawn plugin_inv_contexts_track)
qed

lemma plugin_inv_start_console:
  assumes "plugin_inv sw" and "new_tab sw d sid sw'" and "fresh_tabs (snd sw)" and "r < length (svHeap (fst sw))"
  shows "plugin_inv (start_console r d exec sid sw')"
proof -
  obtain s w where sw': "sw' = (s, w)" by (rule prod.exhaust)
  have "r < length (svHeap s)" using new_tab_length [OF assms(2)] assms(4) by (simp add: sw')
  then show ?thesis
    using plugin_inv_track [OF assms(1) assms(2) [unfolded sw'] assms(3)]
    by (simp add: sw' start_console_def Let_def console_input_def plugin_inv_ready plugin_inv_spawn plugin_inv_contexts_track)
qed

text \<open>An action.\<close>

lemma targets_valid: "list_all (\<lambda>t. valid_docker_id (tgId t)) (targets_of ids c)"
  using resolve_published_only
  by (force simp: targets_of_def list_all_iff map_filter_def split: sum.splits)

lemma plugin_inv_action:
  assumes inv: "plugin_inv sw" and fresh: "fresh_tabs (snd sw)" and r: "r < length (svHeap (fst sw))"
  shows "plugin_inv (run_action r ids a sw)"
proof -
  let ?ts = "targets_of ids (conn_at r (fst sw))"
  have q: "calm sw (create_volume_dialog r sw)" "calm sw (create_network_dialog r sw)" "calm sw (remove_image_dialog r ?ts sw)"
    "calm sw (remove_volume_dialog r ?ts sw)" "calm sw (remove_container_dialog r ?ts sw)" "calm sw (inspect_dialog r (?ts ! 0) sw)"
    by (rule calm_questions [OF r targets_valid] calm_inspect [OF r])+
  obtain fs sw1 where b: "run_over_targets r ?ts a sw = (fs, sw1)" by (rule prod.exhaust)
  have b1: "calm sw sw1" using calm_over_targets [OF r, of ?ts a] by (simp add: b)
  have "calm sw (on_tree r refresh_open (report_batch fs sw1))"
    using calm_trans [OF calm_trans [OF b1 calm_report] calm_refresh] calm_length [OF calm_trans [OF b1 calm_report [of sw1 fs]]] r
    by simp
  moreover have "plugin_inv (log_surface r i sw)" for i
    by (rule log_surface_cases [OF r, of i])
      (use plugin_inv_calm [OF _ inv] plugin_inv_start_logs [OF inv _ fresh r] in auto)
  moreover have "plugin_inv (console_surface r i sw)" for i
    by (rule console_surface_cases [OF r, of i])
      (use plugin_inv_calm [OF _ inv] plugin_inv_start_console [OF inv _ fresh r] in auto)
  ultimately show ?thesis
    using q plugin_inv_calm [OF _ inv] inv by (simp add: run_action_def Let_def b)
qed

text \<open>Closing.\<close>

lemma close_one_tasks:
  "close_one x (s\<lparr>svTasks := ts\<rparr>, w) = ((fst (close_one x (s, w)))\<lparr>svTasks := ts\<rparr>, snd (close_one x (s, w)))"
  by (cases x; cases s) (simp_all add: cancel_def on_tree_def conn_at_def put_conn_def split_beta)

lemma closings_tasks: "closings (s\<lparr>svTasks := ts\<rparr>) = {x. \<exists>xs. TClose xs \<in> set ts \<and> x \<in> set xs}"
  by (simp add: closings_def)

lemma plugin_inv_close_one:
  assumes inv: "plugin_inv (s, w)" and x: "x \<in> closings s"
  shows "plugin_inv (close_one x (s, w))"
proof (cases x)
  case (CloseStream n)
  have ok: "streams_ok (s, w)" using inv by (simp add: plugin_inv_def)
  have closing: "holds s HoldsClosing n" using x CloseStream by simp
  have "streams_ok (s, happen (EvCloseStream n) w)"
  proof (rule streams_okI)
    show "\<exists>x. holds s x m" if "m \<in> live_streams (happen (EvCloseStream n) w)" for m
      using that streams_okD(1) [OF ok] by simp
    show "m \<in> live_streams (happen (EvCloseStream n) w)" if "holds s x m" "x \<noteq> HoldsClosing" for x m
      using that streams_okD(2) [OF ok that] streams_okD(3) [OF ok closing, of x] by auto
    show "x = y" if "holds s x m" "holds s y m" for x y m using streams_okD(3) [OF ok that] .
    show "m < opened (wTrace (happen (EvCloseStream n) w))" if "holds s HoldsClosing m" for m
      using streams_okD(4) [OF ok that] by (simp add: happen_def)
  qed
  then show ?thesis
    using inv tabs_opened_later [OF later_happen, of w "EvCloseStream n"] by (auto simp: CloseStream plugin_inv_def)
next
  case (CloseConn r)
  have "r < length (svHeap s)"
    using inv x CloseConn by (force simp: plugin_inv_def refs_ok_def Let_def closings_def list_all_iff)
  then show ?thesis using plugin_inv_calm [OF calm_close inv] by (simp add: CloseConn)
qed (use inv in \<open>simp_all add: cancel_def\<close>)

lemma close_one_done:
  assumes "x \<in> closings s" and "plugin_inv (s, w)"
  shows "x = CloseStream n \<Longrightarrow> n \<notin> live_streams (snd (close_one x (s, w)))"
    and "x = CloseConn r \<Longrightarrow> cxClosed (svHeap (fst (close_one x (s, w))) ! r)"
proof -
  show "x = CloseStream n \<Longrightarrow> n \<notin> live_streams (snd (close_one x (s, w)))" by simp
  assume x: "x = CloseConn r"
  then have "r < length (svHeap s)"
    using assms by (force simp: plugin_inv_def refs_ok_def Let_def closings_def list_all_iff)
  then show "cxClosed (svHeap (fst (close_one x (s, w))) ! r)" unfolding x using close_conn_closed [of r "(s, w)"] by simp
qed

lemma close_one_keeps:
  "svTasks (fst (close_one x sw)) = svTasks (fst sw)" "length (svHeap (fst (close_one x sw))) = length (svHeap (fst sw))"
  by (cases x; simp add: cancel_def on_tree_def split_beta)+

lemma plugin_inv_close_turn:
  assumes inv: "plugin_inv (s, w)" and tasks: "svTasks s = xs @ TClose zs # ys"
  shows "plugin_inv (close_turn zs (s\<lparr>svTasks := xs @ ys\<rparr>, w))"
proof (cases zs)
  case Nil
  have "plugin_inv (s\<lparr>svTasks := xs @ ys\<rparr>, w)"
  proof (rule plugin_inv_tasks [OF inv])
    show "list_all (task_ok (length (svHeap s))) (xs @ ys)"
      using inv tasks by (simp add: plugin_inv_def refs_ok_def Let_def)
  qed (auto simp: closings_tasks closings_def tasks Nil)
  then show ?thesis by (simp add: Nil)
next
  case (Cons x zs')
  have x: "x \<in> closings s" by (auto simp: closings_def tasks Cons)
  obtain s1 w1 where c: "close_one x (s, w) = (s1, w1)" by (rule prod.exhaust)
  have inv1: "plugin_inv (s1, w1)" using plugin_inv_close_one [OF inv x] by (simp add: c)
  have t1: "svTasks s1 = xs @ TClose (x # zs') # ys" "length (svHeap s1) = length (svHeap s)"
    using close_one_keeps [of x "(s, w)"] by (simp_all add: c tasks Cons)
  have "plugin_inv (s1\<lparr>svTasks := (xs @ ys) @ [TClose zs']\<rparr>, w1)"
  proof (rule plugin_inv_tasks [OF inv1])
    show "list_all (task_ok (length (svHeap s1))) ((xs @ ys) @ [TClose zs'])"
      using inv1 t1(1) by (simp add: plugin_inv_def refs_ok_def Let_def)
    show "CloseStream n \<in> closings s1" if "CloseStream n \<in> closings (s1\<lparr>svTasks := (xs @ ys) @ [TClose zs']\<rparr>)" for n
      using that by (auto simp: closings_tasks closings_def t1)
    show "CloseStream n \<in> closings (s1\<lparr>svTasks := (xs @ ys) @ [TClose zs']\<rparr>)"
      if "n \<in> live_streams w1" "CloseStream n \<in> closings s1" for n
    proof -
      have "x \<noteq> CloseStream n" using close_one_done(1) [OF x inv, of n] that(1) by (metis c snd_conv)
      then show ?thesis using that(2) by (auto simp: closings_tasks closings_def t1)
    qed
    show "cxClosed (svHeap s1 ! r) \<or> CloseConn r \<in> closings (s1\<lparr>svTasks := (xs @ ys) @ [TClose zs']\<rparr>)"
      if "CloseConn r \<in> closings s1" for r
    proof (cases "x = CloseConn r")
      case True
      then show ?thesis using close_one_done(2) [OF x inv, of r] by (metis c fst_conv)
    qed (use that in \<open>auto simp: closings_tasks closings_def t1\<close>)
  qed
  moreover have "close_turn zs (s\<lparr>svTasks := xs @ ys\<rparr>, w) = (s1\<lparr>svTasks := (xs @ ys) @ [TClose zs']\<rparr>, w1)"
    by (cases s1) (simp add: Cons close_one_tasks c spawn_def)
  ultimately show ?thesis by simp
qed

subsection \<open>Every step keeps it\<close>

lemma conn_step_view:
  assumes "cxSession c' = cxSession c" "cxControl c' = cxControl c" "cxClosed c' = cxClosed c" "cxResolved c' = cxResolved c"
  shows "conn_step (c, w) (c', w)"
  using assms by (simp add: conn_step_def held_def conn_ok_def resolved_ok_def)

lemma later_load: "store_load session st w = (m, st', w') \<Longrightarrow> later w w' \<and> live_streams w' = live_streams w"
  by (auto simp: store_load_def read_file_def host_call_def Let_def split: option.splits if_splits sum.splits)

lemma later_save: "store_save session m st w = (e, st', w') \<Longrightarrow> later w w' \<and> live_streams w' = live_streams w"
  by (auto simp: store_save_def write_file_def host_call_def split: option.splits if_splits sum.splits)

lemma put_conn_store: "put_conn r c (s\<lparr>svStore := st\<rparr>) = (put_conn r c s)\<lparr>svStore := st\<rparr>"
  by (cases s) (simp add: put_conn_def)

lemma plugin_inv_observe:
  assumes "plugin_inv sw"
  shows "plugin_inv (observe session ids sw)"
proof -
  obtain s w where sw: "sw = (s, w)" by (rule prod.exhaust)
  obtain r s1 where c: "connection_for session s = (r, s1)" by (rule prod.exhaust)
  have inv1: "plugin_inv (s1, w)" using plugin_inv_session [OF _ c] assms by (simp add: sw)
  have r: "r < length (svHeap s1)" using connection_for_ref(1) [OF _ c] assms by (simp add: sw plugin_inv_def)
  let ?s2 = "put_conn r (set_observed ids (conn_at r s1)) s1"
  obtain m st w1 where l: "store_load session (svStore ?s2) w = (m, st, w1)" by (rule prod_cases3)
  have "calm (s1, w) (?s2, w)"
    by (rule calm.conn [OF calm.same r]) (rule conn_step_view, simp_all add: set_observed_def)
  then have "calm (s1, w) (?s2\<lparr>svStore := st\<rparr>, w1)"
    using later_load [OF l] by (intro calm.stored) (auto intro: calm.outside)
  then have "calm (s1, w) (put_conn r (load_settings m (conn_at r ?s2)) (?s2\<lparr>svStore := st\<rparr>), w1)"
    by (rule calm.conn) (use r in \<open>auto intro!: conn_step_view simp: load_settings_def conn_at_def\<close>)
  then have "plugin_inv (put_conn r (load_settings m (conn_at r ?s2)) (?s2\<lparr>svStore := st\<rparr>), w1)"
    by (rule plugin_inv_calm [OF _ inv1])
  then show ?thesis
    using plugin_inv_spawn [of _ w1 "TObserve r"] r l by (simp add: sw observe_def c Let_def)
qed

lemma plugin_inv_describe:
  assumes "plugin_inv sw"
  shows "plugin_inv (snd (describe_node session node sw))"
proof -
  obtain s w where sw: "sw = (s, w)" by (rule prod.exhaust)
  obtain r s1 where c: "connection_for session s = (r, s1)" by (rule prod.exhaust)
  have inv1: "plugin_inv (s1, w)" using plugin_inv_session [OF _ c] assms by (simp add: sw)
  have r: "r < length (svHeap s1)" using connection_for_ref(1) [OF _ c] assms by (simp add: sw plugin_inv_def)
  show ?thesis
    using inv1 plugin_inv_calm [OF calm_group inv1] plugin_inv_calm [OF calm_read_only inv1] plugin_inv_calm [OF calm_name inv1] r
    by (auto simp: describe_node_def sw c Let_def split: prod.split sum.split) (metis fst_conv snd_conv)+
qed

lemma plugin_inv_apply:
  assumes "plugin_inv sw"
  shows "plugin_inv (snd (apply_details session node vals sw))"
proof -
  obtain s w where sw: "sw = (s, w)" by (rule prod.exhaust)
  obtain r s1 where c: "connection_for session s = (r, s1)" by (rule prod.exhaust)
  have inv1: "plugin_inv (s1, w)" using plugin_inv_session [OF _ c] assms by (simp add: sw)
  have r: "r < length (svHeap s1)" using connection_for_ref(1) [OF _ c] assms by (simp add: sw plugin_inv_def)
  have save: "plugin_inv (snd (save_settings session m (put_conn r (snd (put_settings name x (conn_at r s2))) s2, w2)))"
    if "calm (s1, w) (s2, w2)" for m name x s2 w2
  proof -
    have r2: "r < length (svHeap s2)" using calm_length [OF that] r by simp
    have p: "calm (s1, w) (put_conn r (snd (put_settings name x (conn_at r s2))) s2, w2)"
      by (rule calm.conn [OF that r2]) (rule conn_step_view, simp_all add: put_settings_def)
    obtain e st w3 where st: "store_save session m (svStore s2) w2 = (e, st, w3)" by (rule prod_cases3)
    have "calm (s1, w) ((put_conn r (snd (put_settings name x (conn_at r s2))) s2)\<lparr>svStore := st\<rparr>, w3)"
      using later_save [OF st] p by (intro calm.stored) (auto intro: calm.outside)
    from plugin_inv_calm [OF this inv1] show ?thesis by (simp add: save_settings_def st)
  qed
  show ?thesis
  proof (cases "resolve node (conn_at r s1)")
    case (Inr q)
    obtain k i where q: "q = (k, i)" by (rule prod.exhaust)
    obtain name s2 w2 where n: "container_name r i (s1, w) = (name, s2, w2)" by (rule prod_cases3)
    have "calm (s1, w) (s2, w2)" using calm_name [of r "(s1, w)" i] r by (simp add: n)
    from save [OF this] inv1 show ?thesis
      by (auto simp: apply_details_def sw c Inr q n Let_def split_beta)
  qed (use inv1 in \<open>auto simp: apply_details_def sw c Let_def\<close>)
qed

lemma plugin_inv_answers:
  assumes "plugin_inv (s, w)"
  shows "plugin_inv (dialog_submitted i vals s, w)" and "plugin_inv (dialog_cancelled i s, w)"
proof -
  have h: "holds (s\<lparr>svDialogs := m\<rparr>) x n = holds s x n" for m x n by (cases x) simp_all
  have inv: "plugin_inv (s\<lparr>svDialogs := (svDialogs s)(i := None)\<rparr>, w)"
    using assms by (auto simp: plugin_inv_def refs_ok_def Let_def none_lost_def streams_ok_def h)
  then show "plugin_inv (dialog_cancelled i s, w)" by (simp add: dialog_cancelled_def)
  show "plugin_inv (dialog_submitted i vals s, w)"
  proof (cases "svDialogs s i")
    case (Some p)
    then have "pending_ok (length (svHeap s)) p" using assms by (simp add: plugin_inv_def refs_ok_def Let_def)
    then show ?thesis using plugin_inv_spawn [OF inv, of "TAnswer p vals"] by (simp add: dialog_submitted_def Let_def Some)
  qed (simp add: dialog_submitted_def Let_def inv)
qed

lemma plugin_inv_hear:
  assumes inv: "plugin_inv sw" and walks: "walks (snd sw)"
  shows "plugin_inv (hear m sw)"
proof -
  obtain s w where sw: "sw = (s, w)" by (rule prod.exhaust)
  show ?thesis
  proof (cases m)
    case (Invoke session ids act)
    obtain r s1 where c: "connection_for session s = (r, s1)" by (rule prod.exhaust)
    have "plugin_inv (s1, w)" using plugin_inv_session [OF _ c] inv by (simp add: sw)
    moreover have "r < length (svHeap s1)" using connection_for_ref(1) [OF _ c] inv by (simp add: sw plugin_inv_def)
    ultimately show ?thesis using plugin_inv_spawn [of s1 w "TAction r ids act"] by (simp add: Invoke sw invoke_action_def c)
  next
    case (Resize sid cols rows)
    have "calm sw (surface_resize sid cols rows sw)"
      using inv by (intro calm_resize) (simp add: plugin_inv_def refs_ok_def Let_def)
    then show ?thesis using plugin_inv_calm inv by (simp add: Resize)
  next
    case Shutdown
    then show ?thesis using plugin_inv_shutdown inv walks by (simp add: sw)
  qed (use inv plugin_inv_observe plugin_inv_describe plugin_inv_apply plugin_inv_calm [OF calm_input]
      plugin_inv_surface_closed plugin_inv_answers in \<open>simp_all add: sw\<close>)
qed

lemma plugin_inv_run_observe:
  assumes "plugin_inv sw" and "r < length (svHeap (fst sw))"
  shows "plugin_inv (run_observe r sw)"
proof -
  obtain s1 w1 where t: "on_tree r refresh_open sw = (s1, w1)" by (rule prod.exhaust)
  have "calm sw (s1, w1)" using calm_refresh [OF assms(2)] by (simp add: t)
  then show ?thesis
    using plugin_inv_watcher [of s1 w1 r] plugin_inv_calm [OF _ assms(1)] calm_length assms(2)
    by (fastforce simp: run_observe_def t)
qed

lemma plugin_inv_watch_round:
  assumes inv: "plugin_inv sw" and r: "r < length (svHeap (fst sw))"
  shows "plugin_inv (watch_round ctx r sw)"
proof -
  obtain s w where sw: "sw = (s, w)" by (rule prod.exhaust)
  obtain q s1 w1 where f: "on_conn r (\<lambda>c w. follow_events (c, w)) sw = (q, s1, w1)" by (rule prod_cases3)
  obtain err es where q: "q = (err, es)" by (rule prod.exhaust)
  have calm: "calm sw (s1, w1)"
    using calm_on_conn [of r s w "\<lambda>c w. follow_events (c, w)"] conn_step_follow r f unfolding sw by simp
  have inv1: "plugin_inv (s1, w1)" by (rule plugin_inv_calm [OF calm inv])
  have "calm (s1, w1) (s1, happen EvWait w1)" by (rule calm.outside [OF calm.same later_happen]) simp
  then have "plugin_inv (s1, happen EvWait w1)" by (rule plugin_inv_calm [OF _ inv1])
  then have "plugin_inv (spawn (TWatch ctx r) s1, if err = None then w1 else happen EvWait w1)"
    using inv1 calm_length [OF calm] r by (auto intro!: plugin_inv_spawn)
  then show ?thesis
    using inv plugin_inv_forget [OF inv1] by (simp add: watch_round_def f q)
qed

lemma plugin_inv_reconcile_round:
  assumes inv: "plugin_inv sw" and r: "r < length (svHeap (fst sw))"
  shows "plugin_inv (reconcile_round ctx r sw)"
proof -
  obtain s1 w1 where t: "on_tree r reconcile_tick sw = (s1, w1)" by (rule prod.exhaust)
  have calm: "calm sw (s1, w1)" using calm_on_tree [OF r conn_step_reconcile] by (simp add: t)
  have "plugin_inv (spawn (TReconcile ctx r) s1, w1)"
    using plugin_inv_calm [OF calm inv] calm_length [OF calm] r by (auto intro!: plugin_inv_spawn)
  then show ?thesis using inv by (simp add: reconcile_round_def t)
qed

lemma plugin_inv_log_turn:
  assumes inv: "plugin_inv sw"
  shows "plugin_inv (log_turn a ctx sid rest sw)"
proof -
  obtain q s1 w1 where l: "log_round ctx sid \<lparr>rbuf = take (arBytes a) rest, rend = arError a\<rparr> sw = (q, s1, w1)"
    by (rule prod_cases3)
  have "calm sw (s1, w1)" using calm_log_round [of sw ctx sid "\<lparr>rbuf = take (arBytes a) rest, rend = arError a\<rparr>"] by (simp add: l)
  then have "plugin_inv (s1, w1)" by (rule plugin_inv_calm [OF _ inv])
  then show ?thesis by (cases q) (simp_all add: log_turn_def l plugin_inv_spawn)
qed

lemma plugin_inv_console_turn:
  assumes inv: "plugin_inv sw"
  shows "plugin_inv (console_turn a ctx sid sw)"
proof -
  obtain q s1 w1 where l: "console_round ctx sid (arChunk a) (arFailed a) sw = (q, s1, w1)" by (rule prod_cases3)
  have "calm sw (s1, w1)" using calm_console_round [of sw ctx sid "arChunk a" "arFailed a"] by (simp add: l)
  then have "plugin_inv (s1, w1)" by (rule plugin_inv_calm [OF _ inv])
  then show ?thesis by (simp add: console_turn_def l plugin_inv_spawn)
qed

lemma plugin_inv_run:
  assumes inv: "plugin_inv (s, w)" and tasks: "svTasks s = xs @ t # ys" and fresh: "fresh_tabs w"
  shows "plugin_inv (run_task a t (s\<lparr>svTasks := xs @ ys\<rparr>, w))"
proof (cases "\<exists>zs. t = TClose zs")
  case True
  then show ?thesis using plugin_inv_close_turn [OF inv] tasks by auto
next
  case False
  have ok: "list_all (task_ok (length (svHeap s))) (xs @ t # ys)"
    using inv by (simp add: plugin_inv_def refs_ok_def Let_def tasks)
  have inv1: "plugin_inv (s\<lparr>svTasks := xs @ ys\<rparr>, w)"
    by (rule plugin_inv_tasks [OF inv]) (use ok False in \<open>auto simp: closings_def tasks\<close>)
  have t: "task_ok (length (svHeap s)) t" using ok by simp
  show ?thesis
  proof (cases t)
    case (TAnswer p vals)
    then have "pdConn p < length (svHeap s)" using t by (simp add: pending_ok_def)
    then show ?thesis using plugin_inv_calm [OF calm_answer inv1] by (simp add: TAnswer)
  qed (use t False plugin_inv_run_observe [OF inv1] plugin_inv_action [OF inv1] plugin_inv_watch_round [OF inv1]
      plugin_inv_reconcile_round [OF inv1] plugin_inv_log_turn [OF inv1] plugin_inv_console_turn [OF inv1] fresh in simp_all)
qed

lemma plugin_inv_step:
  assumes "plugin_step sw sw'" and "plugin_inv sw" and "walks (snd sw)" and "fresh_tabs (snd sw)"
  shows "plugin_inv sw'"
  using assms
proof cases
  case (flushes r order)
  then show ?thesis using plugin_inv_calm [OF calm_on_tree [OF _ conn_step_flush] assms(2)] by simp
qed (use assms plugin_inv_hear plugin_inv_run in auto)

subsection \<open>The world only moves on\<close>

lemma calm_later': "calm (s, w) (s1, w1) \<Longrightarrow> later w w1"
  using calm_later by fastforce

lemma later_close_one: "later (snd sw) (snd (close_one x sw))"
proof (cases x)
  case (CloseConn r)
  have "later w (snd (conn_close c w))" for c w using conn_step_close [of c w] by (simp add: conn_step_def)
  then show ?thesis by (simp add: CloseConn on_tree_def split_beta)
qed simp_all

lemma later_forget: "later (snd sw) (snd (forget session sw))"
proof -
  obtain s w where sw: "sw = (s, w)" by (rule prod.exhaust)
  show ?thesis
    using later_close_one [of "(cancel_watcher (svWatchers s session)
        (s\<lparr>svConns := (svConns s)(session := None), svWatchers := (svWatchers s)(session := None)\<rparr>), w)"]
    by (auto simp: sw forget_def Let_def simp del: close_one.simps split: option.split)
qed

lemma stream_out_later:
  assumes "stream_out sw d sw'"
  shows "later (snd sw) (snd sw')"
proof -
  obtain s w w' where "calm sw (s, w)" "sw' = (s, w')" "later w w'" using assms by (auto simp: stream_out_def)
  then show ?thesis using later_trans [of "snd sw" w w'] calm_later [of sw "(s, w)"] by simp
qed

lemma later_ready: "later w (surface_ready sid w)"
  by (simp add: surface_ready_def later_host_call)

lemma later_tab:
  assumes "new_tab sw d sid sw'"
  shows "later (snd sw) (snd (start_logs r d sid body sw'))" and "later (snd sw) (snd (start_console r d exec sid sw'))"
proof -
  have "stream_out sw d sw'" using assms by (simp add: new_tab_def)
  then have 1: "later (snd sw) (snd sw')" by (rule stream_out_later)
  show "later (snd sw) (snd (start_logs r d sid body sw'))" "later (snd sw) (snd (start_console r d exec sid sw'))"
    using later_trans [OF 1 later_ready] by (simp_all add: start_logs_def start_console_def Let_def split_beta)
qed

lemma later_action:
  assumes r: "r < length (svHeap (fst sw))"
  shows "later (snd sw) (snd (run_action r ids a sw))"
proof -
  let ?ts = "targets_of ids (conn_at r (fst sw))"
  have q: "calm sw (create_volume_dialog r sw)" "calm sw (create_network_dialog r sw)" "calm sw (remove_image_dialog r ?ts sw)"
    "calm sw (remove_volume_dialog r ?ts sw)" "calm sw (remove_container_dialog r ?ts sw)" "calm sw (inspect_dialog r (?ts ! 0) sw)"
    by (rule calm_questions [OF r targets_valid] calm_inspect [OF r])+
  obtain fs sw1 where b: "run_over_targets r ?ts a sw = (fs, sw1)" by (rule prod.exhaust)
  have b1: "calm sw sw1" using calm_over_targets [OF r, of ?ts a] by (simp add: b)
  have "calm sw (on_tree r refresh_open (report_batch fs sw1))"
    using calm_trans [OF calm_trans [OF b1 calm_report] calm_refresh] calm_length [OF calm_trans [OF b1 calm_report [of sw1 fs]]] r
    by simp
  moreover have "later (snd sw) (snd (log_surface r i sw))" for i
    by (rule log_surface_cases [OF r, of i]) (simp_all only: later_tab calm_later)
  moreover have "later (snd sw) (snd (console_surface r i sw))" for i
    by (rule console_surface_cases [OF r, of i]) (simp_all only: later_tab calm_later)
  ultimately show ?thesis
    using q by (auto simp: run_action_def Let_def b dest: calm_later)
qed

lemma later_hear:
  assumes inv: "plugin_inv sw"
  shows "later (snd sw) (snd (hear m sw))"
proof -
  obtain s w where sw: "sw = (s, w)" by (rule prod.exhaust)
  have ref: "r < length (svHeap s1)" if "connection_for session s = (r, s1)" for session r s1
    using connection_for_ref(1) [OF _ that] inv by (simp add: sw plugin_inv_def)
  show ?thesis
  proof (cases m)
    case (Observe session ids)
    obtain r s1 where c: "connection_for session s = (r, s1)" by (rule prod.exhaust)
    obtain m' st w1 where l: "store_load session (svStore s1) w = (m', st, w1)" by (rule prod_cases3)
    then show ?thesis using later_load [OF l] by (simp add: Observe sw observe_def c Let_def)
  next
    case (Describe session node)
    obtain r s1 where c: "connection_for session s = (r, s1)" by (rule prod.exhaust)
    note r = ref [OF c]
    show ?thesis
      using calm_later [OF calm_group [of r "(s1, w)" node]] r
        calm_later [OF calm_read_only [of r "(s1, w)"]] calm_later [OF calm_name [of r "(s1, w)"]]
      by (simp add: Describe sw describe_node_def c Let_def split_beta split: sum.split)
  next
    case (Apply session node vals)
    obtain r s1 where c: "connection_for session s = (r, s1)" by (rule prod.exhaust)
    show ?thesis
    proof (cases "resolve node (conn_at r s1)")
      case (Inr q)
      obtain k i where q: "q = (k, i)" by (rule prod.exhaust)
      obtain name s2 w2 where n: "container_name r i (s1, w) = (name, s2, w2)" by (rule prod_cases3)
      have 1: "later w w2" using calm_later [OF calm_name [of r "(s1, w)" i]] ref [OF c] by (simp add: n)
      have "later w2 (snd (snd (save_settings session x (t, w2))))" for x t
        using later_save [of session x "svStore t" w2]
        by (cases "store_save session x (svStore t) w2"; cases "snd (store_save session x (svStore t) w2)")
          (simp add: save_settings_def)
      with 1 show ?thesis
        by (simp add: Apply sw apply_details_def c Inr q n Let_def split_beta) (blast intro: later_trans)
    qed (simp add: Apply sw apply_details_def c Let_def)
  next
    case (Resize sid cols rows)
    have "calm sw (surface_resize sid cols rows sw)"
      using inv by (intro calm_resize) (simp add: plugin_inv_def refs_ok_def Let_def)
    then show ?thesis using calm_later by (simp add: Resize)
  qed (use calm_later [OF calm_input] in \<open>simp_all add: invoke_action_def split_beta\<close>)
qed

lemma later_run:
  assumes inv: "plugin_inv (s, w)" and tasks: "svTasks s = xs @ t # ys"
  shows "later w (snd (run_task a t (s\<lparr>svTasks := xs @ ys\<rparr>, w)))"
proof -
  let ?s = "s\<lparr>svTasks := xs @ ys\<rparr>"
  have t: "task_ok (length (svHeap s)) t" using inv by (simp add: plugin_inv_def refs_ok_def Let_def tasks)
  show ?thesis
  proof (cases t)
    case (TObserve r)
    then show ?thesis
      using calm_later [OF calm_refresh [of r "(?s, w)"]] t by (simp add: run_observe_def split_beta)
  next
    case (TAnswer p vals)
    then show ?thesis using calm_later [OF calm_answer [of p "(?s, w)"]] t by (simp add: pending_ok_def)
  next
    case (TWatch ctx r)
    obtain q s1 w1 where f: "on_conn r (\<lambda>c w. follow_events (c, w)) (?s, w) = (q, s1, w1)" by (rule prod_cases3)
    obtain err es where q: "q = (err, es)" by (rule prod.exhaust)
    have "calm (?s, w) (s1, w1)"
      using calm_on_conn [of r ?s w "\<lambda>c w. follow_events (c, w)"] conn_step_follow t f by (simp add: TWatch)
    then have "later w w1" by (rule calm_later')
    then show ?thesis
      using later_trans [OF _ later_forget [of "(s1, w1)"]] later_trans [OF _ later_happen]
      by (simp add: TWatch watch_round_def f q)
  next
    case (TReconcile ctx r)
    then show ?thesis
      using calm_later [OF calm_on_tree [of r "(?s, w)", OF _ conn_step_reconcile]] t by (simp add: reconcile_round_def split_beta)
  next
    case (TLogPump ctx sid rest)
    let ?r = "log_round ctx sid \<lparr>rbuf = take (arBytes a) rest, rend = arError a\<rparr> (?s, w)"
    show ?thesis
      using calm_later [OF calm_log_round [of "(?s, w)" ctx sid "\<lparr>rbuf = take (arBytes a) rest, rend = arError a\<rparr>"]]
      by (cases ?r; cases "fst ?r") (auto simp: TLogPump log_turn_def split_beta)
  next
    case (TConsolePump ctx sid)
    then show ?thesis
      using calm_later [OF calm_console_round [of "(?s, w)" ctx sid "arChunk a" "arFailed a"]]
      by (simp add: console_turn_def split_beta)
  next
    case (TClose zs)
    then show ?thesis
      using later_close_one [of "(?s, w)"] by (cases zs) (simp_all add: split_beta del: close_one.simps)
  qed (use t later_action [of _ "(?s, w)"] in simp_all)
qed

lemma later_step:
  assumes "plugin_step sw sw'" and "plugin_inv sw"
  shows "later (snd sw) (snd sw')"
  using assms
proof cases
  case (flushes r order)
  then show ?thesis using calm_later [OF calm_on_tree [OF _ conn_step_flush]] by simp
qed (use assms later_hear later_run in auto)

definition fresh_start :: "world \<Rightarrow> bool" where
  "fresh_start w = (wTrace w = [] \<and> walks w \<and> fresh_tabs w)"

lemma plugin_inv_start: "fresh_start w \<Longrightarrow> plugin_inv (new_service, w)"
proof -
  assume "fresh_start w"
  then have "live_streams w = {}" by (simp add: fresh_start_def live_streams_def)
  moreover have "closings new_service = {}" by (simp add: closings_def new_service_def)
  moreover have "\<not> holds new_service x n" for x n
    using \<open>closings new_service = {}\<close> by (cases x) (simp_all add: new_service_def)
  ultimately show ?thesis
    by (simp add: plugin_inv_def refs_ok_def none_lost_def streams_ok_def) (simp add: new_service_def)
qed

lemma reachable_inv:
  assumes "plugin_steps (new_service, w0) sw" and "fresh_start w0"
  shows "plugin_inv sw \<and> later w0 (snd sw)"
  using assms(1)
proof (induction "(new_service, w0)" sw rule: plugin_steps.induct)
  case start
  then show ?case using plugin_inv_start [OF assms(2)] by simp
next
  case (further sw1 sw2)
  then have 1: "plugin_inv sw1" "later w0 (snd sw1)" by simp_all
  have "walks (snd sw1)" "fresh_tabs (snd sw1)"
    using assms(2) 1(2) fresh_tabs_later [OF 1(2)] by (simp_all add: fresh_start_def walks_def later_oracles [OF 1(2)])
  then show ?case
    using plugin_inv_step [OF further.hyps(3) 1(1)] later_trans [OF 1(2) later_step [OF further.hyps(3) 1(1)]] by simp
qed

end
