(* ===== verification/Guarantees.thy ===== *)
theory Guarantees
  imports Lifecycle
begin

text \<open>
  What holds of the running service in every order of messages and tasks: streams and connections are answered
  for, shutting down leaves nothing open, a resize stays off the shell's stream.
\<close>

subsection \<open>Streams\<close>


lemma quiet_fresh: "fresh_start quiet_world"
proof -
  have "tab_reply quiet_world es p = None" for es p by (simp add: tab_reply_def quiet_world_def)
  then show ?thesis by (simp add: fresh_start_def fresh_tabs_def walks_quiet) (simp add: quiet_world_def)
qed

subsection \<open>Shutting down\<close>

lemma drain:
  assumes "plugin_inv (s\<lparr>svTasks := ts @ [TClose xs]\<rparr>, w)"
  shows "plugin_inv ((fst (fold close_one xs (s, w)))\<lparr>svTasks := ts\<rparr>, snd (fold close_one xs (s, w)))"
  using assms
proof (induction xs arbitrary: s w)
  case Nil
  then show ?case using plugin_inv_close_turn [of "s\<lparr>svTasks := ts @ [TClose []]\<rparr>" w ts "[]" "[]"] by simp
next
  case (Cons x xs)
  obtain s1 w1 where c: "close_one x (s, w) = (s1, w1)" by (rule prod.exhaust)
  have "plugin_inv (close_turn (x # xs) (s\<lparr>svTasks := ts\<rparr>, w))"
    using plugin_inv_close_turn [of "s\<lparr>svTasks := ts @ [TClose (x # xs)]\<rparr>" w ts "x # xs" "[]"] Cons.prems by simp
  then have "plugin_inv (s1\<lparr>svTasks := ts @ [TClose xs]\<rparr>, w1)" by (simp add: close_one_tasks c spawn_def)
  then show ?case using Cons.IH [of s1 w1] by (simp add: c)
qed

lemma close_one_maps:
  "svSurfaces (fst (close_one x sw)) = svSurfaces (fst sw)" "svConns (fst (close_one x sw)) = svConns (fst sw)"
  by (cases x; simp add: cancel_def on_tree_def put_conn_def split_beta)+

lemma drain_keeps:
  "svTasks (fst (fold close_one xs sw)) = svTasks (fst sw)"
  "svSurfaces (fst (fold close_one xs sw)) = svSurfaces (fst sw)"
  "svConns (fst (fold close_one xs sw)) = svConns (fst sw)"
  "length (svHeap (fst (fold close_one xs sw))) = length (svHeap (fst sw))"
  by (induction xs arbitrary: sw) (simp_all add: close_one_maps close_one_keeps)

lemma plugin_inv_shut:
  assumes inv: "plugin_inv (s, w)" and walks: "walks w" and out: "shutdown (s, w) = (s', w')"
  shows "plugin_inv (s', w') \<and> svTasks s' = svTasks s \<and> svSurfaces s' = (\<lambda>_. None) \<and> svConns s' = (\<lambda>_. None)"
proof -
  let ?xs = "shutdown_list (s, w)"
  have f: "fold close_one ?xs (shutdown_clear s, w) = (s', w')" using out by (simp add: shutdown_def)
  have t: "svTasks (shutdown_clear s) = svTasks s" by (simp add: shutdown_clear_def stop_watchers_def)
  have "plugin_inv (spawn (TClose ?xs) (shutdown_clear s), w)" using plugin_inv_shutdown [OF inv walks] by simp
  then have "plugin_inv ((shutdown_clear s)\<lparr>svTasks := svTasks s @ [TClose ?xs]\<rparr>, w)" by (simp add: spawn_def t)
  from drain [OF this] have "plugin_inv (s'\<lparr>svTasks := svTasks s\<rparr>, w')" by (simp add: f)
  moreover have kept: "svTasks s' = svTasks s" "svSurfaces s' = (\<lambda>_. None)" "svConns s' = (\<lambda>_. None)"
    using drain_keeps [of ?xs "(shutdown_clear s, w)"] t by (simp_all add: f) (simp_all add: shutdown_clear_def stop_watchers_def)
  moreover have "s'\<lparr>svTasks := svTasks s\<rparr> = s'" using kept(1) by (cases s') simp
  ultimately show ?thesis by simp
qed

text \<open>A goroutine is about to close the stream, or the connection whose shared client has it.\<close>

definition being_closed :: "service \<Rightarrow> nat \<Rightarrow> bool" where
  "being_closed s n =
     (CloseStream n \<in> closings s \<or> (\<exists>r < length (svHeap s). CloseConn r \<in> closings s \<and> n \<in> held (svHeap s ! r)))"


end
