(* ===== verification/Process.thy ===== *)
theory Process
  imports Handlers Guarantees
begin

text \<open>
  The process as a whole (\<open>cmd/xqs-docker/main.go\<close>): the frames the reader loop takes from the host, the
  goroutines that serve a message and write its answer, the service's own goroutines and the streams they
  use, in any order. The service's side of every method is shown to be a run of the steps of \<open>Lifecycle\<close>, so
  the guarantees there hold for what the host can really send.
\<close>

subsection \<open>A method is a run of the service\<close>

lemma plugin_steps_trans: "plugin_steps a b \<Longrightarrow> plugin_steps b c \<Longrightarrow> plugin_steps a c"
  by (rotate_tac, induction rule: plugin_steps.induct) (auto intro: plugin_steps.further)

lemma hear_steps: "plugin_steps sw (hear m sw)"
  by (rule plugin_steps.further [OF plugin_steps.start plugin_step.hears])

lemma close_steps:
  "plugin_steps (s\<lparr>svTasks := ts @ [TClose xs]\<rparr>, w)
     ((fst (fold close_one xs (s, w)))\<lparr>svTasks := ts\<rparr>, snd (fold close_one xs (s, w)))"
proof (induction xs arbitrary: s w)
  case Nil
  have "plugin_step (s\<lparr>svTasks := ts @ [TClose []]\<rparr>, w)
      (run_task a (TClose []) (s\<lparr>svTasks := ts @ [TClose []]\<rparr>\<lparr>svTasks := ts @ []\<rparr>, w))" for a
    by (rule plugin_step.runs) simp
  then show ?case using plugin_steps.further [OF plugin_steps.start] by simp
next
  case (Cons x xs)
  obtain s1 w1 where c: "close_one x (s, w) = (s1, w1)" by (rule prod.exhaust)
  have "plugin_step (s\<lparr>svTasks := ts @ [TClose (x # xs)]\<rparr>, w)
      (run_task a (TClose (x # xs)) (s\<lparr>svTasks := ts @ [TClose (x # xs)]\<rparr>\<lparr>svTasks := ts @ []\<rparr>, w))" for a
    by (rule plugin_step.runs) simp
  then have "plugin_steps (s\<lparr>svTasks := ts @ [TClose (x # xs)]\<rparr>, w) (s1\<lparr>svTasks := ts @ [TClose xs]\<rparr>, w1)"
    using plugin_steps.further [OF plugin_steps.start] by (simp add: close_one_tasks c spawn_def)
  from plugin_steps_trans [OF this Cons.IH] show ?case by (simp add: c)
qed

lemma shutdown_steps: "plugin_steps sw (shutdown sw)"
proof -
  obtain s w where sw: "sw = (s, w)" by (rule prod.exhaust)
  let ?xs = "shutdown_list (s, w)"
  obtain s' w' where f: "fold close_one ?xs (shutdown_clear s, w) = (s', w')" by (rule prod.exhaust)
  have t: "svTasks (shutdown_clear s) = svTasks s" by (simp add: shutdown_clear_def stop_watchers_def)
  have "svTasks s' = svTasks s" using drain_keeps(1) [of ?xs "(shutdown_clear s, w)"] by (simp add: f t)
  then have "s'\<lparr>svTasks := svTasks s\<rparr> = s'" by (cases s') simp
  moreover have "plugin_steps (hear Shutdown (s, w)) (s'\<lparr>svTasks := svTasks s\<rparr>, w')"
    using close_steps [where s = "shutdown_clear s" and ts = "svTasks s" and xs = ?xs and w = w] by (simp add: f spawn_def t)
  ultimately show ?thesis
    using plugin_steps_trans [OF hear_steps [of "(s, w)" Shutdown]] by (simp add: sw shutdown_def f)
qed

lemma heard:
  "plugin_steps sw (observe session ids sw)" "plugin_steps sw (invoke_action session ids act sw)"
  "plugin_steps sw (surface_input sid d sw)" "plugin_steps sw (surface_resize sid cols rows sw)"
  "plugin_steps sw (surface_closed sid (fst sw), snd sw)" "plugin_steps sw (dialog_submitted i vals (fst sw), snd sw)"
  "plugin_steps sw (dialog_cancelled i (fst sw), snd sw)"
  using hear_steps [of sw "Observe session ids"] hear_steps [of sw "Invoke session ids act"]
    hear_steps [of sw "Input sid d"] hear_steps [of sw "Resize sid cols rows"] hear_steps [of sw "Closed sid"]
    hear_steps [of sw "Submit i vals"] hear_steps [of sw "Cancel i"]
  by simp_all

lemma heard_answer:
  "describe_node session node sw = (a, sw1) \<Longrightarrow> plugin_steps sw sw1"
  "apply_details session node vals sw = (b, sw1) \<Longrightarrow> plugin_steps sw sw1"
  using hear_steps [of sw "Describe session node"] hear_steps [of sw "Apply session node vals"] by simp_all

lemma handler_steps:
  "plugin_steps sw (handle_observe p sw)" "plugin_steps sw (snd (handle_invoke p sw))"
  "plugin_steps sw (snd (handle_describe p sw))" "plugin_steps sw (snd (handle_apply p sw))"
  "plugin_steps sw (handle_input p sw)" "plugin_steps sw (handle_resize p sw)"
  "plugin_steps sw (handle_closed p sw)" "plugin_steps sw (handle_submit p sw)" "plugin_steps sw (handle_cancel p sw)"
  by (auto simp: handle_observe_def handle_invoke_def handle_describe_def handle_apply_def handle_input_def handle_resize_def
      handle_closed_def handle_submit_def handle_cancel_def split: option.split prod.split sum.split
      intro: heard heard_answer plugin_steps.start)

lemma dispatch_steps: "plugin_steps (fst pr) (fst (snd (dispatch order m p pr)))"
  using handler_steps shutdown_steps plugin_steps.start
  by (simp add: dispatch_def silent_def answering_def shut_down_def split_beta)


subsection \<open>Requests that make no sense\<close>

definition methods :: "string set" where
  "methods =
     {''initialize'', ''activate'', ''deactivate'', ''ping'', ''shutdown'', ''discovery.observe'', ''discovery.invokeAction'',
      ''discovery.describeNode'', ''discovery.applyDetails'', ''surface.input'', ''surface.resize'', ''surface.closed'',
      ''dialog.submit'', ''dialog.cancel'', ''channel.close''}"

text \<open>Whether the parameters decode to what the method takes.\<close>

definition decodes :: "string \<Rightarrow> json option \<Rightarrow> bool" where
  "decodes m p =
     (if m = ''discovery.observe'' then observe_request p \<noteq> None
      else if m = ''discovery.invokeAction'' then invoke_request p \<noteq> None
      else if m \<in> {''discovery.describeNode'', ''discovery.applyDetails''} then node_request p \<noteq> None
      else if m \<in> {''surface.input'', ''surface.resize'', ''surface.closed''} then surface_request p \<noteq> None
      else if m \<in> {''dialog.submit'', ''dialog.cancel''} then dialog_request p \<noteq> None
      else True)"

lemma undecoded:
  assumes "m \<in> methods" and "\<not> decodes m p"
  shows "dispatch order m p pr =
    (if m \<notin> methods then Inl (ERpc (- 32601) ''method not found'')
     else if m \<in> {''discovery.invokeAction'', ''discovery.describeNode'', ''discovery.applyDetails''} then Inl (EText ''json'')
     else Inr None, pr)"
proof -
  from assms(2) consider "m = ''discovery.observe''" "observe_request p = None"
    | "m = ''discovery.invokeAction''" "invoke_request p = None"
    | "m = ''discovery.describeNode'' \<or> m = ''discovery.applyDetails''" "node_request p = None"
    | "m = ''surface.input'' \<or> m = ''surface.resize'' \<or> m = ''surface.closed''" "surface_request p = None"
    | "m = ''dialog.submit'' \<or> m = ''dialog.cancel''" "dialog_request p = None"
    unfolding decodes_def by (simp split: if_splits)
  then show ?thesis
  proof cases
    case 1
    then show ?thesis by (simp add: methods_def dispatch_def silent_def handle_observe_def)
  next
    case 2
    then show ?thesis by (simp add: methods_def dispatch_def answering_def handle_invoke_def bad_params_def)
  next
    case 3
    then show ?thesis by (elim disjE) (simp_all add: methods_def dispatch_def answering_def handle_describe_def handle_apply_def bad_params_def)
  next
    case 4
    then show ?thesis by (elim disjE) (simp_all add: methods_def dispatch_def silent_def handle_input_def handle_resize_def handle_closed_def)
  next
    case 5
    then show ?thesis by (elim disjE) (simp_all add: methods_def dispatch_def silent_def handle_submit_def handle_cancel_def)
  qed
qed

text \<open>
  C32. A request that makes no sense does no harm: an unknown method, parameters that do not decode, a console
  resized to nothing or typed text that is not base64 leave the whole process exactly as it was, daemon and host
  included; only an unknown method, and parameters of a method that answers, are told back as an error.\<close>

theorem bad_request_is_harmless:
  assumes "m \<notin> methods \<or> \<not> decodes m p
    \<or> m = ''surface.resize'' \<and> (\<forall>q. surface_request p = Some q \<longrightarrow> spCols q \<le> 0 \<or> spRows q \<le> 0)
    \<or> m = ''surface.input'' \<and> (\<forall>q. surface_request p = Some q \<longrightarrow> base64_std_decode (spData q) = None)"
  shows "dispatch order m p pr =
    (if m \<notin> methods then Inl (ERpc (- 32601) ''method not found'')
     else if m \<in> {''discovery.invokeAction'', ''discovery.describeNode'', ''discovery.applyDetails''} then Inl (EText ''json'')
     else Inr None, pr)"
proof (cases "m \<in> methods")
  case False
  then show ?thesis by (simp add: dispatch_def methods_def not_found_def)
next
  case True
  have pair: "(fst pr, snd pr) = pr" by simp
  from assms True consider "m \<in> methods" "\<not> decodes m p"
    | "m = ''surface.resize''" "\<forall>q. surface_request p = Some q \<longrightarrow> spCols q \<le> 0 \<or> spRows q \<le> 0"
    | "m = ''surface.input''" "\<forall>q. surface_request p = Some q \<longrightarrow> base64_std_decode (spData q) = None" by blast
  then show ?thesis
  proof cases
    case 1
    then show ?thesis by (rule undecoded)
  next
    case 2
    then have "handle_resize p (fst pr) = fst pr" by (auto simp: handle_resize_def split: option.split)
    then show ?thesis using 2 by (simp add: dispatch_def silent_def methods_def)
  next
    case 3
    then have "handle_input p (fst pr) = fst pr" by (auto simp: handle_input_def split: option.split)
    then show ?thesis using 3 by (simp add: dispatch_def silent_def methods_def)
  qed
qed

lemma bad_request_is_harmless_witness:
  "dispatch [] ''surface.resize'' (Some (JObj [(''surfaceId'', JStr ''t'')])) (process_start quiet_world) = (Inr None, process_start quiet_world)
   \<and> dispatch [] ''node.children'' None (process_start quiet_world) = (Inl (ERpc (- 32601) ''method not found''), process_start quiet_world)"
proof -
  have "map_option (\<lambda>q. spCols q \<le> 0) (surface_request (Some (JObj [(''surfaceId'', JStr ''t'')]))) = Some True" by code_simp
  then have "\<forall>q. surface_request (Some (JObj [(''surfaceId'', JStr ''t'')])) = Some q \<longrightarrow> spCols q \<le> 0 \<or> spRows q \<le> 0" by auto
  with bad_request_is_harmless [of "''surface.resize''"] bad_request_is_harmless [of "''node.children''"]
  show ?thesis by (simp add: methods_def)
qed

subsection \<open>The process\<close>

text \<open>
  One frame in the reader's hands: the message it leaves to a goroutine, if any, and the process after it.
  \<open>None\<close> where the frame ends the reading.
\<close>

definition take_frame :: "frame \<Rightarrow> process \<Rightarrow> (message option \<times> process) option" where
  "take_frame f pr =
     (case pr of (sw, mg) \<Rightarrow>
      if fKind f = KindJSONRPC then
        (case dispatch_jsonrpc True (fPayload f) (mipc mg) of (q, c) \<Rightarrow> Some (q, sw, mg\<lparr>mipc := c\<rparr>))
      else if fKind f = KindChannelData then Some (None, sw, manager_deliver (fChannel f) (fPayload f) mg)
      else if fKind f = KindCredit then
        (case decode_credit (fChannel f) (fPayload f) of
           Inl e \<Rightarrow> None
         | Inr n \<Rightarrow> Some (None, sw, manager_credit (fChannel f) n mg))
      else Some (None, sw, mg))"

text \<open>The goroutine of one message: the handler, then its answer.\<close>

definition answer_message :: "nat list \<Rightarrow> message \<Rightarrow> process \<Rightarrow> process" where
  "answer_message order m pr =
     (case dispatch order (mMethod m) (mParams m) pr of
        (res, sw, mg) \<Rightarrow> (sw, mg\<lparr>mipc := serve_inbound m res (mipc mg)\<rparr>))"

text \<open>\<open>main\<close> after \<open>Serve\<close>: the client is closed, then the service and the channels.\<close>

definition serve_over :: "nat list \<Rightarrow> process \<Rightarrow> process" where
  "serve_over order pr = process_end order (fst pr, (snd pr)\<lparr>mipc := ipc_close (mipc (snd pr))\<rparr>)"

text \<open>
  The steps, on the process and the messages whose goroutines have not run yet: a frame, a message's goroutine,
  a turn of the service's goroutines, a flush, the end of the reading, and what a goroutine does with a stream.
\<close>

inductive process_step :: "process \<times> message list \<Rightarrow> process \<times> message list \<Rightarrow> bool" where
  takes: "\<not> ipc_closed (mipc (snd pr)) \<Longrightarrow> take_frame f pr = Some (q, pr')
    \<Longrightarrow> process_step (pr, box) (pr', case q of None \<Rightarrow> box | Some m \<Rightarrow> box @ [m])"
| answers: "process_step (pr, xs @ m # ys) (answer_message order m pr, xs @ ys)"
| runs: "svTasks s = xs @ t # ys \<Longrightarrow> process_step (((s, w), mg), box) ((run_task a t (s\<lparr>svTasks := xs @ ys\<rparr>, w), mg), box)"
| flushes: "r < length (svHeap (fst sw)) \<Longrightarrow> process_step ((sw, mg), box) ((on_tree r (flush_branches order) sw, mg), box)"
| ends: "\<not> ipc_closed (mipc (snd pr)) \<Longrightarrow> process_step (pr, box) (serve_over order pr, box)"
| asks: "process_step ((sw, mg), box) ((sw, snd (open_exec_call session mg)), box)"
| opens: "process_step ((sw, mg), box) ((sw, snd (open_exec_finish res mg)), box)"
| reads: "process_step ((sw, mg), box) ((sw, snd (stream_read r k mg)), box)"
| writes: "process_step ((sw, mg), box) ((sw, snd (stream_write r b 0 mg)), box)"
| closes: "process_step ((sw, mg), box) ((sw, stream_close r mg), box)"

inductive process_steps :: "process \<times> message list \<Rightarrow> process \<times> message list \<Rightarrow> bool" where
  start: "process_steps st st"
| further: "process_steps st st1 \<Longrightarrow> process_step st1 st2 \<Longrightarrow> process_steps st st2"

subsection \<open>What every run of the process keeps\<close>

lemma man_inv_dispatch: "man_inv (snd pr) \<Longrightarrow> man_inv (snd (snd (dispatch order m p pr)))"
  by (simp add: dispatch_def silent_def answering_def shut_down_def split_beta man_inv_close_all man_inv_host_closed)

lemma man_inv_take: "take_frame f pr = Some (q, pr') \<Longrightarrow> man_inv (snd pr) \<Longrightarrow> man_inv (snd pr') \<and> fst pr' = fst pr"
  by (auto simp: take_frame_def man_inv_deliver man_inv_credit split: prod.splits if_splits sum.splits)

lemma man_inv_answer:
  assumes "man_inv (snd pr)"
  shows "man_inv (snd (answer_message order m pr))"
  using man_inv_dispatch [OF assms, of order "mMethod m" "mParams m"] by (simp add: answer_message_def split_beta)

lemma answer_steps: "plugin_steps (fst pr) (fst (answer_message order m pr))"
  using dispatch_steps [of pr order "mMethod m" "mParams m"] by (simp add: answer_message_def split_beta)

lemma process_step_service:
  assumes "process_step st st'"
  shows "plugin_steps (fst (fst st)) (fst (fst st'))"
  using assms
proof cases
  case (takes pr f q pr' box)
  then show ?thesis using plugin_steps.start by (auto simp: take_frame_def split: prod.splits if_splits sum.splits)
next
  case (runs s xs t ys w a mg box)
  then show ?thesis using plugin_steps.further [OF plugin_steps.start plugin_step.runs [OF runs(3)]] by simp
next
  case (flushes r sw mg box order)
  then show ?thesis using plugin_steps.further [OF plugin_steps.start plugin_step.flushes [OF flushes(3)]] by simp
qed (simp_all add: answer_steps plugin_steps.start serve_over_def process_end_def shut_down_def shutdown_steps)

lemma process_step_channels:
  assumes "process_step st st'" and "man_inv (snd (fst st))"
  shows "man_inv (snd (fst st'))"
  using assms(1)
proof cases
  case (takes pr f q pr' box)
  then show ?thesis using man_inv_take [OF takes(4)] assms(2) by simp
next
  case (opens sw mg box res)
  then show ?thesis using man_inv_open [OF _ surjective_pairing] assms(2) by simp
next
  case (reads sw mg box r k)
  then show ?thesis using man_inv_read [OF _ surjective_pairing] assms(2) by simp
next
  case (writes sw mg box r b)
  then show ?thesis using man_inv_write [OF _ surjective_pairing] assms(2) by simp
next
  case (asks sw mg box session)
  then show ?thesis using assms(2) by (auto simp: open_exec_call_def split: prod.split sum.split)
qed (use assms(2) in \<open>simp_all add: man_inv_answer serve_over_def process_end_def shut_down_def man_inv_close_all man_inv_close\<close>)

lemma process_run:
  "process_steps st st' \<Longrightarrow> plugin_steps (fst (fst st)) (fst (fst st')) \<and> (man_inv (snd (fst st)) \<longrightarrow> man_inv (snd (fst st')))"
  by (induction rule: process_steps.induct)
     (auto intro: plugin_steps.start plugin_steps_trans process_step_service process_step_channels)



end
