(* ===== verification/Traffic.thy ===== *)
theory Traffic
  imports Effects
begin

text \<open>
  Which calls to the host an operation can make. The contract of a kind of traffic (everything that is no call is
  allowed, and so is publishing a branch) is a locale; the clients' lemmas say that reaching the daemon, naming a
  container and drawing the tree stay within any such kind. On it rests that an action, and the answer to a
  dialog, open at most one dialog.
\<close>

subsection \<open>What is added\<close>

text \<open>The events an operation adds all satisfy \<open>P\<close>.\<close>

definition adds :: "(event \<Rightarrow> bool) \<Rightarrow> world \<Rightarrow> world \<Rightarrow> bool" where
  "adds P w w' = (\<exists>es. w' = w\<lparr>wTrace := wTrace w @ es\<rparr> \<and> list_all P es)"

lemma adds_refl [simp]: "adds P w w"
  unfolding adds_def by (rule exI [of _ "[]"]) simp

lemma adds_trans: "adds P a b \<Longrightarrow> adds P b c \<Longrightarrow> adds P a c"
  unfolding adds_def by auto

lemma adds_happen: "P e \<Longrightarrow> adds P w (happen e w)"
  unfolding adds_def happen_def by (rule exI [of _ "[e]"]) simp

lemma adds_only: "adds P w w' \<Longrightarrow> (\<And>e. P e \<Longrightarrow> Q e) \<Longrightarrow> adds Q w w'"
  unfolding adds_def by (auto simp: list_all_iff)

locale traffic =
  fixes P :: "event \<Rightarrow> bool"
  assumes quiet: "\<not> is_call e \<Longrightarrow> P e"
    and publishes: "P (EvCall ''discovery.publish'' p)"
begin

lemma adds_uncalled:
  assumes "uncalled w w'"
  shows "adds P w w'"
proof -
  obtain es where es: "w' = w\<lparr>wTrace := wTrace w @ es\<rparr>" "\<not> list_ex is_call es" using assms by (auto simp: uncalled_def)
  then have "list_all P es" using quiet by (auto simp: list_all_iff list_ex_iff)
  with es show ?thesis unfolding adds_def by blast
qed

lemma adds_asked: "asked w w' \<Longrightarrow> adds P w w'"
  by (rule adds_uncalled [OF asked_uncalled])

lemma adds_publish: "adds P (snd cw) (snd (publish node ch state msg cw))"
  using adds_happen publishes by (simp add: publish_def host_call_def split: prod.split)

lemma adds_snapshot:
  assumes "one_snapshot node cw cw'"
  shows "adds P (snd cw) (snd cw')"
proof -
  obtain c w where cw: "cw = (c, w)" by (rule prod.exhaust)
  from assms [unfolded cw] show ?thesis
    by (rule one_snapshotE) (simp add: cw, metis adds_trans adds_uncalled adds_publish snd_conv)
qed

lemma adds_branch: "adds P (snd cw) (snd (refresh_branch node cw))"
proof -
  obtain c w where cw: "cw = (c, w)" by (rule prod.exhaust)
  show ?thesis
  proof (cases "observes node c \<and> one_snapshot node (c, w) (refresh_branch node (c, w))")
    case True
    then show ?thesis using adds_snapshot unfolding cw by blast
  next
    case False
    have "uncalled w (snd (refresh_branch node (c, w)))"
      using False refresh_branch_open [of node c w] by (cases "observes node c") (auto simp: refresh_branch_def)
    then show ?thesis using adds_uncalled by (simp add: cw)
  qed
qed

lemma adds_each: "adds P (snd cw) (snd (refresh_each nodes cw))"
proof (induction nodes arbitrary: cw)
  case (Cons n ns)
  then show ?case using adds_trans [OF adds_branch Cons] by simp
qed simp

lemma adds_open: "adds P (snd cw) (snd (refresh_open cw))"
  using adds_each by (simp add: refresh_open_def refresh_all_def)

lemma adds_flush: "adds P (snd cw) (snd (flush_branches order cw))"
proof -
  have "adds P (snd cw) (snd (fold refresh_branch order cw))"
  proof (induction order arbitrary: cw)
    case (Cons n ns)
    then show ?case using adds_trans [OF adds_branch Cons] by simp
  qed simp
  then show ?thesis unfolding flush_branches_def by (rule adds_trans [OF _ adds_branch])
qed

lemma adds_reconcile: "adds P (snd cw) (snd (reconcile_tick cw))"
  using adds_each by (simp add: reconcile_tick_def refresh_all_def split: prod.split) (metis snd_conv)

lemma adds_on_tree: "(\<And>cw. adds P (snd cw) (snd (f cw))) \<Longrightarrow> adds P (snd sw) (snd (on_tree r f sw))"
  by (simp add: on_tree_def split_beta) (metis snd_conv)

lemma adds_control: "adds P (snd sw) (snd (snd (control_of r sw)))"
  using adds_uncalled [OF uncalled_control] by (simp add: on_conn_def split_beta)

lemma adds_refresh: "adds P (snd sw) (snd (on_tree r refresh_open sw))"
  by (rule adds_on_tree) (rule adds_open)

lemma adds_on_world: "(\<And>w. asked w (snd (f w))) \<Longrightarrow> adds P (snd sw) (snd (snd (on_world f sw)))"
  using adds_asked by (simp add: on_world_def split_beta)

lemma adds_name: "adds P (snd sw) (snd (snd (container_name r i sw)))"
proof -
  obtain q sw1 where k: "control_of r sw = (q, sw1)" by (rule prod.exhaust)
  have 1: "adds P (snd sw) (snd sw1)" using adds_control [of sw r] by (simp add: k)
  have "adds P (snd sw) (snd (snd (on_world (inspect_container d i) sw1)))" for d
    by (rule adds_trans [OF 1 adds_on_world]) (rule asked_lists(5))
  from 1 this show ?thesis
    by (cases q) (auto simp: container_name_def k split: prod.split sum.split, (metis snd_conv)+)
qed

lemma adds_label: "adds P (snd sw) (snd (snd (target_label r t sw)))"
  by (simp add: target_label_def adds_name)

lemma adds_run_each:
  assumes "api_op f"
  shows "adds P (snd sw) (snd (snd (run_each f r d ts sw)))"
proof (induction ts arbitrary: sw)
  case (Cons t ts)
  obtain q sw1 where f: "on_world (f d (tgId t)) sw = (q, sw1)" by (rule prod.exhaust)
  have "adds P (snd sw) (snd (snd (on_world (f d (tgId t)) sw)))"
    by (rule adds_on_world) (use assms in \<open>simp add: api_op_def\<close>)
  then have 1: "adds P (snd sw) (snd sw1)" by (simp add: f)
  show ?case
  proof (cases q)
    case None
    then show ?thesis using adds_trans [OF 1 Cons.IH] by (simp add: f)
  next
    case (Some e)
    obtain l sw2 where l: "target_label r t sw1 = (l, sw2)" by (rule prod.exhaust)
    have "adds P (snd sw) (snd sw2)" using adds_trans [OF 1 adds_label [of sw1 r t]] by (simp add: l)
    from adds_trans [OF this Cons.IH] show ?thesis by (simp add: f Some l split_beta)
  qed
qed simp

lemma adds_over_targets: "adds P (snd sw) (snd (snd (run_over_targets r ts a sw)))"
proof -
  obtain q sw1 where k: "control_of r sw = (q, sw1)" by (rule prod.exhaust)
  have 1: "adds P (snd sw) (snd sw1)" using adds_control [of sw r] by (simp add: k)
  show ?thesis
  proof (cases q)
    case (Inr d)
    show ?thesis
    proof (cases "immediate_op a")
      case (Some f)
      then show ?thesis using adds_trans [OF 1 adds_run_each [OF immediate_api]] by (simp add: run_over_targets_def k Inr)
    qed (simp add: run_over_targets_def k Inr 1)
  qed (simp add: run_over_targets_def k 1)
qed

end

definition is_dialog :: "event \<Rightarrow> bool" where
  "is_dialog e = (\<exists>p. e = EvCall ''dialog.open'' p)"

interpretation no_dialog: traffic "\<lambda>e. \<not> is_dialog e"
  by unfold_locales (auto simp: is_dialog_def)

text \<open>At most \<open>k\<close> dialogs.\<close>

definition dialogs :: "nat \<Rightarrow> world \<Rightarrow> world \<Rightarrow> bool" where
  "dialogs k w w' = (\<exists>es. w' = w\<lparr>wTrace := wTrace w @ es\<rparr> \<and> length (filter is_dialog es) \<le> k)"

lemma dialogs_none: "adds (\<lambda>e. \<not> is_dialog e) w w' \<Longrightarrow> dialogs 0 w w'"
  unfolding adds_def dialogs_def by (auto simp: list_all_iff filter_empty_conv)

lemma dialogs_trans: "dialogs j a b \<Longrightarrow> dialogs k b c \<Longrightarrow> dialogs (j + k) a c"
  unfolding dialogs_def by fastforce

lemma dialogs_after: "adds (\<lambda>e. \<not> is_dialog e) a b \<Longrightarrow> dialogs (Suc 0) b c \<Longrightarrow> dialogs (Suc 0) a c"
  using dialogs_trans [OF dialogs_none] by fastforce

lemma dialogs_some: "adds (\<lambda>e. \<not> is_dialog e) a b \<Longrightarrow> dialogs (Suc 0) a b"
  using dialogs_none by (fastforce simp: dialogs_def)

lemma dialogs_open: "dialogs (Suc 0) (snd sw) (snd (open_dialog kind title submit sections vals h sw))"
proof -
  have "snd (open_dialog kind title submit sections vals h sw)
      = happen (EvCall ''dialog.open'' (dialog_payload kind title submit sections vals)) (snd sw)"
    using host_ask_world [of "''dialog.open''" "dialog_payload kind title submit sections vals" dec_dialog_id "[]" "snd sw"]
    by (auto simp: open_dialog_def on_world_def host_call_def split: prod.splits sum.splits option.splits)
  then show ?thesis unfolding dialogs_def happen_def by (intro exI [of _ "[_]"]) simp
qed

lemma dialogs_message: "dialogs (Suc 0) (snd sw) (snd (message_dialog title msg sw))"
  unfolding message_dialog_def by (rule dialogs_open)

lemma dialogs_report: "dialogs (Suc 0) (snd sw) (snd (report_batch fs sw))"
  by (simp add: report_batch_def dialogs_message dialogs_some)

lemma dialogs_question: "dialogs (Suc 0) (snd sw) (snd (remove_container_dialog r ts sw))"
proof (cases "length ts = 1")
  case True
  obtain name sw1 where n: "container_name r (tgId (ts ! 0)) sw = (name, sw1)" by (rule prod.exhaust)
  have "adds (\<lambda>e. \<not> is_dialog e) (snd sw) (snd sw1)" using no_dialog.adds_name [of sw r "tgId (ts ! 0)"] by (simp add: n)
  then show ?thesis
    using dialogs_after dialogs_open True by (simp add: remove_container_dialog_def remove_dialog_def n)
qed (simp add: remove_container_dialog_def remove_dialog_def dialogs_open)

lemma dialogs_inspect: "dialogs (Suc 0) (snd sw) (snd (inspect_dialog r t sw))"
proof -
  obtain q sw1 where k: "control_of r sw = (q, sw1)" by (rule prod.exhaust)
  have 1: "adds (\<lambda>e. \<not> is_dialog e) (snd sw) (snd sw1)" using no_dialog.adds_control [of sw r] by (simp add: k)
  show ?thesis
  proof (cases q)
    case (Inr d)
    obtain p sw2 where i: "on_world (inspect_raw d (tgKind t) (tgId t)) sw1 = (p, sw2)" by (rule prod.exhaust)
    have "adds (\<lambda>e. \<not> is_dialog e) (snd sw1) (snd sw2)"
      using no_dialog.adds_on_world [of "inspect_raw d (tgKind t) (tgId t)" sw1] asked_inspect_raw by (simp add: i)
    from dialogs_after [OF adds_trans [OF 1 this]] show ?thesis
      by (cases p) (simp_all add: inspect_dialog_def k Inr i dialogs_message dialogs_open del: user_message.simps)
  qed (use dialogs_after [OF 1] dialogs_message in \<open>simp add: inspect_dialog_def k del: user_message.simps\<close>)
qed

lemma adds_stream: "adds (\<lambda>e. \<not> is_dialog e) (snd sw) (snd (snd (on_conn r open_stream sw)))"
  using no_dialog.adds_uncalled [OF uncalled_dial] by (simp add: on_conn_def open_stream_def split_beta)

lemma adds_tab: "adds (\<lambda>e. \<not> is_dialog e) (snd sw) (snd (snd (on_world (open_surface session kind title) sw)))"
  using open_surface_world adds_happen by (simp add: on_world_def split_beta is_dialog_def)

lemma adds_state: "adds (\<lambda>e. \<not> is_dialog e) w (surface_ready sid w)" "adds (\<lambda>e. \<not> is_dialog e) w (surface_error sid msg w)"
  by (simp_all add: surface_ready_def surface_error_def host_call_def adds_happen is_dialog_def)

lemma adds_closed: "adds (\<lambda>e. \<not> is_dialog e) w (close_client d w)"
  by (simp add: close_client_def adds_happen is_dialog_def)

lemma dialogs_close: "dialogs (Suc 0) (snd sw) (snd (close_dialog d title msg sw))"
  using dialogs_after [OF adds_closed] dialogs_message unfolding close_dialog_def by (metis snd_conv)

lemma dialogs_logs: "dialogs (Suc 0) (snd sw) (snd (log_surface r i sw))"
proof -
  let ?N = "\<lambda>e. \<not> is_dialog e"
  obtain name sw1 where n: "container_name r i sw = (name, sw1)" by (rule prod.exhaust)
  obtain q sw2 where k: "on_conn r open_stream sw1 = (q, sw2)" by (rule prod.exhaust)
  have 2: "adds ?N (snd sw) (snd sw2)"
    using adds_trans [OF no_dialog.adds_name [of sw r i] adds_stream [of "snd (container_name r i sw)" r]] by (simp add: n k)
  show ?thesis
  proof (cases q)
    case (Inl e)
    then show ?thesis using dialogs_after [OF 2 dialogs_message] by (simp add: log_surface_def n k del: user_message.simps)
  next
    case (Inr d)
    obtain p sw3 where o: "on_world (open_surface (cxSession (conn_at r (fst sw2))) ''log'' (tab_title ''Logs'' name)) sw2 = (p, sw3)"
      by (rule prod.exhaust)
    have 3: "adds ?N (snd sw) (snd sw3)" using adds_trans [OF 2 adds_tab] o by (metis snd_conv)
    show ?thesis
    proof (cases p)
      case (Inl e)
      then show ?thesis
        using dialogs_after [OF 3 dialogs_close] by (simp add: log_surface_def n k Inr o del: surface_failure.simps)
    next
      case (Inr sid)
      let ?f = "container_logs d i \<lparr>loFollow = True, loTimestamps = rsLogStamps (settings_for name (conn_at r (fst sw1))),
        loTail = rsLogTail (settings_for name (conn_at r (fst sw1)))\<rparr>"
      obtain t s4 w4 where l: "on_world ?f sw3 = (t, s4, w4)" by (rule prod_cases3)
      have "adds ?N (snd sw3) w4"
        using no_dialog.adds_on_world [of ?f sw3] asked_api_request by (simp add: l container_logs_def)
      then have 4: "adds ?N (snd sw) w4" by (rule adds_trans [OF 3])
      show ?thesis
        using adds_trans [OF 4 adds_trans [OF adds_state(2) adds_closed]] adds_trans [OF 4 adds_state(1)]
        by (cases t)
          (auto simp: log_surface_def n k \<open>q = Inr d\<close> o Inr l start_logs_def Let_def simp del: user_message.simps
            intro: dialogs_some)
    qed
  qed
qed

lemma dialogs_console: "dialogs (Suc 0) (snd sw) (snd (console_surface r i sw))"
proof -
  let ?N = "\<lambda>e. \<not> is_dialog e"
  obtain name sw1 where n: "container_name r i sw = (name, sw1)" by (rule prod.exhaust)
  obtain q sw2 where k: "on_conn r open_stream sw1 = (q, sw2)" by (rule prod.exhaust)
  have 2: "adds ?N (snd sw) (snd sw2)"
    using adds_trans [OF no_dialog.adds_name [of sw r i] adds_stream [of "snd (container_name r i sw)" r]] by (simp add: n k)
  show ?thesis
  proof (cases q)
    case (Inl e)
    then show ?thesis using dialogs_after [OF 2 dialogs_message] by (simp add: console_surface_def n k del: user_message.simps)
  next
    case (Inr d)
    note q = this
    let ?cfg = "console_exec (settings_for name (conn_at r (fst sw1)))"
    obtain p sw3 where c: "on_world (create_exec d i ?cfg) sw2 = (p, sw3)" by (rule prod.exhaust)
    have 3: "adds ?N (snd sw) (snd sw3)"
      using adds_trans [OF 2 no_dialog.adds_on_world [of "create_exec d i ?cfg" sw2]] asked_create_exec by (simp add: c)
    show ?thesis
    proof (cases p)
      case (Inl e)
      then show ?thesis using dialogs_after [OF 3 dialogs_close] by (simp add: console_surface_def n k q c del: user_message.simps)
    next
      case (Inr exec)
      note p = this
      obtain t sw4 where e: "on_world (start_exec d exec True) sw3 = (t, sw4)" by (rule prod.exhaust)
      have 4: "adds ?N (snd sw) (snd sw4)"
        using adds_trans [OF 3 no_dialog.adds_on_world [of "start_exec d exec True" sw3]] asked_start_exec by (simp add: e)
      show ?thesis
      proof (cases t)
        case (Some e')
        then show ?thesis
          using dialogs_after [OF 4 dialogs_close] by (simp add: console_surface_def n k q c p e del: user_message.simps)
      next
        case None
        obtain u s5 w5 where o:
          "on_world (open_surface (cxSession (conn_at r (fst sw4))) ''terminal'' (tab_title ''Console'' name)) sw4 = (u, s5, w5)"
          by (rule prod_cases3)
        have 5: "adds ?N (snd sw) w5" using adds_trans [OF 4 adds_tab] o by (metis snd_conv)
        have "dialogs (Suc 0) (snd sw) (snd (close_dialog d console_title msg (s5, close_client d w5)))" for msg
          using dialogs_after [OF adds_trans [OF 5 adds_closed] dialogs_close [of "(s5, close_client d w5)" for d w5, simplified snd_conv]]
          by blast
        then show ?thesis
          using dialogs_some [OF adds_trans [OF 5 adds_state(1)]]
          by (cases u) (auto simp: console_surface_def n k q c p e None o start_console_def Let_def simp del: surface_failure.simps)
      qed
    qed
  qed
qed

lemma dialogs_remove_each:
  assumes "api_op f"
  shows "case remove_each f r ts sw of
      (Some e, sw1) \<Rightarrow> adds (\<lambda>e. \<not> is_dialog e) (snd sw) (snd sw1)
    | (None, sw1) \<Rightarrow> dialogs (Suc 0) (snd sw) (snd sw1)"
proof -
  obtain q sw1 where k: "control_of r sw = (q, sw1)" by (rule prod.exhaust)
  have 1: "adds (\<lambda>e. \<not> is_dialog e) (snd sw) (snd sw1)" using no_dialog.adds_control [of sw r] by (simp add: k)
  show ?thesis
  proof (cases q)
    case (Inr d)
    obtain fs sw2 where e: "run_each f r d ts sw1 = (fs, sw2)" by (rule prod.exhaust)
    have "adds (\<lambda>e. \<not> is_dialog e) (snd sw) (snd sw2)"
      using adds_trans [OF 1 no_dialog.adds_run_each [OF assms, of sw1 r d ts]] by (simp add: e)
    from dialogs_after [OF adds_trans [OF this no_dialog.adds_refresh] dialogs_report] show ?thesis
      by (simp add: remove_each_def k Inr e)
  qed (simp add: remove_each_def k 1)
qed

lemma adds_create_one:
  assumes "\<And>d w. asked w (snd (f d w))"
  shows "adds (\<lambda>e. \<not> is_dialog e) (snd sw) (snd (snd (create_one f r sw)))"
proof -
  obtain q sw1 where k: "control_of r sw = (q, sw1)" by (rule prod.exhaust)
  have 1: "adds (\<lambda>e. \<not> is_dialog e) (snd sw) (snd sw1)" using no_dialog.adds_control [of sw r] by (simp add: k)
  show ?thesis
  proof (cases q)
    case (Inr d)
    obtain p sw2 where e: "on_world (f d) sw1 = (p, sw2)" by (rule prod.exhaust)
    have 2: "adds (\<lambda>e. \<not> is_dialog e) (snd sw) (snd sw2)"
      using adds_trans [OF 1 no_dialog.adds_on_world [of "f d" sw1]] assms by (simp add: e)
    from 2 adds_trans [OF 2 no_dialog.adds_refresh] show ?thesis
      by (cases p) (simp_all add: create_one_def k Inr e)
  qed (simp add: create_one_def k 1)
qed

lemma dialog_handle_cases:
  obtains f ts where "api_op f" "dialog_handle p vals sw = remove_each f (pdConn p) ts sw"
  | f where "\<And>d w. asked w (snd (f d w))" "dialog_handle p vals sw = create_one f (pdConn p) sw"
proof (cases "pdWork p")
  case CreateVolume
  then show thesis using that(2) [of "\<lambda>d. create_volume d (volume_answer vals)"]
    by (simp add: dialog_handle_def create_volume_def asked_post_json)
next
  case CreateNetwork
  then show thesis using that(2) [of "\<lambda>d. create_network d (network_answer vals)"]
    by (simp add: dialog_handle_def create_network_def asked_post_json)
qed (use that(1) api_ops in \<open>simp add: dialog_handle_def, blast\<close>)+

text \<open>
  C11. One dialog for one thing the user did: whatever is selected, however many of the objects the daemon refuses
  to touch, and whatever fails on the way, running an action opens at most one dialog of the host, and so does
  the work of a submitted dialog. (The host shows one at a time and refuses any other.)\<close>

theorem one_dialog_per_action:
  "dialogs 1 (snd sw) (snd (run_action r ids a sw)) \<and> dialogs 1 (snd sw) (snd (answer_dialog p vals sw))"
proof
  have batch: "dialogs (Suc 0) (snd sw) (snd (on_tree r refresh_open (report_batch fs sw1)))"
    if "run_over_targets r ts a sw = (fs, sw1)" for ts fs sw1
  proof -
    have "adds (\<lambda>e. \<not> is_dialog e) (snd sw) (snd sw1)" using no_dialog.adds_over_targets [of sw r ts a] by (simp add: that)
    from dialogs_trans [OF dialogs_after [OF this dialogs_report] dialogs_none [OF no_dialog.adds_refresh]] show ?thesis by simp
  qed
  have none: "dialogs (Suc 0) (snd sw) (snd sw)" by (simp add: dialogs_some)
  show "dialogs 1 (snd sw) (snd (run_action r ids a sw))"
    using none batch dialogs_question dialogs_inspect dialogs_logs dialogs_console
    by (simp add: run_action_def Let_def create_volume_dialog_def create_network_dialog_def remove_image_dialog_def
        remove_volume_dialog_def remove_dialog_def dialogs_open split: prod.split)
next
  obtain q sw1 where h: "dialog_handle p vals sw = (q, sw1)" by (rule prod.exhaust)
  have "case (q, sw1) of (Some e, sw1) \<Rightarrow> adds (\<lambda>e. \<not> is_dialog e) (snd sw) (snd sw1) | (None, sw1) \<Rightarrow> dialogs (Suc 0) (snd sw) (snd sw1)"
  proof (rule dialog_handle_cases [of p vals sw])
    fix f ts assume "api_op f" "dialog_handle p vals sw = remove_each f (pdConn p) ts sw"
    then show ?thesis using dialogs_remove_each [where f = f and r = "pdConn p" and ts = ts and sw = sw] h by simp
  next
    fix f assume f: "\<And>d w. asked w (snd (f d w))" "dialog_handle p vals sw = create_one f (pdConn p) sw"
    have "adds (\<lambda>e. \<not> is_dialog e) (snd sw) (snd sw1)" using adds_create_one [where f = f and r = "pdConn p" and sw = sw, OF f(1)] f(2) h by (metis snd_conv)
    then show ?thesis using dialogs_some by (cases q) simp_all
  qed
  then show "dialogs 1 (snd sw) (snd (answer_dialog p vals sw))"
    using dialogs_after dialogs_message by (cases q) (simp_all add: answer_dialog_def h del: user_message.simps)
qed

subsection \<open>Batches\<close>

text \<open>
  The worlds in which the targets of a batch were tried, one each and one after the other, the last leading to \<open>w'\<close>.
\<close>

fun tried :: "target_op \<Rightarrow> docker \<Rightarrow> target list \<Rightarrow> world list \<Rightarrow> world \<Rightarrow> bool" where
  "tried f d [] [] w' = True"
| "tried f d (t # ts) (w # ws) w' = (later (snd (f d (tgId t) w)) (hd (ws @ [w'])) \<and> tried f d ts ws w')"
| "tried f d _ _ w' = False"

definition refusals :: "target_op \<Rightarrow> docker \<Rightarrow> target list \<Rightarrow> world list \<Rightarrow> go_error list" where
  "refusals f d ts ws = concat (map2 (\<lambda>t w. case fst (f d (tgId t) w) of None \<Rightarrow> [] | Some e \<Rightarrow> [e]) ts ws)"

interpretation any: traffic "\<lambda>_. True"
  by unfold_locales simp_all

lemma adds_later: "adds P w w' \<Longrightarrow> later w w'"
  by (auto simp: adds_def later_def)

lemma run_each_tries:
  "run_each f r d ts sw = (fs, sw') \<Longrightarrow>
     \<exists>ws. tried f d ts ws (snd sw') \<and> hd (ws @ [snd sw']) = snd sw \<and> map flError fs = refusals f d ts ws"
proof (induction ts arbitrary: sw fs sw')
  case Nil
  then show ?case by (intro exI [of _ "[]"]) (simp add: refusals_def)
next
  case (Cons t ts)
  obtain s w where sw: "sw = (s, w)" by (rule prod.exhaust)
  obtain q w1 where f: "f d (tgId t) w = (q, w1)" by (rule prod.exhaust)
  show ?case
  proof (cases q)
    case None
    then have "run_each f r d ts (s, w1) = (fs, sw')" using Cons.prems by (simp add: sw on_world_def f)
    from Cons.IH [OF this] obtain ws where ws: "tried f d ts ws (snd sw')" "hd (ws @ [snd sw']) = w1" "map flError fs = refusals f d ts ws"
      by auto
    then show ?thesis by (intro exI [of _ "w # ws"]) (simp add: sw f None refusals_def)
  next
    case (Some e)
    obtain l sw2 where l: "target_label r t (s, w1) = (l, sw2)" by (rule prod.exhaust)
    have later: "later w1 (snd sw2)" using adds_later [OF any.adds_label [of "(s, w1)" r t]] by (simp add: l)
    obtain fs2 sw3 where r: "run_each f r d ts sw2 = (fs2, sw3)" by (rule prod.exhaust)
    then have "sw3 = sw'" and fs: "fs = \<lparr>flLabel = l, flError = e\<rparr> # fs2"
      using Cons.prems by (simp_all add: sw on_world_def f Some l)
    from Cons.IH [OF r] this obtain ws where ws: "tried f d ts ws (snd sw')" "hd (ws @ [snd sw']) = snd sw2" "map flError fs2 = refusals f d ts ws"
      by auto
    then show ?thesis using later by (intro exI [of _ "w # ws"]) (simp add: sw f Some fs refusals_def)
  qed
qed



subsection \<open>Drawing\<close>

definition tree_call :: "event \<Rightarrow> bool" where
  "tree_call e = (is_call e \<longrightarrow> (\<exists>p. e = EvCall ''discovery.publish'' p))"

interpretation drawing: traffic tree_call
  by unfold_locales (simp_all add: tree_call_def)

text \<open>
  Drawing the tree says nothing but branches: whether the user opened it, the timer or an event asked for it,
  everything the host hears meanwhile is \<open>discovery.publish\<close>; no dialog, no tab and no file is touched, however the
  daemon answers.\<close>

theorem drawing_only_publishes:
  "adds tree_call (snd sw) (snd (run_observe r sw)) \<and> adds tree_call (snd sw) (snd (on_tree r reconcile_tick sw))
   \<and> adds tree_call (snd sw) (snd (on_tree r (flush_branches order) sw))"
  using drawing.adds_refresh [of sw r] drawing.adds_on_tree [OF drawing.adds_reconcile, of sw r]
    drawing.adds_on_tree [OF drawing.adds_flush, where sw = sw and r = r]
  by (simp add: run_observe_def split_beta)

end
