(* ===== verification/Tabs.thy ===== *)
theory Tabs
  imports Guarantees Traffic
begin

text \<open>
  Tabs: what is typed in one reaches its own shell, what its stream brings reaches it in order, and resizing one
  stays off the streams of all of them.
\<close>

subsection \<open>The table of tabs\<close>

text \<open>
  What the two maps of the service amount to: a table in which tabs with new ids appear, a tab is closed, or all are.
\<close>

definition tabs_kept :: "service \<Rightarrow> service \<Rightarrow> bool" where
  "tabs_kept s s' = (svSurfaces s' = svSurfaces s \<and> svInput s' = svInput s)"

definition tab_added :: "string \<Rightarrow> surface \<Rightarrow> service \<Rightarrow> service \<Rightarrow> bool" where
  "tab_added sid sur s s' =
     (svSurfaces s' = (svSurfaces s)(sid \<mapsto> sur)
      \<and> svInput s' = (if sfHijacked sur then (svInput s)(sid \<mapsto> dkStream (sfClient sur)) else svInput s))"

definition tab_step :: "plugin \<Rightarrow> plugin \<Rightarrow> bool" where
  "tab_step sw sw' =
     (tabs_kept (fst sw) (fst sw')
      \<or> (\<exists>sid sur. tab_added sid sur (fst sw) (fst sw') \<and> sid \<notin> tabs_opened (snd sw) \<and> sid \<in> tabs_opened (snd sw'))
      \<or> (\<exists>sid. svSurfaces (fst sw') = (svSurfaces (fst sw))(sid := None) \<and> svInput (fst sw') = (svInput (fst sw))(sid := None))
      \<or> svSurfaces (fst sw') = (\<lambda>_. None) \<and> svInput (fst sw') = svInput (fst sw))"

lemma tab_step_kept: "tabs_kept (fst sw) (fst sw') \<Longrightarrow> tab_step sw sw'"
  by (simp add: tab_step_def)

lemma tabs_kept_refl [simp]: "tabs_kept s s"
  by (simp add: tabs_kept_def)

lemma tabs_kept_trans: "tabs_kept a b \<Longrightarrow> tabs_kept b c \<Longrightarrow> tabs_kept a c"
  by (simp add: tabs_kept_def)

lemma tabs_kept_updates [simp]:
  "tabs_kept a (s\<lparr>svHeap := h\<rparr>) = tabs_kept a s" "tabs_kept a (s\<lparr>svConns := h2\<rparr>) = tabs_kept a s"
  "tabs_kept a (s\<lparr>svDialogs := h3\<rparr>) = tabs_kept a s" "tabs_kept a (s\<lparr>svWatchers := h4\<rparr>) = tabs_kept a s"
  "tabs_kept a (s\<lparr>svStore := h5\<rparr>) = tabs_kept a s" "tabs_kept a (s\<lparr>svContexts := h6\<rparr>) = tabs_kept a s"
  "tabs_kept a (s\<lparr>svCancelled := h7\<rparr>) = tabs_kept a s" "tabs_kept a (s\<lparr>svTasks := h8\<rparr>) = tabs_kept a s"
  "tabs_kept a (spawn t s) = tabs_kept a s" "tabs_kept a (put_conn r c s) = tabs_kept a s"
  by (simp_all add: tabs_kept_def spawn_def put_conn_def)

lemma tabs_kept_calm: "calm sw sw' \<Longrightarrow> tabs_kept (fst sw) (fst sw')"
  by (induction rule: calm.induct) simp_all

lemma tabs_kept_session: "connection_for session s = (r, s1) \<Longrightarrow> tabs_kept s s1"
  by (auto simp: connection_for_def split: option.splits)

lemma tabs_kept_observe: "tabs_kept (fst sw) (fst (observe session ids sw))"
  using tabs_kept_session by (auto simp: observe_def Let_def split: prod.split)

lemma tabs_kept_describe:
  assumes "refs_ok (fst sw)"
  shows "tabs_kept (fst sw) (fst (snd (describe_node session node sw)))"
proof -
  obtain s w where sw: "sw = (s, w)" by (rule prod.exhaust)
  obtain r s1 where c: "connection_for session s = (r, s1)" by (rule prod.exhaust)
  have r: "r < length (svHeap s1)" using connection_for_ref(1) [OF _ c] assms by (simp add: sw)
  have "calm (s1, w) (snd (describe_node session node sw))"
    using calm_group [of r "(s1, w)"] calm_read_only [of r "(s1, w)"] calm_name [of r "(s1, w)"] r calm.same
    by (auto simp: describe_node_def sw c Let_def split: prod.split sum.split) (metis fst_conv snd_conv)+
  then show ?thesis using tabs_kept_calm tabs_kept_trans [OF tabs_kept_session [OF c]] by (fastforce simp: sw)
qed

lemma tabs_kept_apply:
  assumes "refs_ok (fst sw)"
  shows "tabs_kept (fst sw) (fst (snd (apply_details session node vals sw)))"
proof -
  obtain s w where sw: "sw = (s, w)" by (rule prod.exhaust)
  obtain r s1 where c: "connection_for session s = (r, s1)" by (rule prod.exhaust)
  have r: "r < length (svHeap s1)" using connection_for_ref(1) [OF _ c] assms by (simp add: sw)
  have kept: "tabs_kept s s1" by (rule tabs_kept_session [OF c])
  have "tabs_kept s s2" if "container_name r i (s1, w) = (name, s2, w2)" for name i s2 w2
    using tabs_kept_calm [OF calm_name [of r "(s1, w)" i]] r tabs_kept_trans [OF kept] by (simp add: that)
  then show ?thesis
    using kept by (auto simp: apply_details_def sw c save_settings_def Let_def split: prod.split sum.split)
qed

lemma tab_step_hear:
  assumes inv: "plugin_inv sw"
  shows "tab_step sw (hear m sw)"
proof -
  have refs: "refs_ok (fst sw)" using inv by (simp add: plugin_inv_def)
  show ?thesis
  proof (cases m)
    case (Invoke session ids act)
    then show ?thesis
      using tabs_kept_session by (auto intro!: tab_step_kept simp: invoke_action_def split: prod.split)
  next
    case (Resize sid cols rows)
    have "calm sw (surface_resize sid cols rows sw)"
      using refs by (intro calm_resize) (simp add: refs_ok_def Let_def)
    then show ?thesis using tab_step_kept tabs_kept_calm by (simp add: Resize)
  next
    case (Closed sid)
    then show ?thesis
      by (auto simp: tab_step_def surface_closed_def Let_def spawn_def split: option.split)
  next
    case (Submit i vals)
    then show ?thesis by (intro tab_step_kept) (simp add: dialog_submitted_def Let_def split: option.split)
  next
    case (Cancel i)
    then show ?thesis by (intro tab_step_kept) (simp add: dialog_cancelled_def)
  next
    case Shutdown
    then show ?thesis by (simp add: tab_step_def shutdown_clear_def stop_watchers_def spawn_def)
  qed (use refs tabs_kept_observe tabs_kept_describe tabs_kept_apply tabs_kept_calm [OF calm_input] in \<open>simp_all add: tab_step_kept\<close>)
qed

text \<open>A new tab.\<close>

lemma new_tab_kept: "new_tab sw d sid sw' \<Longrightarrow> tabs_kept (fst sw) (fst sw')"
  using tabs_kept_calm by (fastforce simp: new_tab_def stream_out_def)

lemma tab_step_new:
  assumes "new_tab sw d sid sw'" and "fresh_tabs (snd sw)" and "tab_added sid sur (fst sw') s2" and "later (snd sw') w2"
  shows "tab_step sw (s2, w2)"
proof -
  have "sid \<notin> tabs_opened (snd sw)" "sid \<in> tabs_opened w2"
    using assms(1,2) tabs_opened_later [OF assms(4)] by (auto simp: new_tab_def)
  moreover have "tab_added sid sur (fst sw) s2"
    using assms(3) new_tab_kept [OF assms(1)] by (simp add: tab_added_def tabs_kept_def)
  ultimately show ?thesis by (auto simp: tab_step_def)
qed

lemma tab_step_logs:
  assumes "new_tab sw d sid sw'" and "fresh_tabs (snd sw)"
  shows "tab_step sw (start_logs r d sid body sw')"
proof -
  obtain s w where sw': "sw' = (s, w)" by (rule prod.exhaust)
  show ?thesis unfolding sw' start_logs_def prod.case Let_def
    by (rule tab_step_new [OF assms, where sur = "\<lparr>sfContext = svContexts s, sfExec = [], sfClient = d, sfConn = r, sfHijacked = False\<rparr>"])
      (simp_all add: sw' tab_added_def track_surface_def spawn_def later_ready)
qed

lemma tab_step_console:
  assumes "new_tab sw d sid sw'" and "fresh_tabs (snd sw)"
  shows "tab_step sw (start_console r d exec sid sw')"
proof -
  obtain s w where sw': "sw' = (s, w)" by (rule prod.exhaust)
  show ?thesis unfolding sw' start_console_def prod.case Let_def
    by (rule tab_step_new [OF assms, where sur = "\<lparr>sfContext = svContexts s, sfExec = exec, sfClient = d, sfConn = r, sfHijacked = True\<rparr>"])
      (simp_all add: sw' tab_added_def track_surface_def console_input_def spawn_def later_ready)
qed

lemma tab_step_action:
  assumes fresh: "fresh_tabs (snd sw)" and r: "r < length (svHeap (fst sw))"
  shows "tab_step sw (run_action r ids a sw)"
proof -
  let ?ts = "targets_of ids (conn_at r (fst sw))"
  have q: "calm sw (create_volume_dialog r sw)" "calm sw (create_network_dialog r sw)" "calm sw (remove_image_dialog r ?ts sw)"
    "calm sw (remove_volume_dialog r ?ts sw)" "calm sw (remove_container_dialog r ?ts sw)" "calm sw (inspect_dialog r (?ts ! 0) sw)"
    by (rule calm_questions [OF r targets_valid] calm_inspect [OF r])+
  obtain fs sw1 where b: "run_over_targets r ?ts a sw = (fs, sw1)" by (rule prod.exhaust)
  have b1: "calm sw sw1" using calm_over_targets [OF r, of ?ts a] by (simp add: b)
  have b2: "calm sw (on_tree r refresh_open (report_batch fs sw1))"
    using calm_trans [OF calm_trans [OF b1 calm_report] calm_refresh] calm_length [OF calm_trans [OF b1 calm_report [of sw1 fs]]] r
    by simp
  have calm_tab: "calm sw sw' \<Longrightarrow> tab_step sw sw'" for sw' by (rule tab_step_kept [OF tabs_kept_calm])
  have "tab_step sw (log_surface r i sw)" for i
    by (rule log_surface_cases [OF r, of i]) (use calm_tab tab_step_logs [OF _ fresh] in auto)
  moreover have "tab_step sw (console_surface r i sw)" for i
    by (rule console_surface_cases [OF r, of i]) (use calm_tab tab_step_console [OF _ fresh] in auto)
  ultimately show ?thesis
    using q b2 calm_tab calm.same by (simp add: run_action_def Let_def b)
qed

text \<open>The other tasks leave the table alone.\<close>

lemma tabs_kept_close: "tabs_kept (fst sw) (fst (close_one x sw))"
  using close_one_maps by (cases x) (simp_all add: tabs_kept_def cancel_def on_tree_def put_conn_def split_beta)

lemma tabs_kept_forget: "tabs_kept (fst sw) (fst (forget session sw))"
proof -
  obtain s w where sw: "sw = (s, w)" by (rule prod.exhaust)
  have c: "tabs_kept a (cancel_watcher x t) = tabs_kept a t" for a x t
    by (simp add: cancel_watcher_def cancel_def split: option.split)
  show ?thesis
  proof (cases "svConns s session")
    case (Some r)
    let ?s = "s\<lparr>svConns := (svConns s)(session := None), svWatchers := (svWatchers s)(session := None)\<rparr>"
    have "tabs_kept s (cancel_watcher (svWatchers s session) ?s)" by (simp add: c)
    from tabs_kept_trans [OF this] tabs_kept_close [of "(cancel_watcher (svWatchers s session) ?s, w)" "CloseConn r"] Some
    show ?thesis by (simp add: forget_def sw Let_def del: close_one.simps)
  qed (simp add: forget_def sw Let_def c)
qed

lemma tab_step_run:
  assumes ok: "task_ok (length (svHeap (fst sw))) t" and fresh: "fresh_tabs (snd sw)"
  shows "tab_step sw (run_task a t sw)"
proof (cases t)
  case (TObserve r)
  obtain s1 w1 where o: "on_tree r refresh_open sw = (s1, w1)" by (rule prod.exhaust)
  have "calm sw (s1, w1)" using calm_refresh [of r sw] ok by (simp add: TObserve o)
  then have "tabs_kept (fst sw) s1" using tabs_kept_calm by fastforce
  then have "tabs_kept (fst sw) (ensure_watcher r s1)" by (simp add: ensure_watcher_def Let_def split: option.split)
  then show ?thesis by (simp add: TObserve run_observe_def o tab_step_kept)
next
  case (TAction r ids act)
  then show ?thesis using tab_step_action [OF fresh] ok by simp
next
  case (TAnswer p vals)
  then have "pdConn p < length (svHeap (fst sw))" using ok by (simp add: pending_ok_def)
  then show ?thesis using tab_step_kept [OF tabs_kept_calm [OF calm_answer]] ok by (simp add: TAnswer)
next
  case (TWatch ctx r)
  obtain s w where sw: "sw = (s, w)" by (rule prod.exhaust)
  obtain err es s1 w1 where f: "on_conn r (\<lambda>c w. follow_events (c, w)) sw = ((err, es), s1, w1)" by (metis prod.exhaust)
  have "calm sw (s1, w1)"
    using calm_on_conn [of r s w "\<lambda>c w. follow_events (c, w)"] conn_step_follow ok f unfolding sw by (simp add: TWatch)
  then have "tabs_kept (fst sw) s1" using tabs_kept_calm by fastforce
  then show ?thesis
    using tabs_kept_trans [OF _ tabs_kept_forget [of "(s1, w1)"]]
    by (auto simp: TWatch watch_round_def f intro!: tab_step_kept)
next
  case (TReconcile ctx r)
  then have "calm sw (on_tree r reconcile_tick sw)" using calm_on_tree [OF _ conn_step_reconcile] ok by simp
  then show ?thesis
    using tabs_kept_calm by (fastforce simp: TReconcile reconcile_round_def split: prod.split intro!: tab_step_kept)
next
  case (TLogPump ctx sid rest)
  have "calm sw (snd (log_round ctx sid \<lparr>rbuf = take (arBytes a) rest, rend = arError a\<rparr> sw))" by (rule calm_log_round)
  then show ?thesis
    using tabs_kept_calm
    by (fastforce simp: TLogPump log_turn_def split: prod.split option.split intro!: tab_step_kept)
next
  case (TConsolePump ctx sid)
  have "calm sw (snd (console_round ctx sid (arChunk a) (arFailed a) sw))" by (rule calm_console_round)
  then show ?thesis
    using tabs_kept_calm by (fastforce simp: TConsolePump console_turn_def split: prod.split intro!: tab_step_kept)
next
  case (TClose xs)
  show ?thesis
  proof (cases xs)
    case (Cons x ys)
    then show ?thesis using tabs_kept_close [of sw x] by (simp add: TClose tab_step_kept split_beta)
  qed (simp add: TClose tab_step_kept)
qed

lemma tab_step_step:
  assumes "plugin_step sw sw'" and inv: "plugin_inv sw" and fresh: "fresh_tabs (snd sw)"
  shows "tab_step sw sw'"
  using assms(1)
proof cases
  case (hears m)
  then show ?thesis using tab_step_hear [OF inv] by simp
next
  case (runs s xs t ys w a)
  have "task_ok (length (svHeap s)) t" using inv runs(1,3) by (simp add: plugin_inv_def refs_ok_def Let_def)
  then have "tab_step (s\<lparr>svTasks := xs @ ys\<rparr>, w) sw'"
    using tab_step_run [of "(s\<lparr>svTasks := xs @ ys\<rparr>, w)" t a] fresh runs(1,2) by simp
  then show ?thesis unfolding runs(1) tab_step_def tabs_kept_def tab_added_def by (simp cong: if_cong)
next
  case (flushes r order)
  have "calm sw sw'" unfolding flushes(1) by (rule calm_on_tree [OF flushes(2) conn_step_flush])
  then show ?thesis by (rule tab_step_kept [OF tabs_kept_calm])
qed

subsection \<open>Typing\<close>

definition inputs_ok :: "plugin \<Rightarrow> bool" where
  "inputs_ok sw =
     (dom (svInput (fst sw)) \<subseteq> tabs_opened (snd sw)
      \<and> (\<forall>sid sur. svSurfaces (fst sw) sid = Some sur \<longrightarrow>
           svInput (fst sw) sid = (if sfHijacked sur then Some (dkStream (sfClient sur)) else None)))"

lemma inputs_ok_step:
  assumes ok: "inputs_ok sw" and step: "tab_step sw sw'" and "later (snd sw) (snd sw')"
  shows "inputs_ok sw'"
proof -
  have more: "tabs_opened (snd sw) \<subseteq> tabs_opened (snd sw')" by (rule tabs_opened_later [OF assms(3)])
  from step consider "tabs_kept (fst sw) (fst sw')"
    | sid sur where "tab_added sid sur (fst sw) (fst sw')" "sid \<notin> tabs_opened (snd sw)" "sid \<in> tabs_opened (snd sw')"
    | sid where "svSurfaces (fst sw') = (svSurfaces (fst sw))(sid := None)" "svInput (fst sw') = (svInput (fst sw))(sid := None)"
    | "svSurfaces (fst sw') = (\<lambda>_. None)" "svInput (fst sw') = svInput (fst sw)"
    unfolding tab_step_def by blast
  then show ?thesis
  proof cases
    case 2
    then have "svInput (fst sw) sid = None" using ok by (auto simp: inputs_ok_def)
    with 2 ok more show ?thesis by (auto simp: inputs_ok_def tab_added_def split: if_splits)
  qed (use ok more in \<open>auto simp: inputs_ok_def tabs_kept_def split: if_splits\<close>)
qed

lemma reachable_inputs:
  assumes "plugin_steps (new_service, w0) sw" and "fresh_start w0"
  shows "inputs_ok sw"
  using assms(1)
proof (induction "(new_service, w0)" sw rule: plugin_steps.induct)
  case start
  then show ?case by (simp add: inputs_ok_def new_service_def)
next
  case (further sw1 sw2)
  from reachable_inv [OF further.hyps(1) assms(2)] have inv: "plugin_inv sw1" and l: "later w0 (snd sw1)" by simp_all
  have "fresh_tabs (snd sw1)" using assms(2) fresh_tabs_later [OF l] by (simp add: fresh_start_def)
  then show ?case
    using inputs_ok_step [OF further.hyps(2) tab_step_step [OF further.hyps(3) inv]] later_step [OF further.hyps(3) inv] by blast
qed

text \<open>
  C8. What is typed reaches its own shell: in every state the plugin can reach, bytes for an open console are
  sent, as they are, on that console's stream and nothing else happens; bytes for a log tab are dropped; and no
  two tabs share a stream.\<close>

theorem input_reaches_its_console:
  assumes "plugin_steps (new_service, w0) (s, w)" and "fresh_start w0" and "svSurfaces s sid = Some sur"
  shows "surface_input sid d (s, w) = (s, if sfHijacked sur then happen (EvSend (dkStream (sfClient sur)) d) w else w)
    \<and> (\<forall>other sur'. svSurfaces s other = Some sur' \<and> other \<noteq> sid \<longrightarrow> dkStream (sfClient sur') \<noteq> dkStream (sfClient sur))"
proof
  have "svInput s sid = (if sfHijacked sur then Some (dkStream (sfClient sur)) else None)"
    using reachable_inputs [OF assms(1,2)] assms(3) by (simp add: inputs_ok_def)
  then show "surface_input sid d (s, w) = (s, if sfHijacked sur then happen (EvSend (dkStream (sfClient sur)) d) w else w)"
    by (simp add: surface_input_def)
  have "streams_ok (s, w)" using reachable_inv [OF assms(1,2)] by (simp add: plugin_inv_def)
  from streams_okD(3) [OF this, of "HoldsTab sid" _ "HoldsTab other" for other] assms(3)
  show "\<forall>other sur'. svSurfaces s other = Some sur' \<and> other \<noteq> sid \<longrightarrow> dkStream (sfClient sur') \<noteq> dkStream (sfClient sur)"
    by fastforce
qed

subsection \<open>A run\<close>

text \<open>
  A daemon with one running container, and a host that takes everything and never gives two tabs one id. The user
  opens the containers of a session and then a console on the container.
\<close>

definition lab_http :: "string \<Rightarrow> http_reply" where
  "lab_http t =
     (if t = ''/v1.45/containers/json?all=1'' then Answer 200 ''[{\"Id\":\"c1\",\"State\":\"running\"}]''
      else if t = ''/v1.45/containers/c1/exec'' then Answer 201 ''{\"Id\":\"e1\"}''
      else Answer 200 ''{}'')"

definition lab_tab :: "event list \<Rightarrow> json" where
  "lab_tab es = JObj [(''surfaceId'', JStr (replicate (length es) (CHR ''t'')))]"

definition lab :: world where
  "lab = \<lparr>wOpen = (\<lambda>es s. None), wHttp = (\<lambda>es n m t b. lab_http t),
     wCall = (\<lambda>es m p. Inr (if m = ''surface.open'' then Some (lab_tab es) else None)),
     wWalk = (\<lambda>es S. if S = {NodeContainers} then [NodeContainers] else sorted_list_of_set S), wTrace = []\<rparr>"

definition lab_observed :: plugin where "lab_observed = observe ''a'' [NodeContainers] (new_service, lab)"

definition lab_shown :: plugin where
  "lab_shown = run_observe 0 ((fst lab_observed)\<lparr>svTasks := []\<rparr>, snd lab_observed)"

definition lab_asked :: plugin where
  "lab_asked = invoke_action ''a'' [instance_id KindContainer ''c1''] ActionContainerConsole lab_shown"

definition lab_console :: plugin where
  "lab_console = run_action 0 [instance_id KindContainer ''c1''] ActionContainerConsole
     ((fst lab_asked)\<lparr>svTasks := [TWatch 0 0, TReconcile 0 0]\<rparr>, snd lab_asked)"

lemma lab_fresh: "fresh_start lab"
proof -
  have key: "unquote ''surfaceId'' = ''surfaceId''" by code_simp
  have "unquote (replicate n (CHR ''t'')) = replicate n (CHR ''t'')" for n
    by (induction n) (simp_all add: unquote_plain backslash_def byte_val_def)
  then have "dec_surface_id (lab_tab es) [] = Some (replicate (length es) (CHR ''t''))" for es
    by (simp add: dec_surface_id_def lab_tab_def dec_struct_def key select_def)
  then have "tab_reply lab es p = Some (replicate (length es) (CHR ''t''))" for es p
    by (simp add: tab_reply_def lab_def)
  then have "fresh_tabs lab" by (auto simp: fresh_tabs_def dest: arg_cong [of _ _ length])
  then show ?thesis by (simp add: fresh_start_def walks_def) (simp add: lab_def)
qed

lemma lab_console_tab:
  "map_option (\<lambda>sur. (sfHijacked sur, sfExec sur, sfConn sur, dkStream (sfClient sur)))
     (svSurfaces (fst lab_console) (replicate 11 (CHR ''t''))) = Some (True, ''e1'', 0, 1)"
  by code_simp

lemma lab_observed_state:
  "svTasks (fst lab_observed) = [TObserve 0]" "svConns (fst lab_observed) ''a'' = Some 0" "svWatchers (fst lab_observed) = (\<lambda>_. None)"
  "svContexts (fst lab_observed) = 0" "length (svHeap (fst lab_observed)) = 1"
  by (auto simp: lab_observed_def observe_def connection_for_def new_service_def spawn_def Let_def put_conn_def split: prod.split)

lemma lab_asked_tasks:
  "svTasks (fst lab_asked) = [TWatch 0 0, TReconcile 0 0] @ TAction 0 [instance_id KindContainer ''c1''] ActionContainerConsole # []"
proof -
  let ?sw = "((fst lab_observed)\<lparr>svTasks := []\<rparr>, snd lab_observed)"
  obtain s w where t: "on_tree 0 refresh_open ?sw = (s, w)" by (rule prod.exhaust)
  have "calm ?sw (s, w)" using calm_refresh [of 0 ?sw] lab_observed_state(5) by (simp add: t)
  from calm_keeps [OF this] have s: "svTasks s = []" "svConns s ''a'' = Some 0" "svWatchers s = (\<lambda>_. None)" "svContexts s = 0"
    by (simp_all add: lab_observed_state)
  then have "svTasks (ensure_watcher 0 s) = [TWatch 0 0, TReconcile 0 0]" "svConns (ensure_watcher 0 s) ''a'' = Some 0"
    by (simp_all add: ensure_watcher_def Let_def spawn_def)
  then show ?thesis
    by (simp add: lab_asked_def invoke_action_def connection_for_def lab_shown_def run_observe_def t spawn_def)
qed

lemma lab_runs: "plugin_steps (new_service, lab) lab_console"
proof -
  have "plugin_steps (new_service, lab) lab_observed"
    using plugin_steps.further [OF plugin_steps.start plugin_step.hears [of _ "Observe ''a'' [NodeContainers]"]]
    by (simp add: lab_observed_def)
  moreover have "plugin_step lab_observed lab_shown"
    using plugin_step.runs [of "fst lab_observed" "[]" "TObserve 0" "[]" "snd lab_observed"] lab_observed_state(1)
    by (simp add: lab_shown_def)
  moreover have "plugin_step lab_shown lab_asked"
    using plugin_step.hears [of lab_shown "Invoke ''a'' [instance_id KindContainer ''c1''] ActionContainerConsole"]
    by (simp add: lab_asked_def)
  moreover have "plugin_step lab_asked lab_console"
    using plugin_step.runs [OF lab_asked_tasks, of "snd lab_asked"] by (simp add: lab_console_def)
  ultimately show ?thesis by (meson plugin_steps.further)
qed

lemma input_reaches_its_console_witness:
  "\<exists>s w. plugin_steps (new_service, lab) (s, w)
     \<and> surface_input (replicate 11 (CHR ''t'')) ''ls'' (s, w) = (s, happen (EvSend 1 ''ls'') w)"
proof -
  obtain sur where sur: "svSurfaces (fst lab_console) (replicate 11 (CHR ''t'')) = Some sur" "sfHijacked sur" "dkStream (sfClient sur) = 1"
    using lab_console_tab by auto
  have "plugin_steps (new_service, lab) (fst lab_console, snd lab_console)" using lab_runs by simp
  from input_reaches_its_console [OF this lab_fresh sur(1), of "''ls''"] sur this
  show ?thesis by (intro exI [of _ "fst lab_console"] exI [of _ "snd lab_console"]) simp
qed


text \<open>Shutting down there closes the console and the session.\<close>

lemma lab_not_closing: "list_all (\<lambda>t. case t of TClose xs \<Rightarrow> xs = [] | _ \<Rightarrow> True) (svTasks (fst lab_console))"
  by code_simp


subsection \<open>Resizing\<close>

fun event_stream :: "event \<Rightarrow> nat option" where
  "event_stream (EvHttp n m t b) = Some n"
| "event_stream (EvCloseStream n) = Some n"
| "event_stream (EvSend n d) = Some n"
| "event_stream _ = None"

text \<open>Only streams of \<open>S\<close>, or streams opened meanwhile.\<close>

definition stays :: "nat set \<Rightarrow> nat \<Rightarrow> event \<Rightarrow> bool" where
  "stays S n e = (\<forall>k. event_stream e = Some k \<longrightarrow> k \<in> S \<or> n \<le> k)"

lemma adds_exchange:
  "dkStream d \<in> S \<or> n \<le> dkStream d \<Longrightarrow> adds (stays S n) w (snd (do_exchange d m p q b w))"
  using do_exchange_trace [of d m p q b w] adds_happen [of "stays S n"]
  by (cases "do_exchange d m p q b w") (auto simp: stays_def)

lemma adds_negotiate:
  "dkStream d \<in> S \<or> n \<le> dkStream d \<Longrightarrow> adds (stays S n) w (snd (snd (negotiate d w)))"
  using adds_exchange [of d S n w "''GET''" "''/version''" "[]" None]
  by (auto simp: negotiate_def split: prod.split sum.split option.split)

lemma negotiate_stream: "negotiate d w = (r, d1, w1) \<Longrightarrow> dkStream d1 = dkStream d"
  by (auto simp: negotiate_def split: prod.splits sum.splits option.splits)

lemma adds_dial_negotiate: "adds (stays S n) w (snd (dial_negotiate n w))"
proof -
  obtain r d w1 where q: "negotiate (new_client n) w = (r, d, w1)" by (rule prod_cases3)
  have "dkStream (new_client n) = n" by (simp add: new_client_def)
  then have "adds (stays S n) w w1" "dkStream d = n"
    using adds_negotiate [of "new_client n" S n w] negotiate_stream [OF q] by (simp_all add: q)
  then show ?thesis
    using adds_trans [OF _ adds_happen] by (auto simp: dial_negotiate_def q close_client_def stays_def split: sum.split)
qed

lemma adds_dial: "adds (stays (held c) (opened (wTrace w))) w (snd (snd (dial c w)))"
proof -
  let ?P = "stays (held c) (opened (wTrace w))"
  obtain q c1 w1 where o: "dial_open c w = (q, c1, w1)" by (rule prod_cases3)
  have 1: "adds ?P w (happen (EvOpen (cxSession c)) w)" by (rule adds_happen) (simp add: stays_def)
  have n: "q = Inr n \<Longrightarrow> n = opened (wTrace w)" for n
    using o by (auto simp: dial_open_def open_exec_def Let_def mark_gone_def split: option.splits if_splits)
  have "adds ?P w w1"
    using o 1 adds_trans [OF 1 adds_happen]
    by (auto simp: dial_open_def open_exec_def Let_def mark_gone_def close_control_def close_client_def held_def stays_def
        split: option.splits if_splits)
  then have "adds ?P w (snd (dial_negotiate (opened (wTrace w)) w1))"
    using adds_trans adds_dial_negotiate by blast
  with \<open>adds ?P w w1\<close> show ?thesis using n by (auto simp: dial_def o split: sum.split prod.split)
qed

lemma resize_control:
  assumes "control c w = (q, c1, w1)"
  shows "adds (stays (held c) (opened (wTrace w))) w w1"
    and "q = Inr d \<Longrightarrow> dkStream d \<in> held c \<or> opened (wTrace w) \<le> dkStream d"
proof -
  obtain p c2 w2 where k: "dial c w = (p, c2, w2)" by (rule prod_cases3)
  have a: "adds (stays (held c) (opened (wTrace w))) w w2" using adds_dial [of c w] by (simp add: k)
  have n: "dkStream d = opened (wTrace w)" if "p = Inr d" for d using dial_number k that by blast
  then have "adds (stays (held c) (opened (wTrace w))) w (close_client d w2)" if "p = Inr d" for d
    using adds_trans [OF a adds_happen] that by (simp add: close_client_def stays_def)
  then show "adds (stays (held c) (opened (wTrace w))) w w1"
    using assms a
    by (auto simp: control_def control_check_def control_install_def k split: sum.splits option.splits if_splits)
  assume q: "q = Inr d"
  show "dkStream d \<in> held c \<or> opened (wTrace w) \<le> dkStream d"
  proof (cases "control_check c")
    case (Some x)
    then show ?thesis using assms q by (auto simp: control_def control_check_def held_def split: if_splits option.splits)
  next
    case None
    then have "c2 = c" if "p = Inr d" for d using dial_keeps k that by blast
    then show ?thesis
      using assms q None n
      by (auto simp: control_def control_install_def control_check_def k held_def split: sum.splits option.splits if_splits)
  qed
qed

text \<open>
  C29. Resizing a console never touches a shell: whatever the daemon and the host do, what a resize adds (opening
  the shared client where there is none, closing it where the session is over, the one resize request) is on the
  connection's shared stream or on one opened for it, never on the stream of an open tab, and no tab is lost.\<close>

theorem resize_spares_the_shell:
  assumes "plugin_steps (new_service, w0) (s, w)" and "fresh_start w0" and "svSurfaces s other = Some sur"
    and "surface_resize sid cols rows (s, w) = (s', w')"
  shows "svSurfaces s' = svSurfaces s \<and> (\<exists>es. wTrace w' = wTrace w @ es
    \<and> (\<forall>e \<in> set es. event_stream e \<noteq> Some (dkStream (sfClient sur))))"
proof -
  have inv: "plugin_inv (s, w)" using reachable_inv [OF assms(1,2)] by simp
  then have ok: "streams_ok (s, w)" and refs: "svSurfaces s a = Some b \<Longrightarrow> sfConn b < length (svHeap s)" for a b
    by (simp_all add: plugin_inv_def refs_ok_def Let_def)
  have "calm (s, w) (s', w')" using calm_resize [of "(s, w)" sid cols rows] refs assms(4) by simp
  then have kept: "svSurfaces s' = svSurfaces s" using calm_keeps by fastforce
  have "\<exists>es. wTrace w' = wTrace w @ es \<and> (\<forall>e \<in> set es. event_stream e \<noteq> Some (dkStream (sfClient sur)))"
  proof (cases "svSurfaces s sid")
    case (Some mine)
    let ?c = "conn_at (sfConn mine) s"
    let ?P = "stays (held ?c) (opened (wTrace w))"
    obtain q c1 w1 where k: "control ?c w = (q, c1, w1)" by (rule prod_cases3)
    have "adds ?P w1 (snd (resize_exec d (sfExec mine) cols rows w1))" if "q = Inr d" for d
      using adds_exchange resize_control(2) [OF k that]
      by (simp add: resize_exec_def post_json_def discard_def api_request_def split: prod.split sum.split) (metis snd_conv)
    then have "adds ?P w w'"
      using adds_trans [OF resize_control(1) [OF k]] assms(4) resize_control(1) [OF k]
      by (auto simp: surface_resize_def Some on_conn_def on_world_def k split: if_splits sum.splits prod.splits)
    moreover have "\<not> ?P e" if "event_stream e = Some (dkStream (sfClient sur))" for e
    proof -
      have "holds s (HoldsTab other) (dkStream (sfClient sur))" using assms(3) by simp
      then show ?thesis
        using that streams_okD(3) [OF ok, of "HoldsTab other" _ "HoldsConn (sfConn mine)"] streams_okD(4) [OF ok] refs [OF Some]
        by (fastforce simp: stays_def conn_at_def)
    qed
    ultimately show ?thesis by (fastforce simp: adds_def list_all_iff)
  qed (use assms(4) in \<open>simp add: surface_resize_def\<close>)
  with kept show ?thesis by simp
qed

lemma resize_spares_the_shell_witness:
  "\<exists>s w s' w' sur. plugin_steps (new_service, lab) (s, w) \<and> svSurfaces s (replicate 11 (CHR ''t'')) = Some sur \<and> sfExec sur = ''e1''
     \<and> surface_resize (replicate 11 (CHR ''t'')) 80 24 (s, w) = (s', w') \<and> svSurfaces s' = svSurfaces s"
proof -
  obtain sur where sur: "svSurfaces (fst lab_console) (replicate 11 (CHR ''t'')) = Some sur" "sfExec sur = ''e1''"
    using lab_console_tab by auto
  obtain s' w' where r: "surface_resize (replicate 11 (CHR ''t'')) 80 24 (fst lab_console, snd lab_console) = (s', w')"
    by (rule prod.exhaust)
  have "plugin_steps (new_service, lab) (fst lab_console, snd lab_console)" using lab_runs by simp
  from resize_spares_the_shell [OF this lab_fresh sur(1) r] sur r this show ?thesis by blast
qed

end
