(* ===== verification/Pumps.thy ===== *)
theory Pumps
  imports Surfaces
begin

text \<open>
  The whole of \<open>pumpLogs\<close> (\<open>internal/usecase/surfaces.go\<close>): the rounds of \<open>Surfaces\<close> one after the other over all
  that a log's stream brings. The loop is one more reader of frames, so it rests on the same contract as the
  plugin's own reader loop.
\<close>

lemma log_round_shrinks:
  assumes "log_round ctx sid rd sw = (Some rd1, sw1)"
  shows "length (rbuf rd1) < length (rbuf rd)"
proof -
  obtain q rd2 where d: "demux rd = (q, rd2)" by (rule prod.exhaust)
  have "rd2 = rd1" "\<exists>f. q = Inr f"
    using assms by (auto simp: log_round_def d split: prod.splits if_splits sum.splits option.splits)
  then show ?thesis using demux_shrinks d by blast
qed

function pump_logs :: "nat \<Rightarrow> string \<Rightarrow> reader \<Rightarrow> plugin \<Rightarrow> plugin" where
  "pump_logs ctx sid rd sw =
     (case log_round ctx sid rd sw of
        (None, sw1) \<Rightarrow> sw1
      | (Some rd1, sw1) \<Rightarrow> pump_logs ctx sid rd1 sw1)"
  by pat_completeness auto
termination
  by (relation "measure (\<lambda>(ctx, sid, rd, sw). length (rbuf rd))") (auto dest: log_round_shrinks [OF sym])

declare pump_logs.simps [simp del]

text \<open>What a frame and the end of the stream do.\<close>

definition pump_frame :: "nat \<Rightarrow> string \<Rightarrow> plugin \<Rightarrow> demux_frame \<Rightarrow> plugin + plugin" where
  "pump_frame ctx sid sw f =
     (if ctx \<in> svCancelled (fst sw) then Inl sw
      else
        (case write_surface sid (text_of (dData f)) (log_stream_name f) (snd sw) of
           (Some e, w1) \<Rightarrow> Inl (fst sw, w1)
         | (None, w1) \<Rightarrow> Inr (fst sw, w1)))"

definition pump_end :: "nat \<Rightarrow> string \<Rightarrow> plugin \<Rightarrow> demux_err \<Rightarrow> plugin" where
  "pump_end ctx sid sw e =
     (if ctx \<in> svCancelled (fst sw) then sw
      else (fst sw, surface_error sid ''The log stream ended.'' (snd sw)))"

lemma pump_logs_eq:
  "pump_logs ctx sid rd sw =
     (case demux rd of
        (Inl e, rd1) \<Rightarrow> pump_end ctx sid sw e
      | (Inr f, rd1) \<Rightarrow> (case pump_frame ctx sid sw f of Inl res \<Rightarrow> res | Inr sw1 \<Rightarrow> pump_logs ctx sid rd1 sw1))"
  by (subst pump_logs.simps)
     (auto simp: log_round_def pump_end_def pump_frame_def split: prod.split sum.split option.split)

interpretation pump: frame_loop mux_bytes mux_ok demux "DemuxRead UnexpectedEOF"
  "\<lambda>sw f. pump_frame ctx sid sw f" "pump_end ctx sid" "\<lambda>sw rd. pump_logs ctx sid rd sw" for ctx sid
  by unfold_locales (rule pump_logs_eq)

text \<open>What the tab is to show of a frame: its bytes, and whether they came from the error output (stream 2).\<close>

definition log_write :: "string \<Rightarrow> demux_frame \<Rightarrow> event" where
  "log_write sid f = EvCall ''surface.write'' (JObj
     [(''dataBase64'', json_str (base64_std (text_of (dData f)))),
      (''stream'', json_str (if dStream f = 2 then ''stderr'' else ''stdout'')), (''surfaceId'', json_str sid)])"

lemma log_write_payload: "log_write sid f = EvCall ''surface.write'' (write_payload sid (text_of (dData f)) (log_stream_name f))"
  by (simp add: log_write_def write_payload_def log_stream_name_def StreamStderr_def)

text \<open>A host that takes what is written to a tab.\<close>

definition takes_writes :: "world \<Rightarrow> bool" where
  "takes_writes w = (\<forall>es p e. wCall w es ''surface.write'' p \<noteq> Inl e)"

lemma pump_frames:
  assumes "ctx \<notin> svCancelled s" and "takes_writes w"
  shows "act_all (\<lambda>sw f. pump_frame ctx sid sw f) (s, w) fs = Inr (s, w\<lparr>wTrace := wTrace w @ map (log_write sid) fs\<rparr>)"
  using assms(2)
proof (induction fs arbitrary: w)
  case (Cons f fs)
  let ?w = "happen (log_write sid f) w"
  obtain r where "wCall w (wTrace w) ''surface.write'' (write_payload sid (text_of (dData f)) (log_stream_name f)) = Inr r"
    using Cons.prems unfolding takes_writes_def by (metis sum.exhaust)
  then have "pump_frame ctx sid (s, w) f = Inr (s, ?w)"
    using assms(1) by (simp add: pump_frame_def write_surface_def host_call_def log_write_payload)
  moreover have "takes_writes ?w" using Cons.prems by (simp add: takes_writes_def happen_def)
  ultimately show ?case using Cons.IH [of ?w] by (simp add: happen_def)
qed simp



end
