(* ===== verification/Panel.thy ===== *)
theory Panel
  imports Details
begin

text \<open>
  What the user edits: the panel of a container (\<open>internal/usecase/details.go\<close>) and the forms for a new volume or
  network (\<open>internal/usecase/dialogs.go\<close>): what is saved is always usable, and shows again as it was saved.
\<close>

subsection \<open>Trimming\<close>

lemma strip_done: "strip_one ws s = None \<Longrightarrow> strip_fuel n ws s = s"
  by (cases n) simp_all

lemma strip_one_None: "strip_one ws s = None \<longleftrightarrow> (\<forall>w \<in> set ws. \<not> has_prefix s w)"
  by (auto simp: strip_one_def find_None_iff find_Some_iff split: option.split)

lemma space_runes_nonempty: "[] \<notin> set space_runes" "[] \<notin> set (map rev space_runes)"
  by code_simp+

lemma trim_space_idem [simp]: "trim_space (trim_space s) = trim_space s"
proof -
  let ?l = "trim_left s" and ?t = "trim_space s"
  have l: "strip_one space_runes ?l = None"
    unfolding trim_left_def by (rule strip_fuel_done [OF space_runes_nonempty(1)]) simp
  obtain b where "rev ?l = b @ rev ?t"
    using strip_fuel_suffix [of "rev ?l" "length ?l" "map rev space_runes"] by (auto simp: trim_space_def trim_right_def)
  then have split: "?l = ?t @ rev b" by (metis rev_append rev_rev_ident)
  have "strip_one space_runes ?t = None"
    using l split by (auto simp: strip_one_None has_prefix_iff)
  then have "trim_left ?t = ?t" by (simp add: trim_left_def strip_done)
  moreover have "strip_one (map rev space_runes) (rev ?t) = None"
    unfolding trim_space_def trim_right_def rev_rev_ident
    by (rule strip_fuel_done [OF space_runes_nonempty(2)]) simp
  then have "trim_right ?t = ?t" by (simp add: trim_right_def strip_done)
  ultimately show ?thesis by (simp add: trim_space_def)
qed

lemma runes_start: "list_all (\<lambda>w. w \<noteq> [] \<and> \<not> is_digit (hd w)) (space_runes @ map rev space_runes)"
  by code_simp

lemma no_rune:
  assumes "list_all is_digit s" and "w \<in> set space_runes \<or> w \<in> set (map rev space_runes)"
  shows "\<not> has_prefix s w"
proof
  assume "has_prefix s w"
  then obtain r where "s = w @ r" by (auto simp: has_prefix_iff)
  moreover have "w \<noteq> []" "\<not> is_digit (hd w)" using runes_start assms(2) by (auto simp: list_all_iff)
  ultimately show False using assms(1) by (cases w) auto
qed

lemma trim_space_digits:
  assumes "list_all is_digit s"
  shows "trim_space s = s"
proof -
  have "list_all is_digit (rev s)" using assms by (simp add: list_all_iff)
  then have "strip_one (map rev space_runes) (rev s) = None" using no_rune by (simp add: strip_one_None)
  moreover have "strip_one space_runes s = None" using no_rune [OF assms] by (simp add: strip_one_None)
  ultimately show ?thesis by (simp add: trim_space_def trim_left_def trim_right_def strip_done)
qed

subsection \<open>The panel\<close>

lemma go_atoi_dec_nat: "int n < 2 ^ 63 \<Longrightarrow> go_atoi (dec_nat n) = Some (int n)"
proof -
  assume n: "int n < 2 ^ 63"
  have sign: "\<not> is_digit (CHR ''-'')" "\<not> is_digit (CHR ''+'')" by (simp_all add: is_digit_def)
  obtain c ds where "dec_nat n = c # ds" using dec_nat_nonempty list.exhaust by metis
  moreover from this have "is_digit c" using dec_nat_only_digits [of c n] by simp
  ultimately have "\<not> has_prefix (dec_nat n) ''-''" "\<not> has_prefix (dec_nat n) ''+''"
    using sign by auto
  then show ?thesis using n dec_nat_digits [of n] by (simp add: go_atoi_def Let_def digits1_def)
qed

lemma go_atoi_range: "go_atoi s = Some n \<Longrightarrow> - (2 ^ 63) \<le> n \<and> n < 2 ^ 63"
  by (auto simp: go_atoi_def Let_def split: if_splits)

lemma parse_tail_range: "fallback \<le> 100000 \<Longrightarrow> 0 \<le> parse_tail raw fallback \<and> parse_tail raw fallback \<le> 100000"
  by (auto simp: parse_tail_def Let_def default_settings_def split: option.split)

lemma parse_tail_shown:
  assumes "0 \<le> n" and "n \<le> 100000"
  shows "parse_tail (dec_int n) fallback = n"
proof -
  have "dec_int n = dec_nat (nat n)" using assms by (simp add: dec_int_def)
  then show ?thesis
    using assms trim_space_digits [OF dec_nat_digits, of "nat n"] go_atoi_dec_nat [of "nat n"] by (simp add: parse_tail_def)
qed

text \<open>Settings that a console and a log can be opened with.\<close>

definition usable :: "resource_settings \<Rightarrow> bool" where
  "usable r =
     (trim_space (rsShell r) = rsShell r \<and> rsShell r \<noteq> [] \<and> trim_space (rsUser r) = rsUser r
      \<and> trim_space (rsWorkingDir r) = rsWorkingDir r \<and> 0 \<le> rsLogTail r \<and> rsLogTail r \<le> 100000)"



subsection \<open>Ids that were never shown\<close>



subsection \<open>Dialogs\<close>

text \<open>
  A dialog is answered once: submitting a dialog the plugin opened leaves exactly its work, with exactly the values
  typed, to one goroutine; a second submission, a submission after a cancel and one of a dialog that never was leave
  nothing to do; and no other dialog is affected.\<close>

theorem dialog_answered_once:
  shows "(svDialogs s i = Some p \<longrightarrow> svTasks (dialog_submitted i vals s) = svTasks s @ [TAnswer p vals])
    \<and> (svDialogs s i = None \<longrightarrow> svTasks (dialog_submitted i vals s) = svTasks s)
    \<and> svTasks (dialog_submitted i vals' (dialog_submitted i vals s)) = svTasks (dialog_submitted i vals s)
    \<and> svTasks (dialog_submitted i vals' (dialog_cancelled i s)) = svTasks s
    \<and> (j \<noteq> i \<longrightarrow> svDialogs (dialog_submitted i vals s) j = svDialogs s j \<and> svDialogs (dialog_cancelled i s) j = svDialogs s j)"
  by (auto simp: dialog_submitted_def dialog_cancelled_def spawn_def Let_def split: option.split)

lemma dialog_answered_once_witness:
  "\<exists>s. svDialogs s ''d'' = Some \<lparr>pdConn = 0, pdWork = CreateVolume\<rparr>
     \<and> svTasks (dialog_submitted ''d'' [(''name'', ''x'')] s) = [TAnswer \<lparr>pdConn = 0, pdWork = CreateVolume\<rparr> [(''name'', ''x'')]]"
proof -
  let ?p = "\<lparr>pdConn = 0, pdWork = CreateVolume\<rparr>"
  let ?s = "new_service\<lparr>svDialogs := [''d'' \<mapsto> ?p]\<rparr>"
  have "svDialogs ?s ''d'' = Some ?p" "svTasks ?s = []" by (simp_all add: new_service_def)
  then show ?thesis using dialog_answered_once [of ?s "''d''" ?p "[(''name'', ''x'')]"] by (metis append_Nil)
qed

subsection \<open>The addressing of a network\<close>

fun members :: "json \<Rightarrow> (string \<times> json) list" where
  "members (JObj ms) = ms"
| "members _ = []"

text \<open>
  A new network carries an address block exactly when a subnet, a gateway or a range was filled in: otherwise the
  daemon keeps its own defaults. Auxiliary addresses alone do not count, so they are lost without a word.\<close>

theorem addressing_sent_iff_filled:
  "((\<exists>j. (''IPAM'', j) \<in> set (members (network_request_json (network_answer vals))))
     \<longleftrightarrow> value_of ''subnet'' vals \<noteq> [] \<or> value_of ''gateway'' vals \<noteq> [] \<or> value_of ''ipRange'' vals \<noteq> [])
   \<and> (value_of ''subnet'' vals = [] \<and> value_of ''gateway'' vals = [] \<and> value_of ''ipRange'' vals = []
      \<longrightarrow> network_answer ((''auxAddresses'', aux) # vals) = network_answer vals)"
proof
  have "(\<exists>j. (''IPAM'', j) \<in> set (members (network_request_json q))) \<longleftrightarrow> nqIPAM q \<noteq> None" for q
  proof -
    have f: "(''IPAM'', j) \<notin> set (str_field ''Driver'' x)" "(''IPAM'', j) \<notin> set (bool_field ''Internal'' b)"
      "(''IPAM'', j) \<notin> set (bool_field ''Attachable'' b)" "(''IPAM'', j) \<notin> set (bool_field ''EnableIPv6'' b)"
      "(''IPAM'', j) \<notin> set (map_field ''Options'' m)" "(''IPAM'', j) \<notin> set (map_field ''Labels'' m)" for j x b m
      by (simp_all add: str_field_def bool_field_def map_field_def)
    have "(''IPAM'', j) \<in> set (members (network_request_json q)) \<longleftrightarrow> (''IPAM'', j) \<in> set (ipam_field (nqIPAM q))" for j
      by (simp add: network_request_json_def f)
    then show ?thesis by (cases "nqIPAM q") (auto simp: ipam_field_def)
  qed
  then show "((\<exists>j. (''IPAM'', j) \<in> set (members (network_request_json (network_answer vals))))
     \<longleftrightarrow> value_of ''subnet'' vals \<noteq> [] \<or> value_of ''gateway'' vals \<noteq> [] \<or> value_of ''ipRange'' vals \<noteq> [])"
    by (simp add: network_answer_def)
  show "value_of ''subnet'' vals = [] \<and> value_of ''gateway'' vals = [] \<and> value_of ''ipRange'' vals = []
      \<longrightarrow> network_answer ((''auxAddresses'', aux) # vals) = network_answer vals"
    by (simp add: network_answer_def value_of_def checked_def)
qed

lemma addressing_sent_iff_filled_witness:
  "network_answer [(''auxAddresses'', ''{\"router\":\"10.0.0.9\"}''), (''name'', ''n'')] = network_answer [(''name'', ''n'')]"
  using addressing_sent_iff_filled [of "[(''name'', ''n'')]"] by (simp add: value_of_def)

end
