(* ===== verification/Pipeline.thy ===== *)
theory Pipeline
  imports Prelude
begin

text \<open>
  The request lock of the Docker client (\<open>do\<close> and \<open>lockedBody\<close> in \<open>internal/infra/dockerapi/client.go\<close>).
  One keep-alive connection carries every request, and a response has no id: the k-th response on the
  stream answers the k-th request written. The state holds who has the lock and how far it is, the requests
  written (by the exchange that wrote them) and how many responses have been taken off the stream whole.
  Exchanges are numbered; any number of them run at once, in any interleaving.
\<close>

datatype phase = Locked | Written | BodyOpen

record pipeline =
  holder :: "(nat \<times> phase) option"
  requests :: "nat list"
  taken :: nat
  broken :: bool

definition new_pipeline :: pipeline where
  "new_pipeline = \<lparr>holder = None, requests = [], taken = 0, broken = False\<rparr>"

definition do_lock :: "nat \<Rightarrow> pipeline \<Rightarrow> pipeline option" where
  "do_lock i c = (if holder c = None then Some (c\<lparr>holder := Some (i, Locked)\<rparr>) else None)"

text \<open>A request that cannot be built leaves the stream as it was; a failed write or read breaks it.\<close>

definition do_abort :: "nat \<Rightarrow> pipeline \<Rightarrow> pipeline option" where
  "do_abort i c = (if holder c = Some (i, Locked) then Some (c\<lparr>holder := None\<rparr>) else None)"

definition do_write :: "nat \<Rightarrow> bool \<Rightarrow> pipeline \<Rightarrow> pipeline option" where
  "do_write i ok c =
     (if holder c = Some (i, Locked) then
        Some (if ok then c\<lparr>holder := Some (i, Written), requests := requests c @ [i]\<rparr>
              else c\<lparr>holder := None, broken := True\<rparr>)
      else None)"

text \<open>
  The head of the next response: its status decides. A refusal is read and closed on the spot, which takes
  the whole response; otherwise the body is handed out with the lock still held.
\<close>

definition do_head :: "nat \<Rightarrow> nat option \<Rightarrow> pipeline \<Rightarrow> pipeline option" where
  "do_head i status c =
     (if holder c = Some (i, Written) then
        Some (case status of
                None \<Rightarrow> c\<lparr>holder := None, broken := True\<rparr>
              | Some s \<Rightarrow> if s \<ge> 400 then c\<lparr>holder := None, taken := taken c + 1\<rparr>
                          else c\<lparr>holder := Some (i, BodyOpen)\<rparr>)
      else None)"

definition body_read :: "nat \<Rightarrow> pipeline \<Rightarrow> nat option" where
  "body_read i c = (if holder c = Some (i, BodyOpen) then Some (taken c) else None)"

definition body_close :: "nat \<Rightarrow> pipeline \<Rightarrow> pipeline option" where
  "body_close i c =
     (if holder c = Some (i, BodyOpen) then Some (c\<lparr>holder := None, taken := taken c + 1\<rparr>) else None)"

text \<open>
  The interleavings. \<open>PHead i k\<close> is the exchange \<open>i\<close> reading the head (and for a refusal the body) of the
  response number \<open>k\<close>; \<open>PBody i k\<close> reads some of its body. An exchange number is used once.
\<close>

datatype pipe_event = PLock nat | PWrite nat | PHead nat nat | PBody nat nat | PClose nat | PFail nat

inductive pipe_step :: "pipeline \<Rightarrow> pipe_event \<Rightarrow> pipeline \<Rightarrow> bool" where
  lock: "do_lock i c = Some c' \<Longrightarrow> i \<notin> set (requests c) \<Longrightarrow> pipe_step c (PLock i) c'"
| abort: "do_abort i c = Some c' \<Longrightarrow> pipe_step c (PFail i) c'"
| writes: "do_write i True c = Some c' \<Longrightarrow> pipe_step c (PWrite i) c'"
| write_fails: "do_write i False c = Some c' \<Longrightarrow> pipe_step c (PFail i) c'"
| head: "do_head i (Some s) c = Some c' \<Longrightarrow> pipe_step c (PHead i (taken c)) c'"
| head_fails: "do_head i None c = Some c' \<Longrightarrow> pipe_step c (PFail i) c'"
| body: "body_read i c = Some k \<Longrightarrow> pipe_step c (PBody i k) c"
| closes: "body_close i c = Some c' \<Longrightarrow> pipe_step c (PClose i) c'"

inductive pipe_steps :: "pipeline \<Rightarrow> pipe_event list \<Rightarrow> pipeline \<Rightarrow> bool" where
  none: "pipe_steps c [] c"
| snoc: "pipe_steps c es d \<Longrightarrow> pipe_step d e d' \<Longrightarrow> pipe_steps c (es @ [e]) d'"

lemmas pipe_ops = do_lock_def do_abort_def do_write_def do_head_def body_read_def body_close_def

inductive_cases pipe_headE: "pipe_step c (PHead i k) c'"
inductive_cases pipe_bodyE: "pipe_step c (PBody i k) c'"

text \<open>
  The invariant: while the stream is whole, every response has been taken but the one the holder of the
  lock is waiting for or reading, and that one is the holder's own.
\<close>

definition pipe_inv :: "pipeline \<Rightarrow> bool" where
  "pipe_inv c =
     (distinct (requests c)
      \<and> (\<forall>i. holder c = Some (i, Locked) \<longrightarrow> i \<notin> set (requests c))
      \<and> (\<not> broken c \<longrightarrow>
          (case holder c of
             Some (i, Written) \<Rightarrow> length (requests c) = taken c + 1 \<and> last (requests c) = i
           | Some (i, BodyOpen) \<Rightarrow> length (requests c) = taken c + 1 \<and> last (requests c) = i
           | _ \<Rightarrow> length (requests c) = taken c)))"

lemma pipe_inv_new: "pipe_inv new_pipeline"
  by (simp add: pipe_inv_def new_pipeline_def)

lemma pipe_inv_step: "pipe_step c e c' \<Longrightarrow> pipe_inv c \<Longrightarrow> pipe_inv c'"
  by (induction rule: pipe_step.induct)
    (auto simp: pipe_inv_def pipe_ops split: if_splits option.splits phase.splits)

lemma broken_stays: "pipe_step c e c' \<Longrightarrow> broken c \<Longrightarrow> broken c'"
  by (induction rule: pipe_step.induct) (auto simp: pipe_ops split: if_splits option.splits)

lemma pipe_inv_steps: "pipe_steps new_pipeline es c \<Longrightarrow> pipe_inv c"
  by (induction new_pipeline es c rule: pipe_steps.induct) (auto simp: pipe_inv_new intro: pipe_inv_step)

lemma pipe_steps_snocE:
  assumes "pipe_steps c (es @ [e]) d"
  obtains c1 where "pipe_steps c es c1" and "pipe_step c1 e d"
  using assms by (cases rule: pipe_steps.cases) auto

lemma last_is_own:
  "length xs = k + 1 \<Longrightarrow> last xs = i \<Longrightarrow> k < length xs \<and> xs ! k = i"
  by (cases xs) (auto simp: last_conv_nth)

subsection \<open>Properties\<close>


text \<open>Two exchanges, the second starting as the first is done.\<close>

lemma sample_exchange:
  "pipe_steps new_pipeline ([PLock 1, PWrite 1, PHead 1 0, PBody 1 0, PClose 1, PLock 2, PWrite 2] @ [PHead 2 1])
     \<lparr>holder = Some (2, BodyOpen), requests = [1, 2], taken = 1, broken = False\<rparr>"
proof -
  let ?s = "\<lambda>h rs t. \<lparr>holder = h, requests = rs, taken = t, broken = False\<rparr>"
  have steps:
    "pipe_step new_pipeline (PLock 1) (?s (Some (1, Locked)) [] 0)"
    "pipe_step (?s (Some (1, Locked)) [] 0) (PWrite 1) (?s (Some (1, Written)) [1] 0)"
    "pipe_step (?s (Some (1, Written)) [1] 0) (PHead 1 0) (?s (Some (1, BodyOpen)) [1] 0)"
    "pipe_step (?s (Some (1, BodyOpen)) [1] 0) (PBody 1 0) (?s (Some (1, BodyOpen)) [1] 0)"
    "pipe_step (?s (Some (1, BodyOpen)) [1] 0) (PClose 1) (?s None [1] 1)"
    "pipe_step (?s None [1] 1) (PLock 2) (?s (Some (2, Locked)) [1] 1)"
    "pipe_step (?s (Some (2, Locked)) [1] 1) (PWrite 2) (?s (Some (2, Written)) [1, 2] 1)"
    "pipe_step (?s (Some (2, Written)) [1, 2] 1) (PHead 2 1) (?s (Some (2, BodyOpen)) [1, 2] 1)"
    using pipe_step.head [of 1 200 "?s (Some (1, Written)) [1] 0"] pipe_step.head [of 2 200 "?s (Some (2, Written)) [1, 2] 1"]
    by (auto simp: pipe_ops new_pipeline_def intro: pipe_step.intros)
  have "pipe_steps new_pipeline (((((((([] @ [PLock 1]) @ [PWrite 1]) @ [PHead 1 0]) @ [PBody 1 0]) @ [PClose 1])
      @ [PLock 2]) @ [PWrite 2]) @ [PHead 2 1]) (?s (Some (2, BodyOpen)) [1, 2] 1)"
    by (rule pipe_steps.snoc [OF pipe_steps.snoc [OF pipe_steps.snoc [OF pipe_steps.snoc [OF pipe_steps.snoc
        [OF pipe_steps.snoc [OF pipe_steps.snoc [OF pipe_steps.snoc [OF pipe_steps.none steps(1)] steps(2)] steps(3)]
          steps(4)] steps(5)] steps(6)] steps(7)] steps(8)])
  then show ?thesis by simp
qed




end
