(* ===== verification/Sha256.thy ===== *)
theory Sha256
  imports Prelude
begin

text \<open>
  SHA-256 (package \<open>crypto/sha256\<close>, FIPS 180-4), on bytes: what the bundle's checksums are made with. The constants
  are given as the standard explains them: the first 32 bits of the fractional parts of roots of the first primes.
\<close>

subsection \<open>The constants\<close>

text \<open>The integer root, bit by bit from the highest of \<open>k\<close> bits.\<close>

fun root_bits :: "nat \<Rightarrow> nat \<Rightarrow> nat \<Rightarrow> nat \<Rightarrow> nat" where
  "root_bits e n 0 r = r"
| "root_bits e n (Suc k) r = root_bits e n k (if (r + 2 ^ k) ^ e \<le> n then r + 2 ^ k else r)"

definition root_fraction :: "nat \<Rightarrow> nat \<Rightarrow> u32" where
  "root_fraction e p = of_nat (root_bits e (p * 2 ^ (32 * e)) 36 0)"

definition small_primes :: "nat list" where
  "small_primes = filter (\<lambda>p. list_all (\<lambda>q. p mod q \<noteq> 0) [2..<p]) [2..<312]"

definition round_constants :: "u32 list" where
  "round_constants = map (root_fraction 3) small_primes"

type_synonym digest = "u32 list"

definition initial_digest :: digest where
  "initial_digest = map (root_fraction 2) [2, 3, 5, 7, 11, 13, 17, 19]"

text \<open>The root is the largest number whose power does not exceed \<open>n\<close>.\<close>

lemma root_bits_bounds:
  "r ^ e \<le> n \<Longrightarrow> n < (r + 2 ^ k) ^ e \<Longrightarrow> root_bits e n k r ^ e \<le> n \<and> n < (root_bits e n k r + 1) ^ e"
proof (induction k arbitrary: r)
  case (Suc k)
  have "r + 2 ^ Suc k = r + 2 ^ k + 2 ^ k" by simp
  then have "n < (r + 2 ^ k + 2 ^ k) ^ e" using Suc.prems(2) by (simp only:)
  then show ?case using Suc.IH [of r] Suc.IH [of "r + 2 ^ k"] Suc.prems(1) by (auto simp: not_le)
qed simp

lemma root_is_floor:
  assumes "e = 2 \<and> p < 2 ^ 8 \<or> e = 3 \<and> p < 2 ^ 12"
  shows "root_bits e (p * 2 ^ (32 * e)) 36 0 ^ e \<le> p * 2 ^ (32 * e)
    \<and> p * 2 ^ (32 * e) < (root_bits e (p * 2 ^ (32 * e)) 36 0 + 1) ^ e"
proof -
  have "p * 2 ^ (32 * e) < (0 + 2 ^ 36) ^ e"
    using assms by auto
  moreover have "(0 :: nat) ^ e \<le> p * 2 ^ (32 * e)" using assms by auto
  ultimately show ?thesis by (intro root_bits_bounds)
qed

subsection \<open>The function\<close>

unbundle bit_operations_syntax

definition small_sigma0 :: "u32 \<Rightarrow> u32" where
  "small_sigma0 x = word_rotr 7 x XOR word_rotr 18 x XOR drop_bit 3 x"
definition small_sigma1 :: "u32 \<Rightarrow> u32" where
  "small_sigma1 x = word_rotr 17 x XOR word_rotr 19 x XOR drop_bit 10 x"
definition big_sigma0 :: "u32 \<Rightarrow> u32" where
  "big_sigma0 x = word_rotr 2 x XOR word_rotr 13 x XOR word_rotr 22 x"
definition big_sigma1 :: "u32 \<Rightarrow> u32" where
  "big_sigma1 x = word_rotr 6 x XOR word_rotr 11 x XOR word_rotr 25 x"
definition choose_bits :: "u32 \<Rightarrow> u32 \<Rightarrow> u32 \<Rightarrow> u32" where
  "choose_bits x y z = (x AND y) XOR (NOT x AND z)"
definition majority :: "u32 \<Rightarrow> u32 \<Rightarrow> u32 \<Rightarrow> u32" where
  "majority x y z = (x AND y) XOR (x AND z) XOR (y AND z)"

text \<open>The message schedule, 16 words to 64.\<close>

fun schedule :: "nat \<Rightarrow> u32 list \<Rightarrow> u32 list" where
  "schedule 0 w = w"
| "schedule (Suc n) w =
     (let t = length w in
      schedule n (w @ [small_sigma1 (w ! (t - 2)) + w ! (t - 7) + small_sigma0 (w ! (t - 15)) + w ! (t - 16)]))"

definition compress_step :: "u32 \<times> u32 \<Rightarrow> digest \<Rightarrow> digest" where
  "compress_step kw d =
     (case (kw, d) of
        ((k, w), [a, b, c, d', e, f, g, h]) \<Rightarrow>
          (let t1 = h + big_sigma1 e + choose_bits e f g + k + w; t2 = big_sigma0 a + majority a b c
           in [t1 + t2, a, b, c, d' + t1, e, f, g])
      | _ \<Rightarrow> d)"

fun block_words :: "nat \<Rightarrow> bytes \<Rightarrow> u32 list" where
  "block_words 0 b = []"
| "block_words (Suc n) b = get_u32 (take 4 b) # block_words n (drop 4 b)"

definition compress :: "bytes \<Rightarrow> digest \<Rightarrow> digest" where
  "compress block d = map2 (+) d (fold compress_step (zip round_constants (schedule 48 (block_words 16 block))) d)"

text \<open>One bit, zeros to the end of a block but eight bytes, and the length in bits.\<close>

definition put_u64 :: "nat \<Rightarrow> bytes" where
  "put_u64 n = put_u32 (of_nat (n div 2 ^ 32)) @ put_u32 (of_nat n)"

definition sha_padding :: "nat \<Rightarrow> bytes" where
  "sha_padding n = 0x80 # replicate ((119 - n mod 64) mod 64) 0 @ put_u64 (8 * n)"

function sha_blocks :: "bytes \<Rightarrow> digest \<Rightarrow> digest" where
  "sha_blocks b d = (if length b < 64 then d else sha_blocks (drop 64 b) (compress (take 64 b) d))"
  by pat_completeness auto
termination
  by (relation "measure (\<lambda>(b, d). length b)") auto

declare sha_blocks.simps [simp del]

definition sha256 :: "bytes \<Rightarrow> bytes" where
  "sha256 b = concat (map put_u32 (sha_blocks (b @ sha_padding (length b)) initial_digest))"

subsection \<open>Its shape\<close>

text \<open>The padded message is whole blocks, and the digest is always 32 bytes.\<close>

lemma padded_blocks: "64 dvd n + length (sha_padding n)"
proof -
  let ?z = "(119 - n mod 64) mod 64"
  have "n mod 64 < 64" by simp
  then have "n mod 64 + (119 - n mod 64) = 119" by simp
  then have "(n + ?z) mod 64 = 119 mod 64" by (metis mod_add_eq mod_mod_trivial)
  then have "(n + ?z + 9) mod 64 = (119 mod 64 + 9) mod 64" by (metis mod_add_left_eq mod_mod_trivial)
  moreover have "(119 mod 64 + 9) mod 64 = (0 :: nat)" by simp
  ultimately have "64 dvd n + ?z + 9" by (metis dvd_eq_mod_eq_0)
  moreover have "length (sha_padding n) = ?z + 9" by (simp only: sha_padding_def put_u64_def list.size length_append length_replicate length_put_u32)
  ultimately show ?thesis by (simp only: add.assoc)
qed

lemma length_compress_step: "length (compress_step kw d) = length d"
  by (auto simp: compress_step_def Let_def split: prod.split list.split)

lemma length_compress: "length (compress b d) = length d"
proof -
  have "length (fold compress_step ks d) = length d" for ks by (induction ks arbitrary: d) (simp_all add: length_compress_step)
  then show ?thesis by (simp add: compress_def)
qed

lemma length_sha_blocks: "length (sha_blocks b d) = length d"
  by (induction b d rule: sha_blocks.induct) (subst sha_blocks.simps, simp add: length_compress)

lemma length_sha256 [simp]: "length (sha256 b) = 32"
proof -
  have "length (concat (map put_u32 ws)) = 4 * length ws" for ws by (induction ws) simp_all
  then show ?thesis by (simp add: sha256_def length_sha_blocks initial_digest_def)
qed

end
