(* ===== verification/Pack.thy ===== *)
theory Pack
  imports Sha256 Api
begin

text \<open>
  The bundler (\<open>cmd/xqs-docker-pack/main.go\<close>): the files of a directory, a \<open>SHA256SUMS\<close> over them, and the archive
  of both. The disk below the directory is a record: every regular file by its slash path with its bytes (\<open>None\<close>
  where it cannot be read), and what the system refuses. The archive is the list of its entries.
\<close>

record disk =
  dkFiles :: "(string \<times> bytes option) list"
  dkWalks :: bool
  dkWritable :: bool
  dkArchive :: bool

datatype pack_error = WalkFailed | NoManifest | ReadFailed string | SumsNotWritten | ArchiveFailed

definition collect :: "disk \<Rightarrow> pack_error + string list" where
  "collect d = (if dkWalks d then Inr (map fst (dkFiles d)) else Inl WalkFailed)"

definition read_path :: "string \<Rightarrow> disk \<Rightarrow> pack_error + bytes" where
  "read_path name d = (case map_of (dkFiles d) name of Some (Some b) \<Rightarrow> Inr b | _ \<Rightarrow> Inl (ReadFailed name))"

subsection \<open>The checksums\<close>

text \<open>\<open>hex.EncodeToString\<close>\<close>

definition hex_digit :: "nat \<Rightarrow> char" where
  "hex_digit n = (if n < 10 then char_of (48 + n) else char_of (87 + n))"

definition hex_text :: "bytes \<Rightarrow> string" where
  "hex_text bs = concat (map (\<lambda>b. [hex_digit (unat b div 16), hex_digit (unat b mod 16)]) bs)"

definition hash_file :: "string \<Rightarrow> disk \<Rightarrow> pack_error + string" where
  "hash_file name d = (case read_path name d of Inl e \<Rightarrow> Inl e | Inr b \<Rightarrow> Inr (hex_text (sha256 b)))"

definition sums_name :: string where "sums_name = ''SHA256SUMS''"

fun checksum_text :: "string list \<Rightarrow> disk \<Rightarrow> pack_error + string" where
  "checksum_text [] d = Inr []"
| "checksum_text (n # ns) d =
     (case hash_file n d of
        Inl e \<Rightarrow> Inl e
      | Inr h \<Rightarrow>
          (case checksum_text ns d of
             Inl e \<Rightarrow> Inl e
           | Inr rest \<Rightarrow> Inr (h @ ''  '' @ n @ [CHR 0x0A] @ rest)))"

definition write_checksums :: "string list \<Rightarrow> disk \<Rightarrow> pack_error + disk" where
  "write_checksums names d =
     (case checksum_text (sort (filter (\<lambda>n. n \<noteq> sums_name) names)) d of
        Inl e \<Rightarrow> Inl e
      | Inr text \<Rightarrow>
          if dkWritable d then Inr (d\<lparr>dkFiles := assoc_set sums_name (Some (bytes_of text)) (dkFiles d)\<rparr>)
          else Inl SumsNotWritten)"

subsection \<open>The archive\<close>

type_synonym archive = "(string \<times> bytes) list"

fun add_files :: "string list \<Rightarrow> disk \<Rightarrow> pack_error + archive" where
  "add_files [] d = Inr []"
| "add_files (n # ns) d =
     (case read_path n d of
        Inl e \<Rightarrow> Inl e
      | Inr b \<Rightarrow> (case add_files ns d of Inl e \<Rightarrow> Inl e | Inr rest \<Rightarrow> Inr ((n, b) # rest)))"

definition write_zip :: "string list \<Rightarrow> disk \<Rightarrow> pack_error + archive" where
  "write_zip names d = (if dkArchive d then add_files (sort names) d else Inl ArchiveFailed)"

definition run_pack :: "disk \<Rightarrow> pack_error + archive" where
  "run_pack d =
     (case collect d of
        Inl e \<Rightarrow> Inl e
      | Inr names \<Rightarrow>
          if ''plugin.json'' \<notin> set names then Inl NoManifest
          else
            (case write_checksums names d of
               Inl e \<Rightarrow> Inl e
             | Inr d1 \<Rightarrow> (case collect d1 of Inl e \<Rightarrow> Inl e | Inr names1 \<Rightarrow> write_zip names1 d1)))"

subsection \<open>The check of the host\<close>

text \<open>
  What the host does with a bundle, as the command's own comment states it: the files listed and the files there
  are the same set, and every file has the listed digest. A line is a digest of 64 digits, two spaces, the name.
\<close>

fun split_lines :: "string \<Rightarrow> string list" where
  "split_lines [] = []"
| "split_lines (c # s) =
     (if c = CHR 0x0A then [] # split_lines s
      else (case split_lines s of [] \<Rightarrow> [[c]] | l # ls \<Rightarrow> (c # l) # ls))"

definition parse_sums :: "string \<Rightarrow> (string \<times> string) list" where
  "parse_sums s = map (\<lambda>l. (drop 66 l, take 64 l)) (split_lines s)"

definition bundle_verifies :: "archive \<Rightarrow> bool" where
  "bundle_verifies z =
     (case map_of z sums_name of
        None \<Rightarrow> False
      | Some b \<Rightarrow>
          (let sums = parse_sums (text_of b) in
           set (map fst sums) = set (map fst z) - {sums_name}
           \<and> list_all (\<lambda>(n, h). n \<noteq> sums_name \<longrightarrow> map_of sums n = Some (hex_text (sha256 h))) z))"

subsection \<open>Reading the listing back\<close>

lemma split_line: "CHR 0x0A \<notin> set l \<Longrightarrow> split_lines (l @ CHR 0x0A # s) = l # split_lines s"
  by (induction l) auto

lemma hex_digit_line: "n < 16 \<Longrightarrow> hex_digit n \<noteq> CHR 0x0A"
proof -
  assume "n < 16"
  moreover have "list_all (\<lambda>n. hex_digit n \<noteq> CHR 0x0A) [0..<16]" by code_simp
  ultimately show ?thesis by (simp add: list_all_iff)
qed

lemma hex_text_shape: "length (hex_text b) = 2 * length b" "CHR 0x0A \<notin> set (hex_text b)"
proof -
  show "length (hex_text b) = 2 * length b" by (induction b) (simp_all add: hex_text_def)
  have "unat x < 256" for x :: byte by (rule order_less_le_trans [OF unsigned_less]) simp
  then have "unat x div 16 < 16" "unat x mod 16 < 16" for x :: byte by (simp_all add: less_mult_imp_div_less)
  then have "hex_digit (unat x div 16) \<noteq> CHR 0x0A" "hex_digit (unat x mod 16) \<noteq> CHR 0x0A" for x :: byte
    by (simp_all only: hex_digit_line not_False_eq_True)
  then show "CHR 0x0A \<notin> set (hex_text b)" by (auto simp: hex_text_def) (metis+)
qed

text \<open>The listing reads back as the names, in order, each with the digest of its bytes.\<close>

lemma checksum_text_parses:
  assumes "checksum_text ns d = Inr s" and "\<forall>n \<in> set ns. CHR 0x0A \<notin> set n"
  shows "\<exists>bs. map (\<lambda>n. read_path n d) ns = map Inr bs \<and> parse_sums s = zip ns (map (\<lambda>b. hex_text (sha256 b)) bs)"
  using assms
proof (induction ns arbitrary: s)
  case (Cons n ns)
  obtain h rest where h: "hash_file n d = Inr h" and r: "checksum_text ns d = Inr rest"
    and t: "s = h @ ''  '' @ n @ [CHR 0x0A] @ rest"
    using Cons.prems(1) by (auto split: sum.splits)
  obtain b where b: "read_path n d = Inr b" "h = hex_text (sha256 b)"
    using h by (auto simp: hash_file_def split: sum.splits)
  obtain bs where bs: "map (\<lambda>n. read_path n d) ns = map Inr bs" "parse_sums rest = zip ns (map (\<lambda>b. hex_text (sha256 b)) bs)"
    using Cons.IH [OF r] Cons.prems(2) by auto
  have "CHR 0x0A \<notin> set (h @ ''  '' @ n)" using Cons.prems(2) hex_text_shape(2) by (auto simp: b(2))
  from split_line [OF this, of rest] have "split_lines s = (h @ ''  '' @ n) # split_lines rest" by (simp add: t)
  moreover have "length h = 64" by (simp add: b(2) hex_text_shape)
  ultimately have "parse_sums s = (n, h) # parse_sums rest" by (simp add: parse_sums_def)
  then show ?case using b bs by (intro exI [of _ "b # bs"]) simp
qed (simp add: parse_sums_def)

lemma add_files_all:
  "add_files ns d = Inr z \<Longrightarrow> map fst z = ns \<and> (\<forall>(n, b) \<in> set z. read_path n d = Inr b)"
  by (induction ns arbitrary: z) (auto split: sum.splits)

lemma assoc_set_maps: "map_of (assoc_set k v m) = (map_of m)(k \<mapsto> v)"
  by (induction k v m rule: assoc_set.induct) auto

lemma assoc_set_keys: "fst ` set (assoc_set k v m) = insert k (fst ` set m)"
  by (induction k v m rule: assoc_set.induct) auto

lemma assoc_set_distinct: "distinct (map fst m) \<Longrightarrow> distinct (map fst (assoc_set k v m))"
  by (induction k v m rule: assoc_set.induct) (auto simp: assoc_set_keys)

lemma map_of_zip_pos:
  "length ns = length bs \<Longrightarrow> distinct ns \<Longrightarrow> n \<in> set ns \<Longrightarrow> map f ns = map Inr bs \<Longrightarrow>
   f n = Inr b \<Longrightarrow> map_of (zip ns (map g bs)) n = Some (g b)"
  by (induction ns bs rule: list_induct2) auto

text \<open>What a successful run has done, step by step.\<close>

lemma run_pack_steps:
  assumes "run_pack d = Inr z"
  defines "names \<equiv> map fst (dkFiles d)"
  obtains s where "checksum_text (sort (filter (\<lambda>n. n \<noteq> sums_name) names)) d = Inr s"
    and "''plugin.json'' \<in> set names"
    and "add_files (sort (map fst (assoc_set sums_name (Some (bytes_of s)) (dkFiles d))))
           (d\<lparr>dkFiles := assoc_set sums_name (Some (bytes_of s)) (dkFiles d)\<rparr>) = Inr z"
  using assms
  by (auto simp: run_pack_def collect_def write_checksums_def write_zip_def split: sum.splits if_splits)

lemma read_path_files: "read_path n d = Inr b \<longleftrightarrow> map_of (dkFiles d) n = Some (Some b)"
  by (simp add: read_path_def split: option.splits)

text \<open>The entries of a packed archive: what the disk held, and the listing of it.\<close>

lemma packed_entries:
  assumes run: "run_pack d = Inr z" and uniq: "distinct (map fst (dkFiles d))"
  shows "sorted (map fst z)" and "distinct (map fst z)"
    and "fst ` set z = insert sums_name (fst ` set (dkFiles d))"
    and "\<And>n b. (n, b) \<in> set z \<Longrightarrow> n \<noteq> sums_name \<Longrightarrow> map_of (dkFiles d) n = Some (Some b)"
    and "\<And>n b. map_of (dkFiles d) n = Some b \<Longrightarrow> n \<noteq> sums_name \<Longrightarrow> \<exists>c. b = Some c \<and> map_of z n = Some c"
    and "\<exists>s. map_of z sums_name = Some (bytes_of s)
           \<and> checksum_text (sort (filter (\<lambda>n. n \<noteq> sums_name) (map fst (dkFiles d)))) d = Inr s"
proof -
  from run_pack_steps [OF run] obtain s where
    sums: "checksum_text (sort (filter (\<lambda>n. n \<noteq> sums_name) (map fst (dkFiles d)))) d = Inr s" and
    zip: "add_files (sort (map fst (assoc_set sums_name (Some (bytes_of s)) (dkFiles d))))
            (d\<lparr>dkFiles := assoc_set sums_name (Some (bytes_of s)) (dkFiles d)\<rparr>) = Inr z" by blast
  have keys: "map fst z = sort (map fst (assoc_set sums_name (Some (bytes_of s)) (dkFiles d)))"
    using add_files_all [OF zip] by simp
  have entry: "((map_of (dkFiles d))(sums_name \<mapsto> Some (bytes_of s))) n = Some (Some b)" if "(n, b) \<in> set z" for n b
    using add_files_all [OF zip] that by (auto simp: read_path_files assoc_set_maps)
  show "sorted (map fst z)" by (simp add: keys)
  show dist: "distinct (map fst z)" using uniq by (simp add: keys assoc_set_distinct)
  show set: "fst ` set z = insert sums_name (fst ` set (dkFiles d))"
    using arg_cong [OF keys, of set] by (simp add: assoc_set_keys)
  show "map_of (dkFiles d) n = Some (Some b)" if "(n, b) \<in> set z" "n \<noteq> sums_name" for n b
    using entry [OF that(1)] that(2) by simp
  show "\<exists>c. b = Some c \<and> map_of z n = Some c" if "map_of (dkFiles d) n = Some b" "n \<noteq> sums_name" for n b
  proof -
    have "n \<in> fst ` set z" using map_of_SomeD [OF that(1)] by (force simp: set)
    then obtain c where c: "(n, c) \<in> set z" by auto
    then show ?thesis using entry [OF c] that dist by auto
  qed
  have "sums_name \<in> fst ` set z" by (simp add: set)
  then obtain c where c: "(sums_name, c) \<in> set z" by auto
  then show "\<exists>s. map_of z sums_name = Some (bytes_of s)
           \<and> checksum_text (sort (filter (\<lambda>n. n \<noteq> sums_name) (map fst (dkFiles d)))) d = Inr s"
    using entry [OF c] dist sums by auto
qed

subsection \<open>A packed directory verifies\<close>

text \<open>
  C35. A bundle that the command writes passes the host's check: the listing in it names exactly the other files of the
  archive, each with the digest of the bytes archived, whatever old listing lay in the directory. The archive is the
  directory: its entries are the files of the disk and the listing, sorted by name and none twice, the manifest
  \<open>plugin.json\<close> among them, each with the bytes the disk has for it. (Names of files have no line break.)\<close>

theorem bundle_verifies_itself:
  assumes "run_pack d = Inr z" and "distinct (map fst (dkFiles d))"
    and "\<forall>n \<in> fst ` set (dkFiles d). CHR 0x0A \<notin> set n"
  shows "bundle_verifies z \<and> sorted (map fst z) \<and> distinct (map fst z) \<and> ''plugin.json'' \<in> fst ` set z
    \<and> fst ` set z = insert sums_name (fst ` set (dkFiles d))
    \<and> (\<forall>n \<in> fst ` set (dkFiles d) - {sums_name}. map_of (dkFiles d) n = Some (map_of z n))"
proof -
  note pe = packed_entries [OF assms(1,2)]
  define ns where "ns = sort (filter (\<lambda>n. n \<noteq> sums_name) (map fst (dkFiles d)))"
  have ns: "set ns = fst ` set z - {sums_name}" "distinct ns" using assms(2) pe(3) by (auto simp: ns_def)
  obtain s where s: "map_of z sums_name = Some (bytes_of s)" "checksum_text ns d = Inr s" using pe(6) by (auto simp: ns_def)
  have "\<forall>n \<in> set ns. CHR 0x0A \<notin> set n" using assms(3) by (auto simp: ns_def)
  from checksum_text_parses [OF s(2) this] obtain bs where
    bs: "map (\<lambda>n. read_path n d) ns = map Inr bs" "parse_sums s = zip ns (map (\<lambda>b. hex_text (sha256 b)) bs)" by blast
  have len: "length ns = length bs" using arg_cong [OF bs(1), of length] by simp
  have dig: "map_of (parse_sums s) n = Some (hex_text (sha256 b))" if "(n, b) \<in> set z" "n \<noteq> sums_name" for n b
    unfolding bs(2) using that ns pe(4) [OF that]
    by (intro map_of_zip_pos [OF len _ _ bs(1)]) (auto simp: read_path_files intro: rev_image_eqI)
  have "map fst (parse_sums s) = ns" using len by (simp add: bs(2))
  then have names: "set (map fst (parse_sums s)) = set (map fst z) - {sums_name}" using ns by (simp del: set_map) simp
  have "list_all (\<lambda>(n, h). n \<noteq> sums_name \<longrightarrow> map_of (parse_sums s) n = Some (hex_text (sha256 h))) z"
    using dig by (auto simp: list_all_iff)
  with names have "bundle_verifies z" unfolding bundle_verifies_def s(1) Let_def option.case text_bytes by (rule conjI)
  moreover have "\<forall>n \<in> fst ` set (dkFiles d) - {sums_name}. map_of (dkFiles d) n = Some (map_of z n)"
    using pe(5) assms(2) by (fastforce dest: map_of_is_SomeI)
  moreover have "''plugin.json'' \<in> fst ` set z" using run_pack_steps [OF assms(1)] pe(3) by auto
  ultimately show ?thesis using pe(1,2,3) by blast
qed

definition sample_disk :: disk where
  "sample_disk = \<lparr>dkFiles = [(''ui/icon.svg'', Some [60]), (''SHA256SUMS'', None), (''plugin.json'', Some [123, 125])],
     dkWalks = True, dkWritable = True, dkArchive = True\<rparr>"

lemma sample_packs: "map_option (map fst) (case run_pack sample_disk of Inr z \<Rightarrow> Some z | _ \<Rightarrow> None)
    = Some [''SHA256SUMS'', ''plugin.json'', ''ui/icon.svg'']"
  by (simp add: run_pack_def sample_disk_def collect_def write_checksums_def sums_name_def hash_file_def read_path_def write_zip_def)

lemma bundle_verifies_itself_witness:
  "\<exists>z. run_pack sample_disk = Inr z \<and> bundle_verifies z \<and> map_of z ''plugin.json'' = Some [123, 125]"
proof -
  obtain z where z: "run_pack sample_disk = Inr z" using sample_packs by (auto split: sum.splits)
  have d: "distinct (map fst (dkFiles sample_disk))" "\<forall>n \<in> fst ` set (dkFiles sample_disk). CHR 0x0A \<notin> set n"
    "map_of (dkFiles sample_disk) ''plugin.json'' = Some (Some [123, 125])"
    "''plugin.json'' \<in> fst ` set (dkFiles sample_disk) - {sums_name}"
    by (simp_all add: sample_disk_def sums_name_def)
  show ?thesis using bundle_verifies_itself [OF z d(1,2)] z d(3,4) by (metis option.inject)
qed

end
