(* ===== verification/Hijack.thy ===== *)
theory Hijack
  imports Channel
begin

text \<open>
  Taking a connection over (\<open>internal/infra/dockerapi/hijack.go\<close>, the end of \<open>StartExec\<close> in \<open>stream.go\<close>, and the
  forwarding of \<open>conn.go\<close>). The head of the answer is read through a buffered reader that reads ahead; after a
  101 the reader's remainder and the channel below it become one stream, the terminal of the process. The reads
  below are the operations of \<open>Channel\<close>, so everything here interleaves with deliveries, credit and closes.
\<close>

subsection \<open>The head\<close>

text \<open>The head of an HTTP answer ends with the first empty line; what follows is not its business.\<close>

fun split_head :: "bytes \<Rightarrow> (bytes \<times> bytes) option" where
  "split_head (a # b # c # d # bs) =
     (if [a, b, c, d] = [13, 10, 13, 10] then Some ([a, b, c, d], bs)
      else map_option (\<lambda>(h, r). (a # h, r)) (split_head (b # c # d # bs)))"
| "split_head _ = None"

text \<open>The code of the status line: the three digits after the first space.\<close>

definition code_digit :: "byte \<Rightarrow> nat option" where
  "code_digit b = (if 48 \<le> unat b \<and> unat b \<le> 57 then Some (unat b - 48) else None)"

definition status_of :: "bytes \<Rightarrow> nat option" where
  "status_of h =
     (case dropWhile (\<lambda>b. b \<noteq> 32) h of
        _ # x # y # z # _ \<Rightarrow>
          (case (code_digit x, code_digit y, code_digit z) of
             (Some i, Some j, Some k) \<Rightarrow> Some (100 * i + 10 * j + k)
           | _ \<Rightarrow> None)
      | _ \<Rightarrow> None)"

text \<open>
  Reading the head: while the buffer has no whole head, one read of the connection, for as much as the buffer has
  \<open>room\<close> (at least a byte; how much is the reader's affair). \<open>HeadWaits\<close> is the wait for more frames, with the
  buffer so far; the credit that the reads return to the host is listed.
\<close>

datatype head_result =
    HeadRead bytes bytes "u32 list" channel | HeadWaits bytes "u32 list" channel | HeadFails chan_err "u32 list" channel

definition unread_size :: "channel \<Rightarrow> nat" where
  "unread_size c = length (pending c) + (\<Sum>b\<leftarrow>inbound c. Suc (length b))"

lemma read_shrinks: "chan_op_step c (OpRead (Suc k)) = (OutRead b g, c') \<Longrightarrow> unread_size c' < unread_size c"
proof -
  assume "chan_op_step c (OpRead (Suc k)) = (OutRead b g, c')"
  then have r: "chan_read (Suc k) c = Some (Inr b, g, c')" by (auto split: option.splits sum.splits)
  show ?thesis
  proof (cases "pending c")
    case (Cons x xs)
    then show ?thesis using r by (auto simp: chan_read_def chan_next_def unread_size_def Let_def split: if_splits)
  next
    case Nil
    then obtain f fs where "inbound c = f # fs" using r by (cases "inbound c") (auto simp: chan_read_def split: if_splits)
    then show ?thesis using r Nil by (auto simp: chan_read_def chan_next_def unread_size_def Let_def split: if_splits)
  qed
qed

function read_head :: "(bytes \<Rightarrow> nat) \<Rightarrow> bytes \<Rightarrow> u32 list \<Rightarrow> channel \<Rightarrow> head_result" where
  "read_head room buf gs c =
     (case split_head buf of
        Some (h, rest) \<Rightarrow> HeadRead h rest gs c
      | None \<Rightarrow>
          (case chan_op_step c (OpRead (Suc (room buf))) of
             (OutRead b g, c') \<Rightarrow> read_head room (buf @ b) (gs @ [g]) c'
           | (OutErr e, c') \<Rightarrow> HeadFails e gs c'
           | (_, c') \<Rightarrow> HeadWaits buf gs c'))"
  by pat_completeness auto
termination by (relation "measure (\<lambda>(room, buf, gs, c). unread_size c)") (auto intro: read_shrinks simp del: chan_op_step.simps dest: sym)

declare read_head.simps [simp del]

subsection \<open>The stream after the upgrade\<close>

record hijacked =
  hjBuffered :: bytes
  hjConn :: channel

fun hijacked_step :: "hijacked \<Rightarrow> chan_op \<Rightarrow> chan_out \<times> hijacked" where
  "hijacked_step s (OpRead k) =
     (if hjBuffered s \<noteq> [] then (OutRead (take k (hjBuffered s)) 0, s\<lparr>hjBuffered := drop k (hjBuffered s)\<rparr>)
      else (let (out, c) = chan_op_step (hjConn s) (OpRead k) in (out, s\<lparr>hjConn := c\<rparr>)))"
| "hijacked_step s x = (let (out, c) = chan_op_step (hjConn s) x in (out, s\<lparr>hjConn := c\<rparr>))"

fun hijacked_run :: "hijacked \<Rightarrow> chan_op list \<Rightarrow> (chan_op \<times> chan_out) list \<times> hijacked" where
  "hijacked_run s [] = ([], s)"
| "hijacked_run s (x # xs) =
     (let (out, s1) = hijacked_step s x; (tr, s2) = hijacked_run s1 xs in ((x, out) # tr, s2))"

text \<open>
  \<open>readHijackResponse\<close>: the status, and the stream behind the head. An answer that is no upgrade has a body, which is
  read off first (up to 64 KiB; \<open>drain\<close> is the framing of that body, the HTTP library's).
\<close>

datatype hijack_response = Answered nat hijacked | BadHead | HeadBroken chan_err | HeadPending bytes channel

definition read_hijack_response ::
  "(bytes \<Rightarrow> nat) \<Rightarrow> (bytes \<Rightarrow> hijacked \<Rightarrow> hijacked) \<Rightarrow> bytes \<Rightarrow> channel \<Rightarrow> u32 list \<times> hijack_response" where
  "read_hijack_response room drain buf c =
     (case read_head room buf [] c of
        HeadWaits b gs c' \<Rightarrow> (gs, HeadPending b c')
      | HeadFails e gs c' \<Rightarrow> (gs, HeadBroken e)
      | HeadRead h rest gs c' \<Rightarrow>
          (gs,
           case status_of h of
             None \<Rightarrow> BadHead
           | Some code \<Rightarrow>
               (let s = \<lparr>hjBuffered = rest, hjConn = c'\<rparr>
                in Answered code (if code \<noteq> 101 then drain h s else s))))"

text \<open>What \<open>StartExec\<close> makes of the answer.\<close>

datatype takeover = TakenOver hijacked | Refused nat | NoAnswer hijack_response

definition take_over ::
  "(bytes \<Rightarrow> nat) \<Rightarrow> (bytes \<Rightarrow> hijacked \<Rightarrow> hijacked) \<Rightarrow> bytes \<Rightarrow> channel \<Rightarrow> u32 list \<times> takeover" where
  "take_over room drain buf c =
     (case read_hijack_response room drain buf c of
        (gs, Answered code s) \<Rightarrow> (gs, if code \<ge> 400 then Refused code else TakenOver s)
      | (gs, r) \<Rightarrow> (gs, NoAnswer r))"

subsection \<open>No byte is lost or read twice\<close>

lemma split_head_append:
  "split_head x = Some (h, r) \<Longrightarrow> x = h @ r \<and> split_head (x @ y) = Some (h, r @ y)"
  by (induction x arbitrary: h r rule: split_head.induct) (auto split: if_splits)

definition unread :: "channel \<Rightarrow> bytes" where "unread c = pending c @ concat (inbound c)"

lemma read_step_unread:
  assumes "chan_op_step c (OpRead k) = (OutRead b g, c')" and "chan_inv c"
  shows "unread c = b @ unread c' \<and> chan_inv c'"
  using chan_op_step_sums [OF assms] by (simp add: unread_def)

lemma read_step_ready:
  assumes "unread c \<noteq> []"
  obtains b g c' where "chan_op_step c (OpRead k) = (OutRead b g, c')"
  using assms by (fastforce simp: unread_def chan_read_def Let_def split: if_splits)

text \<open>A head that has arrived is read, and read as it stands at the front.\<close>

lemma read_head_ready:
  assumes "split_head (buf @ unread c) = Some (h, body)" and "chan_inv c"
  shows "\<exists>rest gs' c'. read_head room buf gs c = HeadRead h rest gs' c' \<and> body = rest @ unread c' \<and> chan_inv c'"
  using assms
proof (induction room buf gs c rule: read_head.induct)
  case (1 room buf gs c)
  show ?case
  proof (cases "split_head buf")
    case (Some p)
    obtain h' rest where p: "p = (h', rest)" by (cases p)
    then have "split_head (buf @ unread c) = Some (h', rest @ unread c)" using split_head_append Some by blast
    then show ?thesis using 1(2,3) Some p by (auto simp: read_head.simps [of room buf])
  next
    case None
    then have "unread c \<noteq> []" using 1(2) by auto
    then obtain b g c' where s: "chan_op_step c (OpRead (Suc (room buf))) = (OutRead b g, c')" by (rule read_step_ready)
    have u: "unread c = b @ unread c'" "chan_inv c'" using read_step_unread [OF s 1(3)] by simp_all
    have "\<exists>rest gs' d. read_head room (buf @ b) (gs @ [g]) c' = HeadRead h rest gs' d \<and> body = rest @ unread d \<and> chan_inv d"
      using 1(1) [OF None s [symmetric] refl] 1(2) u by simp
    then show ?thesis using None s by (simp add: read_head.simps [of room buf])
  qed
qed

lemma hijacked_step_sums:
  assumes "hijacked_step s x = (out, s')" and "chan_inv (hjConn s)"
  shows "hjBuffered s @ unread (hjConn s) @ bytes_in (x, out) = bytes_out (x, out) @ hjBuffered s' @ unread (hjConn s')
    \<and> chan_inv (hjConn s')"
proof (cases "(\<exists>k. x = OpRead k) \<and> hjBuffered s \<noteq> []")
  case True
  then show ?thesis using assms by auto
next
  case False
  then obtain c where c: "chan_op_step (hjConn s) x = (out, c)" "s' = s\<lparr>hjConn := c\<rparr>"
    using assms(1) by (cases x) (auto split: prod.splits)
  have "hjBuffered s = [] \<or> bytes_out (x, out) = []"
    using False c(1) by (cases x) (auto split: option.splits sum.splits prod.splits if_splits)
  then show ?thesis using chan_op_step_sums [OF c(1) assms(2)] c(2) by (auto simp: unread_def)
qed

lemma hijacked_run_sums:
  "hijacked_run s xs = (tr, s') \<Longrightarrow> chan_inv (hjConn s) \<Longrightarrow>
   hjBuffered s @ unread (hjConn s) @ concat (map bytes_in tr)
     = concat (map bytes_out tr) @ hjBuffered s' @ unread (hjConn s')"
proof (induction xs arbitrary: s tr)
  case (Cons x xs)
  then obtain out s1 tr' where s: "hijacked_step s x = (out, s1)" "hijacked_run s1 xs = (tr', s')" "tr = (x, out) # tr'"
    by (auto split: prod.splits)
  note one = hijacked_step_sums [OF s(1) Cons.prems(2)]
  have "hjBuffered s @ unread (hjConn s) @ concat (map bytes_in tr)
      = (hjBuffered s @ unread (hjConn s) @ bytes_in (x, out)) @ concat (map bytes_in tr')" by (simp add: s(3))
  also have "\<dots> = bytes_out (x, out) @ hjBuffered s1 @ unread (hjConn s1) @ concat (map bytes_in tr')" using one by simp
  also have "\<dots> = concat (map bytes_out tr) @ hjBuffered s' @ unread (hjConn s')"
    using Cons.IH [OF s(2)] one by (simp add: s(3))
  finally show ?case .
qed simp
subsection \<open>The terminal starts where the head ends\<close>



text \<open>A refusal is an error with its status, and no stream.\<close>

lemma refusal_is_no_stream:
  assumes "split_head (buf @ pending c @ concat (inbound c)) = Some (h, body)" and "status_of h = Some code"
    and "code \<ge> 400" and "chan_inv c"
  shows "\<exists>gs. take_over room drain buf c = (gs, Refused code)"
  using read_head_ready [of buf c h body room "[]"] assms by (auto simp: unread_def take_over_def read_hijack_response_def)

text \<open>The other statuses are not taken for a refusal: the code that answers them goes on with the stream.\<close>

lemma plain_answer_is_taken_over:
  assumes "split_head (buf @ pending c @ concat (inbound c)) = Some (h, body)" and "status_of h = Some 200"
    and "chan_inv c"
  shows "\<exists>gs s. take_over room drain buf c = (gs, TakenOver (drain h s))"
  using read_head_ready [of buf c h body room "[]"] assms by (auto simp: unread_def take_over_def read_hijack_response_def)

end
