(* ===== verification/Spec2Isabelle.thy ===== *)
theory Spec2Isabelle
  imports Process Tabs Pumps Traffic Panel Pipeline Pack Hijack
begin

text \<open>
  A verification library for \<open>xqs-plugin-docker-discovery\<close>, a Go plugin that shows the Docker objects of a remote
  host as a tree in the xQuakShell client and acts on them.

  The program. The process (\<open>cmd/xqs-docker/main.go\<close>) talks to its host over standard input and output in binary
  frames (\<open>infra/ipc/codec.go\<close>). Frames carry JSON-RPC messages (\<open>rpc.go\<close>, \<open>client.go\<close>), the bytes of binary channels
  and credit for them (\<open>infra/chanbus\<close>). A channel is a stream to the Docker daemon of a session, on which
  \<open>infra/dockerapi\<close> speaks HTTP. \<open>usecase\<close> keeps one connection per session, draws the tree, follows the daemon's
  events, runs the user's actions and keeps log tabs, consoles and dialogs. \<open>presentation/handlers.go\<close> decodes what
  the host calls. \<open>infra/settings\<close> keeps a settings file per session. \<open>cmd/xqs-docker-pack\<close> builds the bundle that
  is installed.

  The theories, in the order they build on each other.

  Wire. \<open>Framing\<close> holds the contracts of a framed stream (locales \<open>framing\<close>, \<open>canonical_framing\<close> and \<open>frame_loop\<close>, a loop
  that acts on each frame). \<open>Codec\<close> is \<open>codec.go\<close> and the loop of \<open>Client.Serve\<close> (interpretations \<open>codec\<close>, \<open>client\<close>);
  \<open>Demux\<close> is the log framing of \<open>dockerapi/stream.go\<close> (interpretation \<open>mux\<close>). \<open>Json\<close> models \<open>encoding/json\<close> as the
  source uses it; \<open>Rpc\<close> is \<open>rpc.go\<close> and the calls, answers and close of \<open>client.go\<close>, as a step relation over any
  number of callers. \<open>Channel\<close> is \<open>channel.go\<close>: one definition per critical section, a wait being a result, so that an
  interleaving is a list of operations; its locale \<open>transport\<close> is what \<open>Write\<close> needs of the layer below, provided by
  \<open>Manager\<close> (\<open>manager.go\<close>, interpretation \<open>wire\<close>). \<open>Hijack\<close> is the takeover of a connection for an exec.

  Docker. \<open>GoError\<close> holds the error values and their wrapping, \<open>World\<close> the outside as a record of answers and the trace
  of what was done to it, \<open>Version\<close> the comparison of versions, \<open>Pipeline\<close> the lock of the one HTTP connection, \<open>Api\<close>
  every type and operation of \<open>client.go\<close>, \<open>resources.go\<close> and \<open>stream.go\<close>.

  Domain. \<open>Node\<close> is \<open>node.go\<close>, \<open>Status\<close> is \<open>status.go\<close>, \<open>Tree\<close> is \<open>tree.go\<close> and \<open>actions.go\<close> (locale \<open>usage_rows\<close>: what
  a list of rows marked by use promises, interpreted for images, volumes and networks).

  Use cases. \<open>Connection\<close> is \<open>connection.go\<close>, \<open>Publish\<close> is \<open>publish.go\<close>, \<open>Events\<close> is \<open>events.go\<close>, \<open>Settings\<close> is
  \<open>settings/store.go\<close>, \<open>Forms\<close>, \<open>Values\<close>, \<open>Encoding\<close> and \<open>Dialogs\<close> are \<open>dialogs.go\<close> with the number and text formats it uses,
  \<open>Service\<close> is the state of \<open>service.go\<close>, \<open>Surfaces\<close> is \<open>surfaces.go\<close>, \<open>Actions\<close> the rest of \<open>service.go\<close>, \<open>Details\<close> is
  \<open>details.go\<close>, \<open>Handlers\<close> is \<open>handlers.go\<close> and the switch of \<open>main.go\<close>.

  The whole. \<open>Effects\<close> says of every operation what it does to connections, tabs and open streams. \<open>Lifecycle\<close> is the
  step relation of the service: a message from the host, a turn of any goroutine, a flush; its invariant is
  \<open>plugin_inv\<close>. \<open>Guarantees\<close> reads the main safety properties off it; \<open>Tabs\<close>, \<open>Pumps\<close>, \<open>Panel\<close> and \<open>Traffic\<close> hold those of
  tabs, log pumps, the panel and of what reaches the host (locale \<open>traffic\<close>: a class of events that every operation
  keeps to, interpreted for \<open>no dialog\<close>, \<open>any\<close> and \<open>drawing only\<close>). \<open>Process\<close> puts service, IPC client and channel
  manager together, from frames to the end of \<open>main\<close>, and shows the switch to be a refinement of \<open>Lifecycle\<close>.

  The bundle. \<open>Sha256\<close> and \<open>Pack\<close>: the packed archive passes the check that the host is documented to make.

  Correspondence. A struct is a record with prefixed fields (\<open>Connection\<close> is \<open>connection\<close> with \<open>cx\<close>, \<open>Service\<close> is \<open>service\<close>
  with \<open>sv\<close>); the heap of connections is a list and a reference an index into it, as sessions share and replace
  connections; a map is a function to an option, or an association list where its order or text matters. A goroutine
  is a \<open>task\<close> of the service, a context a number in \<open>svContexts\<close> or \<open>svCancelled\<close>. The outside is the record \<open>world\<close>: what
  the daemon, the host and the opening of streams answer are functions of all that was done before, hence arbitrary
  and changing in time; everything done is an event of the trace, from which \<open>live_streams\<close> reads what is open.
  Where the code ranges over a map, the order is an argument of the definition and the theorems hold for every order.
  Machine integers are words where they wrap (ids, credit, lengths) and integers with an explicit range where Go
  decodes into \<open>int\<close>.

  Termination and fuel. Loops are structural or have a measure: bytes left in a stream, frames queued, bytes not yet
  written. The parser of JSON has fuel \<open>2 * length + 1\<close>, and more never changes its answer (proved in \<open>Json\<close>). The loop
  of \<open>watchEvents\<close> is meant to run for ever; its fuel counts rounds and the theorems hold for every amount.

  What the lemmas show. Round trips of frames, messages, JSON, node ids, settings and escapes; the invariants of
  channels, manager, connections and of the whole process; ownership of every stream; that answers reach their
  callers; ordering of bytes, frames and snapshots; error behaviour on every refusal; bounds of frames, windows and
  settings. The witnesses apply each of them to a concrete case. A few theorems state what the code does where its
  comments promise something else: \<open>early_close_is_lost\<close>, \<open>shared_client_never_replaced\<close>, \<open>clean_end_spins\<close>,
  \<open>flush_sends_parent_last\<close>, \<open>failed_read_is_final\<close>, \<open>unreachable_root_is_empty\<close>.

  Not modelled. Durations and deadlines (a timeout is a step that may happen at any time); logging; \<open>net/http\<close> below
  the request and the status (the framing of bodies, headers); the zip format; the nesting limit of
  \<open>encoding/json\<close>; the order of equal elements under \<open>sort.Slice\<close>, which is not stable in Go and stable here. A handler or
  the turn of a goroutine runs in one piece, except where the code gives up its lock in between and it matters: the
  race in \<open>Connection.Control\<close> (\<open>Connection\<close>), the calls of the IPC client (\<open>Rpc\<close>), the exchanges on a connection
  (\<open>Pipeline\<close>), the debounce (\<open>Events\<close>) and a channel (\<open>Channel\<close>). The streams of \<open>World\<close> and the channels of \<open>Manager\<close>
  are not identified with each other: in \<open>Process\<close> the operations on channels are steps of their own. A call of the
  host is recorded when it is attempted, whether or not it is then refused. The close of a response's body by the pump
  of a log acts on the lock of its connection (\<open>body_close\<close> in \<open>Pipeline\<close>) and is not an event of \<open>World\<close>. Forwarding code (\<open>dockerapi/conn.go\<close>, the
  host adapter), the setters of callbacks, the flags of the bundler and the unused \<open>decodeParams\<close> have no definition.
\<close>

end
